(* ===== verification/Prelude.thy ===== *)
theory Prelude
  imports Main "HOL-Library.Code_Target_Numeral"
begin

text \<open>
  Shared base of the development: the results of Go calls, the 64-bit integers and the
  durations of package \<^verbatim>\<open>time\<close>, the operations of packages \<^verbatim>\<open>strings\<close> and
  \<^verbatim>\<open>fmt\<close> that the sources use, and the collections of simplification rules the component
  theories draw on.  A Go string and a \<^verbatim>\<open>[]byte\<close> are both lists of 8-bit characters.
\<close>

named_theorems go_simps "unfolding rules for results and 64-bit arithmetic"
named_theorems topic_simps "rules that evaluate MQTT topics and their parsers"
named_theorems wire_simps "rules that evaluate the JSON coding of messages"

section \<open>Results of Go calls\<close>

type_synonym bytes = string

text \<open>
  An \<^verbatim>\<open>error\<close> is known to the sources by its text (\<^verbatim>\<open>err.Error()\<close>).  A call that
  returns only an error is a \<open>go_error option\<close>, where \<open>None\<close> is \<^verbatim>\<open>nil\<close>; a call that
  returns a value and an error is a sum \<open>go_error + 'a\<close>, \<open>Inl\<close> for a non-nil error; a call
  that can also panic is an \<open>'a go\<close>.
\<close>

datatype go_error = GoError (error_text: string)

datatype 'a go = Ok 'a | Err go_error | Panic string

definition errorf :: "string \<Rightarrow> go_error \<Rightarrow> go_error" where
  "errorf prefix e = GoError (prefix @ '': '' @ error_text e)"

fun is_ok :: "'a go \<Rightarrow> bool" where
  "is_ok (Ok _) = True"
| "is_ok (Err _) = False"
| "is_ok (Panic _) = False"

lemma is_ok_iff: "is_ok r \<longleftrightarrow> (\<exists>x. r = Ok x)"
  by (cases r) auto

lemma error_text_errorf [simp, go_simps]: "error_text (errorf p e) = p @ '': '' @ error_text e"
  by (simp add: errorf_def)

section \<open>Integers of 64 bits and durations\<close>

text \<open>
  \<^verbatim>\<open>int\<close>, \<^verbatim>\<open>int64\<close> and \<^verbatim>\<open>time.Duration\<close> are 64-bit two's complement on the
  platforms the agent and the workers are built for.  A value is an \<open>int\<close>; \<open>i64\<close> is the
  wrap-around, applied where an operation of the source can leave the range.
\<close>

definition i64 :: "int \<Rightarrow> int" where
  "i64 n = signed_take_bit 63 n"

definition in_i64 :: "int \<Rightarrow> bool" where
  "in_i64 n \<longleftrightarrow> - (2 ^ 63) \<le> n \<and> n < 2 ^ 63"

lemma i64_id [simp]: "in_i64 n \<Longrightarrow> i64 n = n"
  by (simp add: i64_def in_i64_def signed_take_bit_int_eq_self)

lemma in_i64_i64 [simp]: "in_i64 (i64 n)"
  using signed_take_bit_int_less_exp [of 63 n] signed_take_bit_int_greater_eq_minus_exp [of 63 n]
  by (simp add: i64_def in_i64_def)

text \<open>Go's integer division truncates towards zero.\<close>

definition quot :: "int \<Rightarrow> int \<Rightarrow> int" where
  "quot a b = sgn a * sgn b * (\<bar>a\<bar> div \<bar>b\<bar>)"

lemma quot_pos: "0 \<le> a \<Longrightarrow> 0 < b \<Longrightarrow> quot a b = a div b"
  by (cases "a = 0") (simp_all add: quot_def)

lemma quot_nonpos: "a \<le> 0 \<Longrightarrow> 0 < b \<Longrightarrow> quot a b \<le> 0"
  by (simp add: quot_def sgn_if pos_imp_zdiv_nonneg_iff)

type_synonym duration = int
type_synonym time = int

abbreviation (input) millisecond :: duration where "millisecond \<equiv> 1000000"
abbreviation (input) second :: duration where "second \<equiv> 1000000000"
abbreviation (input) minute :: duration where "minute \<equiv> 60000000000"
abbreviation (input) hour :: duration where "hour \<equiv> 3600000000000"

section \<open>Strings\<close>

text \<open>\<^verbatim>\<open>strings.Split\<close> with a separator of one character, and \<^verbatim>\<open>strings.Join\<close>.\<close>

fun splitOn :: "char \<Rightarrow> string \<Rightarrow> string list" where
  "splitOn c [] = [[]]"
| "splitOn c (x # xs) =
     (if x = c then [] # splitOn c xs
      else (case splitOn c xs of [] \<Rightarrow> [[x]] | p # ps \<Rightarrow> (x # p) # ps))"

fun joinWith :: "string \<Rightarrow> string list \<Rightarrow> string" where
  "joinWith sep [] = []"
| "joinWith sep [p] = p"
| "joinWith sep (p # q # ps) = p @ sep @ joinWith sep (q # ps)"

lemma splitOn_not_Nil [simp]: "splitOn c s \<noteq> []"
  by (induction s) (auto split: list.splits)

lemma splitOn_clean [simp]: "c \<notin> set a \<Longrightarrow> splitOn c a = [a]"
  by (induction a) auto

lemma splitOn_append_sep: "c \<notin> set a \<Longrightarrow> splitOn c (a @ c # b) = a # splitOn c b"
  by (induction a) auto

lemma splitOn_parts: "p \<in> set (splitOn c s) \<Longrightarrow> c \<notin> set p"
proof (induction s arbitrary: p)
  case Nil
  then show ?case by simp
next
  case (Cons x xs)
  then show ?case by (cases "splitOn c xs") (auto split: if_splits)
qed

lemma joinWith_Cons: "ps \<noteq> [] \<Longrightarrow> joinWith sep (p # ps) = p @ sep @ joinWith sep ps"
  by (cases ps) auto

lemma join_splitOn: "joinWith [c] (splitOn c s) = s"
proof (induction s)
  case Nil
  then show ?case by simp
next
  case (Cons x xs)
  show ?case
  proof (cases "splitOn c xs")
    case Nil
    then show ?thesis by simp
  next
    case (Cons p ps)
    with Cons.IH show ?thesis by (cases ps) auto
  qed
qed

text \<open>\<^verbatim>\<open>strings.Contains\<close>, \<^verbatim>\<open>strings.HasPrefix\<close> and \<^verbatim>\<open>strings.TrimPrefix\<close>.\<close>

fun hasPrefix :: "string \<Rightarrow> string \<Rightarrow> bool" where
  "hasPrefix s [] = True"
| "hasPrefix [] (p # ps) = False"
| "hasPrefix (x # xs) (p # ps) = (x = p \<and> hasPrefix xs ps)"

fun containsStr :: "string \<Rightarrow> string \<Rightarrow> bool" where
  "containsStr [] sub = (sub = [])"
| "containsStr (x # xs) sub = (hasPrefix (x # xs) sub \<or> containsStr xs sub)"

definition trimPrefix :: "string \<Rightarrow> string \<Rightarrow> string" where
  "trimPrefix s p = (if hasPrefix s p then drop (length p) s else s)"

lemma hasPrefix_append [simp]: "hasPrefix (p @ s) p"
  by (induction p) auto

lemma hasPrefix_iff: "hasPrefix s p \<longleftrightarrow> (\<exists>r. s = p @ r)"
  by (induction s p rule: hasPrefix.induct) auto

text \<open>
  \<^verbatim>\<open>strings.TrimSpace\<close> on the ASCII white space; the two further code points it removes
  (U+0085 and U+00A0) are several bytes here and are kept.
\<close>

definition isSpace :: "char \<Rightarrow> bool" where
  "isSpace c \<longleftrightarrow> c \<in> {CHR 0x09, CHR 0x0A, CHR 0x0B, CHR 0x0C, CHR 0x0D, CHR 0x20}"

definition trimSpace :: "string \<Rightarrow> string" where
  "trimSpace s = rev (dropWhile isSpace (rev (dropWhile isSpace s)))"

lemma dropWhile_last_first:
  assumes "xs \<noteq> []" and "\<not> P (hd xs)"
  shows "dropWhile P xs = xs"
  using assms by (cases xs) auto

lemma trimSpace_set: "set (trimSpace s) \<subseteq> set s"
  unfolding trimSpace_def by (auto dest!: set_dropWhileD)

lemma trimSpace_last: "trimSpace s \<noteq> [] \<Longrightarrow> \<not> isSpace (last (trimSpace s))"
  unfolding trimSpace_def
  by (metis hd_dropWhile last_rev rev_is_Nil_conv)

lemma trimSpace_noop: "\<forall>c \<in> set s. \<not> isSpace c \<Longrightarrow> trimSpace s = s"
  unfolding trimSpace_def
  by (metis dropWhile_eq_self_iff hd_in_set rev_rev_ident set_rev)

section \<open>Decimal numbers\<close>

text \<open>The verb \<^verbatim>\<open>%d\<close> of \<^verbatim>\<open>fmt.Sprintf\<close>.\<close>

definition digit :: "nat \<Rightarrow> char" where
  "digit d = (char_of :: nat \<Rightarrow> char) (48 + d)"

definition digitValue :: "char \<Rightarrow> nat" where
  "digitValue c = (of_char c :: nat) - 48"

fun showNat :: "nat \<Rightarrow> string" where
  "showNat n = (if n < 10 then [digit n] else showNat (n div 10) @ [digit (n mod 10)])"

declare showNat.simps [simp del]

definition showInt :: "int \<Rightarrow> string" where
  "showInt n = (if n < 0 then CHR ''-'' # showNat (nat (- n)) else showNat (nat n))"

definition readNat :: "string \<Rightarrow> nat" where
  "readNat s = foldl (\<lambda>n c. 10 * n + digitValue c) 0 s"

lemma digitValue_digit [simp]: "d < 10 \<Longrightarrow> digitValue (digit d) = d"
  by (simp add: digitValue_def digit_def of_char_of)

lemma showNat_small: "n < 10 \<Longrightarrow> showNat n = [digit n]"
  by (simp add: showNat.simps)

lemma showNat_step: "10 \<le> n \<Longrightarrow> showNat n = showNat (n div 10) @ [digit (n mod 10)]"
  by (subst showNat.simps) simp

lemma readNat_snoc: "readNat (s @ [c]) = 10 * readNat s + digitValue c"
  by (simp add: readNat_def)

lemma readNat_showNat [simp]: "readNat (showNat n) = n"
proof (induction n rule: less_induct)
  case (less n)
  show ?case
  proof (cases "n < 10")
    case True
    then show ?thesis by (simp add: showNat_small readNat_def)
  next
    case False
    then show ?thesis using less.IH [of "n div 10"]
      by (simp add: showNat_step readNat_snoc)
  qed
qed

lemma showNat_inj: "showNat m = showNat n \<Longrightarrow> m = n"
  by (metis readNat_showNat)

lemma showNat_not_Nil [simp]: "showNat n \<noteq> []"
  by (subst showNat.simps) simp

text \<open>
  \<^verbatim>\<open>Duration.String\<close>, the verb \<^verbatim>\<open>%s\<close> of a duration: the fraction without its trailing
  zeros, the units h, m and s above a second and ns, us (with the sign for micro) and ms below.
\<close>

fun padDigits :: "nat \<Rightarrow> nat \<Rightarrow> string" where
  "padDigits 0 v = []"
| "padDigits (Suc k) v = padDigits k (v div 10) @ [digit (v mod 10)]"

definition fracString :: "nat \<Rightarrow> nat \<Rightarrow> string" where
  "fracString prec v =
     (let ds = rev (dropWhile (\<lambda>c. c = CHR ''0'') (rev (padDigits prec v)))
      in if ds = [] then [] else CHR ''.'' # ds)"

definition durationString :: "duration \<Rightarrow> string" where
  "durationString d =
     (let u = nat \<bar>d\<bar>; sign = (if d < 0 then ''-'' else []); total = u div 10 ^ 9 in
      sign @
      (if u = 0 then ''0s''
       else if u < 10 ^ 3 then showNat u @ ''ns''
       else if u < 10 ^ 6 then showNat (u div 10 ^ 3) @ fracString 3 u @ [CHR 0xC2, CHR 0xB5, CHR ''s'']
       else if u < 10 ^ 9 then showNat (u div 10 ^ 6) @ fracString 6 u @ ''ms''
       else (if total div 3600 = 0 then [] else showNat (total div 3600) @ ''h'') @
            (if total div 60 = 0 then [] else showNat (total div 60 mod 60) @ ''m'') @
            showNat (total mod 60) @ fracString 9 u @ ''s''))"

text \<open>
  The verb \<^verbatim>\<open>%q\<close> on text whose bytes are printable: quotes and backslashes are escaped, and
  the control characters are written as escapes.
\<close>

definition hexDigit :: "nat \<Rightarrow> char" where
  "hexDigit d = (if d < 10 then digit d else (char_of :: nat \<Rightarrow> char) (87 + d))"

definition hexByte :: "char \<Rightarrow> string" where
  "hexByte c = [hexDigit ((of_char c :: nat) div 16), hexDigit ((of_char c :: nat) mod 16)]"

definition quoteChar :: "char \<Rightarrow> string" where
  "quoteChar c =
     (if c = CHR 0x22 \<or> c = CHR 0x5C then [CHR 0x5C, c]
      else if c = CHR 0x07 then [CHR 0x5C, CHR ''a'']
      else if c = CHR 0x08 then [CHR 0x5C, CHR ''b'']
      else if c = CHR 0x0C then [CHR 0x5C, CHR ''f'']
      else if c = CHR 0x0A then [CHR 0x5C, CHR ''n'']
      else if c = CHR 0x0D then [CHR 0x5C, CHR ''r'']
      else if c = CHR 0x09 then [CHR 0x5C, CHR ''t'']
      else if c = CHR 0x0B then [CHR 0x5C, CHR ''v'']
      else if (of_char c :: nat) < 32 \<or> (of_char c :: nat) = 127 then [CHR 0x5C, CHR ''x''] @ hexByte c
      else [c])"

definition quoteGo :: "string \<Rightarrow> string" where
  "quoteGo s = [CHR 0x22] @ concat (map quoteChar s) @ [CHR 0x22]"

section \<open>Reading the rows of a query\<close>

text \<open>Failures of one query: of the query, of the scan of its n-th row, of the iteration.\<close>

record query_env =
  q_query :: "go_error option"
  q_scan :: "nat \<Rightarrow> go_error option"
  q_rows :: "go_error option"

definition query_fine :: query_env where
  "query_fine = \<lparr>q_query = None, q_scan = (\<lambda>_. None), q_rows = None\<rparr>"

fun scanRows :: "(nat \<Rightarrow> go_error option) \<Rightarrow> nat \<Rightarrow> 'r list \<Rightarrow> go_error + 'r list" where
  "scanRows fault k [] = Inr []"
| "scanRows fault k (r # rs) =
     (case fault k of Some err \<Rightarrow> Inl err | None \<Rightarrow>
      (case scanRows fault (Suc k) rs of Inl err \<Rightarrow> Inl err | Inr out \<Rightarrow> Inr (r # out)))"

lemma scanRows_Inr: "scanRows fault k rs = Inr out \<Longrightarrow> out = rs"
  by (induction fault k rs arbitrary: out rule: scanRows.induct)
    (auto split: option.splits sum.splits)

lemma scanRows_fine: "(\<And>n. fault n = None) \<Longrightarrow> scanRows fault k rs = Inr rs"
  by (induction fault k rs rule: scanRows.induct) simp_all

section \<open>Lists\<close>

lemma sorted_strict_distinct: "sorted_wrt (<) (xs :: 'a::linorder list) \<Longrightarrow> distinct xs"
  by (simp add: strict_sorted_iff)

lemma sorted_strict_sort_key:
  "sorted_wrt (<) (map f xs) \<Longrightarrow> sort_key (f :: 'a \<Rightarrow> 'b::linorder) xs = xs"
  by (simp add: sorted_sort_id strict_sorted_iff sort_key_id_if_sorted)

lemma filter_notin_take:
  assumes "distinct (map f xs)"
  shows "filter (\<lambda>x. f x \<notin> f ` set (take n xs)) xs = drop n xs"
proof -
  have "filter (\<lambda>x. f x \<notin> f ` set (take n xs)) (take n xs) = []"
    by (auto simp: filter_empty_conv)
  moreover have "filter (\<lambda>x. f x \<notin> f ` set (take n xs)) (drop n xs) = drop n xs"
  proof -
    have "distinct (map f (take n xs @ drop n xs))" using assms by simp
    then have "f ` set (take n xs) \<inter> f ` set (drop n xs) = {}"
      unfolding map_append distinct_append by simp
    then show ?thesis by (auto simp: filter_id_conv)
  qed
  ultimately show ?thesis
    by (metis append_take_drop_id filter_append append_Nil)
qed

end
