(* ===== verification/Tasks.thy ===== *)
theory Tasks
  imports Prelude
begin

text \<open>
  Goroutines that share a state.  A task is what a goroutine has still to do: nothing, or one step
  on the shared state (a command run, a message published, a variable read or written under its
  mutex) and the task that follows, which may depend on what the step has returned.  The theory
  holds the interleavings of several tasks and the rules for what holds in all of them.
\<close>

section \<open>Tasks and their interleavings\<close>

datatype (dead 'x) task = Stop | Step "'x \<Rightarrow> 'x \<times> 'x task"

primrec runAlone :: "'x task \<Rightarrow> 'x \<Rightarrow> 'x" where
  "runAlone Stop = (\<lambda>x. x)"
| "runAlone (Step f) = (\<lambda>x. case (map_prod id runAlone \<circ> f) x of (y, rest) \<Rightarrow> rest y)"

lemma runAlone_Step: "runAlone (Step f) x = (case f x of (y, t) \<Rightarrow> runAlone t y)"
  by (simp add: case_prod_beta)

declare runAlone.simps(2) [simp del]

fun finished :: "'x task \<Rightarrow> bool" where
  "finished Stop = True"
| "finished (Step f) = False"

lemma finished_Stop: "finished t \<longleftrightarrow> t = Stop"
  by (cases t) simp_all

text \<open>
  A run of tasks: at each turn one task that is not over does its next step.  The log has the number
  of the task and the states before and after.
\<close>

type_synonym 'x turns = "(nat \<times> 'x \<times> 'x) list"

inductive interleaved :: "'x task list \<Rightarrow> 'x \<Rightarrow> 'x turns \<Rightarrow> 'x task list \<Rightarrow> 'x \<Rightarrow> bool" for ts x where
  begun: "interleaved ts x [] ts x"
| turn: "interleaved ts x log us y \<Longrightarrow> i < length us \<Longrightarrow> us ! i = Step f \<Longrightarrow> f y = (z, t) \<Longrightarrow>
    interleaved ts x (log @ [(i, y, z)]) (us[i := t]) z"

text \<open>The run that a schedule of task numbers gives; turns of tasks that are over are skipped.\<close>

fun runSchedule :: "nat list \<Rightarrow> 'x task list \<Rightarrow> 'x \<Rightarrow> 'x turns \<times> 'x task list \<times> 'x" where
  "runSchedule [] ts x = ([], ts, x)"
| "runSchedule (i # is) ts x =
     (if i < length ts then
        (case ts ! i of
           Stop \<Rightarrow> runSchedule is ts x
         | Step f \<Rightarrow>
             (case f x of (y, t) \<Rightarrow>
               (case runSchedule is (ts[i := t]) y of (log, us, z) \<Rightarrow> ((i, x, y) # log, us, z))))
      else runSchedule is ts x)"

lemma interleaved_length: "interleaved ts x log us y \<Longrightarrow> length us = length ts"
  by (induction rule: interleaved.induct) simp_all

lemma interleaved_trans:
  assumes "interleaved ts x log us y" and "interleaved us y log' vs z"
  shows "interleaved ts x (log @ log') vs z"
  using assms(2)
proof (induction rule: interleaved.induct)
  case begun
  then show ?case using assms(1) by simp
next
  case (turn log' vs z i f z' t)
  from interleaved.turn [OF turn.IH turn.hyps(2-4)] show ?case by simp
qed

lemma interleaved_first:
  assumes "i < length ts" and "ts ! i = Step f" and "f x = (y, t)" and "interleaved (ts[i := t]) y log us z"
  shows "interleaved ts x ((i, x, y) # log) us z"
  using interleaved_trans [OF interleaved.turn [OF interleaved.begun assms(1-3)] assms(4)] by simp

lemma runSchedule_interleaved:
  "runSchedule is ts x = (log, us, y) \<Longrightarrow> interleaved ts x log us y"
proof (induction "is" ts x arbitrary: log us y rule: runSchedule.induct)
  case (1 ts x)
  then show ?case by (simp add: interleaved.begun)
next
  case (2 i "is" ts x)
  show ?case
  proof (cases "i < length ts \<and> ts ! i \<noteq> Stop")
    case False
    then show ?thesis using 2 by (auto split: if_splits)
  next
    case True
    then obtain f where f: "ts ! i = Step f" by (cases "ts ! i") auto
    obtain z t where z: "f x = (z, t)" by fastforce
    obtain log' us' y' where r: "runSchedule is (ts[i := t]) z = (log', us', y')" by (metis prod_cases3)
    have "interleaved (ts[i := t]) z log' us' y'" using "2.IH"(2) [OF _ f z [symmetric] r] True by simp
    from interleaved_first [OF _ f z this] True r f z "2.prems" show ?thesis by simp
  qed
qed

lemma runSchedule_append:
  "runSchedule (is @ js) ts x =
     (case runSchedule is ts x of (log, us, y) \<Rightarrow>
      (case runSchedule js us y of (log', vs, z) \<Rightarrow> (log @ log', vs, z)))"
  by (induction "is" ts x rule: runSchedule.induct) (auto split: prod.split task.split)

text \<open>Every run is that of a schedule: the numbers in its log.\<close>

lemma interleaved_schedule: "interleaved ts x log us y \<Longrightarrow> runSchedule (map fst log) ts x = (log, us, y)"
  by (induction rule: interleaved.induct) (simp_all add: runSchedule_append)

text \<open>A task that is given all turns does what it does alone.\<close>

lemma runAlone_interleaved:
  "i < length ts \<Longrightarrow> ts ! i = t \<Longrightarrow> \<exists>log. interleaved ts x log (ts[i := Stop]) (runAlone t x)"
proof (induction t arbitrary: ts x)
  case Stop
  then have "ts[i := Stop] = ts" by (metis list_update_id)
  then show ?case using interleaved.begun [of ts x] by auto
next
  case (Step f)
  obtain y t where y: "f x = (y, t)" by fastforce
  then have "\<exists>log. interleaved (ts[i := t]) y log ((ts[i := t])[i := Stop]) (runAlone t y)"
    using Step.IH [OF rangeI, of t x "ts[i := t]" y] Step.prems(1) by simp
  then obtain log where "interleaved (ts[i := t]) y log (ts[i := Stop]) (runAlone t y)" by auto
  from interleaved_first [OF Step.prems y this] y show ?case by (auto simp: runAlone_Step)
qed

text \<open>Giving every task its turns until it is over, one task after the other, is an interleaving.\<close>

lemma sequential_interleaved:
  "\<exists>log. interleaved ts x log (map (\<lambda>_. Stop) ts) (fold runAlone ts x)"
proof -
  have "\<exists>log'. interleaved ts x log' (map (\<lambda>_. Stop) (us @ vs)) (fold runAlone vs y)"
    if "interleaved ts x log (map (\<lambda>_. Stop) us @ vs) y" for us vs log y
    using that
  proof (induction vs arbitrary: us log y)
    case (Cons v vs)
    let ?us = "map (\<lambda>_. Stop) us @ v # vs"
    have i: "length us < length ?us" "?us ! length us = v" by (simp_all add: nth_append)
    from runAlone_interleaved [OF i, of y] obtain l where "interleaved ?us y l (?us[length us := Stop]) (runAlone v y)" by blast
    moreover have "?us[length us := Stop] = map (\<lambda>_. Stop) (us @ [v]) @ vs" by (simp add: list_update_append)
    ultimately have "interleaved ts x (log @ l) (map (\<lambda>_. Stop) (us @ [v]) @ vs) (runAlone v y)"
      using interleaved_trans [OF Cons.prems] by metis
    from Cons.IH [OF this] show ?case by simp
  qed auto
  from this [of "[]" "[]" ts x] interleaved.begun [of ts x] show ?thesis by simp
qed

text \<open>Some run leads from one state to the other.\<close>

definition reaches :: "'x task list \<Rightarrow> 'x \<Rightarrow> 'x task list \<Rightarrow> 'x \<Rightarrow> bool" where
  "reaches ts x us y \<longleftrightarrow> (\<exists>steps. interleaved ts x steps us y)"

lemma reaches_refl: "reaches ts x ts x"
  unfolding reaches_def by (rule exI, rule interleaved.begun)

lemma reaches_trans: "reaches ts x us y \<Longrightarrow> reaches us y vs z \<Longrightarrow> reaches ts x vs z"
  using interleaved_trans by (metis reaches_def)

lemma reaches_first:
  "i < length ts \<Longrightarrow> ts ! i = Step f \<Longrightarrow> f x = (y, t) \<Longrightarrow> reaches (ts[i := t]) y us z \<Longrightarrow> reaches ts x us z"
  using interleaved_first by (metis reaches_def)

lemma reaches_alone: "i < length ts \<Longrightarrow> reaches ts x (ts[i := Stop]) (runAlone (ts ! i) x)"
  unfolding reaches_def by (erule runAlone_interleaved) (rule HOL.refl)

section \<open>What every interleaving keeps\<close>

text \<open>Every step a task can take, in whatever state, is within a relation.\<close>

inductive keeps :: "('x \<Rightarrow> 'x \<Rightarrow> bool) \<Rightarrow> 'x task \<Rightarrow> bool" for G where
  keeps_Stop: "keeps G Stop"
| keeps_Step: "(\<And>x. G x (fst (f x)) \<and> keeps G (snd (f x))) \<Longrightarrow> keeps G (Step f)"

inductive_cases keeps_StepE: "keeps G (Step f)"

locale guarantee =
  fixes G :: "'x \<Rightarrow> 'x \<Rightarrow> bool"
  assumes refl: "G x x"
    and trans: "G x y \<Longrightarrow> G y z \<Longrightarrow> G x z"
begin

lemma kept:
  assumes "interleaved ts x log us y" and "\<forall>t \<in> set ts. keeps G t"
  shows "G x y \<and> (\<forall>t \<in> set us. keeps G t)"
  using assms(1)
proof (induction rule: interleaved.induct)
  case begun
  then show ?case using assms(2) refl by simp
next
  case (turn log us y i f z t)
  then have "keeps G (Step f)" by (metis nth_mem)
  then have "G y z \<and> keeps G t" using turn.hyps(4) by (metis fst_conv snd_conv keeps_StepE)
  then show ?case using turn.IH trans set_update_subset_insert [of us i t] by blast
qed

end

section \<open>Invariants of the state\<close>

text \<open>
  Every step a task can take keeps an invariant, when it holds before; what the task does next may
  depend on what it has seen of such a state.
\<close>

inductive preserves :: "('x \<Rightarrow> bool) \<Rightarrow> 'x task \<Rightarrow> bool" for I where
  preserves_Stop: "preserves I Stop"
| preserves_Step: "(\<And>x. I x \<Longrightarrow> I (fst (f x))) \<Longrightarrow> (\<And>x. I x \<Longrightarrow> preserves I (snd (f x))) \<Longrightarrow> preserves I (Step f)"

inductive_cases preserves_StepE: "preserves I (Step f)"

lemma interleaved_invariant:
  assumes "interleaved ts x log us y" and "\<forall>t \<in> set ts. preserves I t" and "I x"
  shows "I y \<and> (\<forall>t \<in> set us. preserves I t)"
  using assms(1)
proof (induction rule: interleaved.induct)
  case begun
  then show ?case using assms(2,3) by simp
next
  case (turn log us y i f z t)
  then have "preserves I (Step f)" by (metis nth_mem)
  then have "I z \<and> preserves I t" using turn.IH turn.hyps(4) by (metis fst_conv snd_conv preserves_StepE)
  then show ?case using turn.IH set_update_subset_insert [of us i t] by blast
qed

section \<open>What a task sees\<close>

text \<open>A task for which only a part of the state matters, and what it makes of that part.\<close>

inductive localTo :: "('x \<Rightarrow> 'v) \<Rightarrow> 'x task \<Rightarrow> bool" for V where
  local_Stop: "localTo V Stop"
| local_Step: "(\<And>x. localTo V (snd (f x))) \<Longrightarrow>
    (\<And>x y. V x = V y \<Longrightarrow> V (fst (f x)) = V (fst (f y)) \<and> snd (f x) = snd (f y)) \<Longrightarrow> localTo V (Step f)"

lemma local_StepD: "localTo V (Step f) \<Longrightarrow> localTo V (snd (f x))"
  by (erule localTo.cases) (blast, metis task.inject)

lemma runAlone_local: "localTo V t \<Longrightarrow> V x = V y \<Longrightarrow> V (runAlone t x) = V (runAlone t y)"
proof (induction arbitrary: x y rule: localTo.induct)
  case (local_Step f)
  from local_Step.hyps(2) [OF local_Step.prems] have f: "V (fst (f x)) = V (fst (f y))" "snd (f x) = snd (f y)" by blast+
  from local_Step.IH [OF f(1), of x] show ?case
    unfolding runAlone_Step case_prod_beta f(2) .
qed simp

text \<open>
  A task that sees a part of the state which the others leave alone makes of it in every
  interleaving what it makes of it alone.
\<close>

lemma interleaved_projection:
  assumes "interleaved ts x log us y" and "i < length ts" and "localTo V (ts ! i)"
    and "\<And>j. j < length ts \<Longrightarrow> j \<noteq> i \<Longrightarrow> keeps (\<lambda>x y. V y = V x) (ts ! j)"
  shows "V (runAlone (us ! i) y) = V (runAlone (ts ! i) x) \<and> localTo V (us ! i) \<and>
    (\<forall>j < length ts. j \<noteq> i \<longrightarrow> keeps (\<lambda>x y. V y = V x) (us ! j))"
  using assms(1)
proof (induction rule: interleaved.induct)
  case begun
  then show ?case using assms(3,4) by simp
next
  case (turn log us y j f z t)
  have z: "z = fst (f y)" "t = snd (f y)" using turn.hyps(4) by simp_all
  have len: "length us = length ts" using interleaved_length [OF turn.hyps(1)] .
  have IH: "V (runAlone (us ! i) y) = V (runAlone (ts ! i) x)" "localTo V (us ! i)"
    "\<And>j. j < length ts \<Longrightarrow> j \<noteq> i \<Longrightarrow> keeps (\<lambda>x y. V y = V x) (us ! j)" using turn.IH by blast+
  show ?case
  proof (cases "j = i")
    case True
    have "us[j := t] ! i = t" using True turn.hyps(2) by simp
    moreover have "localTo V t" using IH(2) True turn.hyps(3) unfolding z by (metis local_StepD)
    moreover have "V (runAlone t z) = V (runAlone (ts ! i) x)"
      using IH(1) True turn.hyps(3) unfolding z by (metis runAlone_Step case_prod_beta)
    moreover have "keeps (\<lambda>x y. V y = V x) (us[j := t] ! m)" if "m < length ts" "m \<noteq> i" for m
      using IH(3) [OF that] True that(2) by simp
    ultimately show ?thesis by simp
  next
    case False
    have "keeps (\<lambda>x y. V y = V x) (Step f)" using IH(3) [of j] turn.hyps(2,3) len False by simp
    then have "V (fst (f y)) = V y \<and> keeps (\<lambda>x y. V y = V x) (snd (f y))" by (rule keeps_StepE) blast
    then have k: "V z = V y" "keeps (\<lambda>x y. V y = V x) t" unfolding z by blast+
    have "us[j := t] ! i = us ! i" using False by simp
    moreover have "V (runAlone (us ! i) z) = V (runAlone (us ! i) y)" by (rule runAlone_local [OF IH(2) k(1)])
    moreover have "keeps (\<lambda>x y. V y = V x) (us[j := t] ! m)" if "m < length ts" "m \<noteq> i" for m
      using IH(3) [OF that] k(2) that(1) len by (cases "m = j") simp_all
    ultimately show ?thesis using IH(1,2) by simp
  qed
qed

section \<open>How long tasks run\<close>

inductive atMost :: "nat \<Rightarrow> 'x task \<Rightarrow> bool" where
  atMost_Stop: "atMost n Stop"
| atMost_Step: "(\<And>x. atMost n (snd (f x))) \<Longrightarrow> atMost (Suc n) (Step f)"

inductive_cases atMost_StepE: "atMost n (Step f)"

lemma atMost_mono: "atMost n t \<Longrightarrow> n \<le> m \<Longrightarrow> atMost m t"
proof (induction arbitrary: m rule: atMost.induct)
  case (atMost_Step n f)
  then obtain k where "m = Suc k" "n \<le> k" by (cases m) auto
  then show ?case using atMost_Step.IH by (auto intro: atMost.atMost_Step)
qed (rule atMost_Stop)

text \<open>The turns that a task has had.\<close>

definition turnsOf :: "nat \<Rightarrow> 'x turns \<Rightarrow> nat" where
  "turnsOf i log = count_list (map fst log) i"

lemma turnsOf_bound:
  assumes "interleaved ts x log us y" and "i < length ts" and "atMost n (ts ! i)"
  shows "\<exists>m. atMost m (us ! i) \<and> turnsOf i log + m = n"
  using assms(1)
proof (induction rule: interleaved.induct)
  case begun
  then show ?case using assms(3) by (simp add: turnsOf_def)
next
  case (turn log us y j f z t)
  then obtain m where m: "atMost m (us ! i)" "turnsOf i log + m = n" by blast
  show ?case
  proof (cases "j = i")
    case True
    then obtain k where "m = Suc k" "atMost k t"
      using m(1) turn.hyps(3,4) by (auto elim!: atMost_StepE) (metis snd_conv)
    then show ?thesis using m(2) True turn.hyps(2) by (intro exI [of _ k]) (simp add: turnsOf_def)
  next
    case False
    then show ?thesis using m by (intro exI [of _ m]) (simp add: turnsOf_def)
  qed
qed

text \<open>A schedule that gives every task the turns it can need finishes all of them.\<close>

lemma runSchedule_finishes:
  "(\<And>i. i < length ts \<Longrightarrow> atMost (count_list sched i) (ts ! i)) \<Longrightarrow>
   list_all finished (fst (snd (runSchedule sched ts x)))"
proof (induction sched arbitrary: ts x)
  case Nil
  have "ts ! i = Stop" if "i < length ts" for i
    using Nil [OF that] by (auto elim: atMost.cases)
  then show ?case by (simp add: list_all_length)
next
  case (Cons j sched)
  show ?case
  proof (cases "j < length ts \<and> ts ! j \<noteq> Stop")
    case False
    have "atMost (count_list sched i) (ts ! i)" if "i < length ts" for i
      using Cons.prems [OF that] False that by (cases "j = i") (auto intro: atMost_Stop)
    then show ?thesis using Cons.IH False by (auto split: task.split)
  next
    case True
    then obtain f where f: "ts ! j = Step f" by (cases "ts ! j") auto
    have "atMost (count_list sched i) (ts[j := snd (f x)] ! i)" if "i < length ts" for i
      using Cons.prems [OF that] f that by (cases "j = i") (auto elim: atMost_StepE)
    then have "list_all finished (fst (snd (runSchedule sched (ts[j := snd (f x)]) (fst (f x)))))"
      by (intro Cons.IH) simp
    then show ?thesis using True f by (simp add: case_prod_beta)
  qed
qed

end
