(* ===== verification/Docker.thy ===== *)
theory Docker
  imports Prelude
begin

text \<open>
  The agent's wrapper of the container engine's command line,
  \<^verbatim>\<open>agent/internal/ota/docker.go\<close>.  The engine is not part of the sources: running a command
  is an argument of every operation, a function from a time limit, a binary, its arguments and the
  engine's state to how the process ended and the engine's next state.
\<close>

section \<open>Running commands\<close>

text \<open>
  A process is not started at all (with the error's text), or it ends: with the text of
  \<^verbatim>\<open>Wait\<close>'s error (\<^verbatim>\<open>exit status 1\<close>, \<^verbatim>\<open>signal: killed\<close>) or without one, what it
  wrote to its standard output, and what it wrote to both outputs.
\<close>

datatype proc = NotStarted string | Exited "string option" string string

type_synonym 's runner = "duration option \<Rightarrow> string \<Rightarrow> string list \<Rightarrow> 's \<Rightarrow> proc \<times> 's"

definition runError :: "string \<Rightarrow> string list \<Rightarrow> string \<Rightarrow> string \<Rightarrow> go_error" where
  "runError name args err out =
     GoError (name @ '' '' @ joinWith '' '' args @ '': '' @ err @ '': '' @ trimSpace out)"

definition runCmd ::
  "'s runner \<Rightarrow> duration option \<Rightarrow> string \<Rightarrow> string list \<Rightarrow> 's \<Rightarrow> go_error option \<times> 's" where
  "runCmd rn ctx name args s =
     (case rn ctx name args s of (p, s') \<Rightarrow>
       (case p of
          NotStarted err \<Rightarrow> (Some (runError name args err ''''), s')
        | Exited (Some err) out both \<Rightarrow> (Some (runError name args err both), s')
        | Exited None out both \<Rightarrow> (None, s')))"

definition capture ::
  "'s runner \<Rightarrow> duration option \<Rightarrow> string \<Rightarrow> string list \<Rightarrow> 's \<Rightarrow> (go_error + string) \<times> 's" where
  "capture rn ctx name args s =
     (case rn ctx name args s of (p, s') \<Rightarrow>
       (case p of
          NotStarted err \<Rightarrow> (Inl (GoError err), s')
        | Exited (Some err) out both \<Rightarrow> (Inl (GoError err), s')
        | Exited None out both \<Rightarrow> (Inr out, s')))"

text \<open>\<^verbatim>\<open>state, _ := capture(...)\<close>: the empty string when it fails.\<close>

definition outputOr :: "go_error + string \<Rightarrow> string" where
  "outputOr r = (case r of Inl err \<Rightarrow> '''' | Inr out \<Rightarrow> out)"

section \<open>The wrapper\<close>

record dockerCLI =
  d_ContainerName :: string
  d_RunArgs :: "string list"
  d_bin :: string

definition NewDockerCLI :: "string \<Rightarrow> (string \<Rightarrow> bool) \<Rightarrow> string list \<Rightarrow> dockerCLI" where
  "NewDockerCLI envBin onPath runArgs =
     (let bin = (if envBin \<noteq> '''' then envBin
        else if onPath ''docker'' then ''docker''
        else if onPath ''podman'' then ''podman''
        else ''docker'')
      in \<lparr>d_ContainerName = ''robot-app'', d_RunArgs = runArgs, d_bin = bin\<rparr>)"

definition tmpName :: "dockerCLI \<Rightarrow> string" where
  "tmpName d = d_ContainerName d @ ''-new''"

text \<open>The commands the wrapper issues.\<close>

definition pullArgs :: "dockerCLI \<Rightarrow> string \<Rightarrow> string list" where
  "pullArgs d ref = [''pull''] @ (if d_bin d = ''podman'' then [''--tls-verify=false''] else []) @ [ref]"

definition inspectImage :: "string \<Rightarrow> string list" where
  "inspectImage n = [''inspect'', ''--format'', ''{{.Image}}'', n]"

definition inspectStatus :: "string \<Rightarrow> string list" where
  "inspectStatus n = [''inspect'', ''--format'', ''{{.State.Status}}'', n]"

definition runArgs :: "dockerCLI \<Rightarrow> string \<Rightarrow> string \<Rightarrow> string list" where
  "runArgs d n ref = [''run'', ''-d'', ''--name'', n] @ d_RunArgs d @ [ref]"

definition rmArgs :: "string \<Rightarrow> string list" where
  "rmArgs n = [''rm'', ''-f'', n]"

definition renameArgs :: "string \<Rightarrow> string \<Rightarrow> string list" where
  "renameArgs a b = [''rename'', a, b]"

definition execArgs :: "string \<Rightarrow> string \<Rightarrow> string list" where
  "execArgs n command = [''exec'', n, ''sh'', ''-c'', command]"

lemmas command_defs = pullArgs_def inspectImage_def inspectStatus_def runArgs_def rmArgs_def
  renameArgs_def execArgs_def

definition Pull :: "'s runner \<Rightarrow> dockerCLI \<Rightarrow> string \<Rightarrow> 's \<Rightarrow> go_error option \<times> 's" where
  "Pull rn d ref s = runCmd rn None (d_bin d) (pullArgs d ref) s"

definition CurrentDigest :: "'s runner \<Rightarrow> dockerCLI \<Rightarrow> 's \<Rightarrow> (go_error + string) \<times> 's" where
  "CurrentDigest rn d s =
     (case capture rn None (d_bin d) (inspectImage (d_ContainerName d)) s of
        (Inl err, s') \<Rightarrow>
          (if containsStr (error_text err) ''No such'' \<or> containsStr (error_text err) ''no such''
           then (Inr '''', s') else (Inl err, s'))
      | (Inr out, s') \<Rightarrow> (Inr (trimSpace out), s'))"

text \<open>
  \<^verbatim>\<open>Swap\<close> returns the previous digest and an error; only a failure of \<^verbatim>\<open>run\<close> gives the empty
  digest.
\<close>

definition Swap ::
  "'s runner \<Rightarrow> dockerCLI \<Rightarrow> string \<Rightarrow> 's \<Rightarrow> (string \<times> go_error option) \<times> 's" where
  "Swap rn d ref s0 =
     (case CurrentDigest rn d s0 of (cur, s1) \<Rightarrow>
       (let prevDigest = outputOr cur in
        (case runCmd rn None (d_bin d) (runArgs d (tmpName d) ref) s1 of
           (Some err, s2) \<Rightarrow> (('''', Some (errorf (d_bin d @ '' run new'') err)), s2)
         | (None, s2) \<Rightarrow>
            (case capture rn None (d_bin d) (inspectStatus (tmpName d)) s2 of (st, s3) \<Rightarrow>
              (let state = outputOr st in
               if trimSpace state \<noteq> ''running'' then
                 (case runCmd rn None (d_bin d) (rmArgs (tmpName d)) s3 of (_, s4) \<Rightarrow>
                   ((prevDigest, Some (GoError (''new container not running (state='' @ state @ '')''))), s4))
               else
                 (case runCmd rn None (d_bin d) (rmArgs (d_ContainerName d)) s3 of (_, s4) \<Rightarrow>
                   (case runCmd rn None (d_bin d) (renameArgs (tmpName d) (d_ContainerName d)) s4 of
                      (Some err, s5) \<Rightarrow>
                        (case runCmd rn None (d_bin d) (rmArgs (tmpName d)) s5 of (_, s6) \<Rightarrow>
                          ((prevDigest, Some (errorf (d_bin d @ '' rename'') err)), s6))
                    | (None, s5) \<Rightarrow> ((prevDigest, None), s5))))))))"

definition Rollback :: "'s runner \<Rightarrow> dockerCLI \<Rightarrow> string \<Rightarrow> 's \<Rightarrow> go_error option \<times> 's" where
  "Rollback rn d prevDigest s0 =
     (if prevDigest = '''' then (Some (GoError ''no previous digest to roll back to''), s0)
      else (case runCmd rn None (d_bin d) (rmArgs (d_ContainerName d)) s0 of (_, s1) \<Rightarrow>
        runCmd rn None (d_bin d) (runArgs d (d_ContainerName d) prevDigest) s1))"

definition Exec ::
  "'s runner \<Rightarrow> duration option \<Rightarrow> dockerCLI \<Rightarrow> string \<Rightarrow> 's \<Rightarrow> go_error option \<times> 's" where
  "Exec rn ctx d command s =
     (if command = '''' then (None, s)
      else runCmd rn ctx (d_bin d) (execArgs (d_ContainerName d) command) s)"

end
