(* ===== verification/Engine.thy ===== *)
theory Engine
  imports Docker
begin

text \<open>
  What the agent relies on of the container engine, and what \<^verbatim>\<open>Swap\<close> and \<^verbatim>\<open>Rollback\<close>
  (\<^verbatim>\<open>agent/internal/ota/docker.go\<close>) then do to the containers of a robot.  The engine's
  documented behaviour is the predicate \<open>docker_laws\<close> on the runner; \<open>demoEngine\<close> is an engine
  that has it.
\<close>

section \<open>The engine's contract\<close>

text \<open>
  \<open>containers s\<close> maps the names in use to the identifier of the image each container was
  created from; \<open>resolve\<close> turns a reference (a tag, a digest or an identifier) into an identifier.
  A failed \<^verbatim>\<open>run\<close> may leave a created container behind: that is what the engines do when the
  container cannot be started.
\<close>

type_synonym 's containers = "'s \<Rightarrow> string \<Rightarrow> string option"

fun succeeded :: "proc \<Rightarrow> bool" where
  "succeeded (Exited None _ _) = True"
| "succeeded _ = False"

fun stdoutOf :: "proc \<Rightarrow> string" where
  "stdoutOf (Exited _ out _) = out"
| "stdoutOf (NotStarted _) = ''''"

definition run_law :: "(string \<Rightarrow> string) \<Rightarrow> 's containers \<Rightarrow> 's runner \<Rightarrow> dockerCLI \<Rightarrow> bool" where
  "run_law resolve view rn d \<longleftrightarrow>
     (\<forall>ctx n ref s. let (p, s') = rn ctx (d_bin d) (runArgs d n ref) s in
        (succeeded p \<longrightarrow> view s n = None \<and> view s' = (view s)(n \<mapsto> resolve ref)) \<and>
        (\<not> succeeded p \<longrightarrow>
           view s' = view s \<or> view s n = None \<and> view s' = (view s)(n \<mapsto> resolve ref)))"

definition rm_law :: "'s containers \<Rightarrow> 's runner \<Rightarrow> dockerCLI \<Rightarrow> bool" where
  "rm_law view rn d \<longleftrightarrow>
     (\<forall>ctx n s. let (p, s') = rn ctx (d_bin d) (rmArgs n) s in
        view s' = (if succeeded p then (view s)(n := None) else view s))"

definition rename_law :: "'s containers \<Rightarrow> 's runner \<Rightarrow> dockerCLI \<Rightarrow> bool" where
  "rename_law view rn d \<longleftrightarrow>
     (\<forall>ctx a b s. let (p, s') = rn ctx (d_bin d) (renameArgs a b) s in
        (succeeded p \<longrightarrow> view s a \<noteq> None \<and> view s b = None \<and>
           view s' = (view s)(a := None, b := view s a)) \<and>
        (\<not> succeeded p \<longrightarrow> view s' = view s))"

definition inspect_law :: "'s containers \<Rightarrow> 's runner \<Rightarrow> dockerCLI \<Rightarrow> bool" where
  "inspect_law view rn d \<longleftrightarrow>
     (\<forall>ctx n s.
        (let (p, s') = rn ctx (d_bin d) (inspectImage n) s in
           view s' = view s \<and> (succeeded p \<longrightarrow> view s n = Some (trimSpace (stdoutOf p)))) \<and>
        (let (p, s') = rn ctx (d_bin d) (inspectStatus n) s in
           view s' = view s \<and> (succeeded p \<longrightarrow> view s n \<noteq> None)))"

definition frame_law :: "'s containers \<Rightarrow> 's runner \<Rightarrow> dockerCLI \<Rightarrow> bool" where
  "frame_law view rn d \<longleftrightarrow>
     (\<forall>ctx ref s. view (snd (rn ctx (d_bin d) (pullArgs d ref) s)) = view s) \<and>
     (\<forall>ctx n c s. view (snd (rn ctx (d_bin d) (execArgs n c) s)) = view s)"

definition docker_laws ::
  "(string \<Rightarrow> string) \<Rightarrow> 's containers \<Rightarrow> 's runner \<Rightarrow> dockerCLI \<Rightarrow> bool" where
  "docker_laws resolve view rn d \<longleftrightarrow>
     (\<forall>s n i. view s n = Some i \<longrightarrow> resolve i = i) \<and> run_law resolve view rn d \<and> rm_law view rn d \<and>
     rename_law view rn d \<and> inspect_law view rn d \<and> frame_law view rn d"

text \<open>The laws read through \<^verbatim>\<open>run\<close> and \<^verbatim>\<open>capture\<close>, the two ways the wrapper uses the engine.\<close>

lemma runCmd_rn:
  "runCmd rn ctx b args s =
     (let (p, s') = rn ctx b args s in
      ((if succeeded p then None else fst (runCmd rn ctx b args s)), s'))"
  by (auto simp: runCmd_def split: prod.splits proc.splits option.splits)

lemma runCmd_fst: "fst (runCmd rn ctx b args s) = None \<longleftrightarrow> succeeded (fst (rn ctx b args s))"
  by (auto simp: runCmd_def split: prod.splits proc.splits option.splits)

lemma runCmd_snd: "snd (runCmd rn ctx b args s) = snd (rn ctx b args s)"
  by (auto simp: runCmd_def split: prod.splits proc.splits option.splits)

lemma capture_fst: "fst (capture rn ctx b args s) = Inr out \<longleftrightarrow>
    succeeded (fst (rn ctx b args s)) \<and> out = stdoutOf (fst (rn ctx b args s))"
  by (auto simp: capture_def split: prod.splits proc.splits option.splits)

lemma capture_snd: "snd (capture rn ctx b args s) = snd (rn ctx b args s)"
  by (auto simp: capture_def split: prod.splits proc.splits option.splits)

lemma run_ok:
  "docker_laws resolve view rn d \<Longrightarrow> runCmd rn ctx (d_bin d) (runArgs d n ref) s = (None, s') \<Longrightarrow>
     view s n = None \<and> view s' = (view s)(n \<mapsto> resolve ref)"
  using runCmd_fst [of rn ctx "d_bin d" "runArgs d n ref" s]
    runCmd_snd [of rn ctx "d_bin d" "runArgs d n ref" s]
  by (auto simp: docker_laws_def run_law_def Let_def case_prod_beta)

lemma run_error:
  "docker_laws resolve view rn d \<Longrightarrow> runCmd rn ctx (d_bin d) (runArgs d n ref) s = (Some e, s') \<Longrightarrow>
     view s' = view s \<or> view s n = None \<and> view s' = (view s)(n \<mapsto> resolve ref)"
  using runCmd_fst [of rn ctx "d_bin d" "runArgs d n ref" s]
    runCmd_snd [of rn ctx "d_bin d" "runArgs d n ref" s]
  by (auto simp: docker_laws_def run_law_def Let_def case_prod_beta)

lemma rm_view:
  "docker_laws resolve view rn d \<Longrightarrow> runCmd rn ctx (d_bin d) (rmArgs n) s = (r, s') \<Longrightarrow>
     view s' = (if r = None then (view s)(n := None) else view s)"
  using runCmd_fst [of rn ctx "d_bin d" "rmArgs n" s] runCmd_snd [of rn ctx "d_bin d" "rmArgs n" s]
  by (auto simp: docker_laws_def rm_law_def Let_def case_prod_beta)

lemma rename_view:
  "docker_laws resolve view rn d \<Longrightarrow> runCmd rn ctx (d_bin d) (renameArgs a b) s = (r, s') \<Longrightarrow>
     (if r = None then view s a \<noteq> None \<and> view s b = None \<and>
        view s' = (view s)(a := None, b := view s a) else view s' = view s)"
  using runCmd_fst [of rn ctx "d_bin d" "renameArgs a b" s]
    runCmd_snd [of rn ctx "d_bin d" "renameArgs a b" s]
  by (auto simp: docker_laws_def rename_law_def Let_def case_prod_beta)

lemma status_view:
  "docker_laws resolve view rn d \<Longrightarrow> capture rn ctx (d_bin d) (inspectStatus n) s = (r, s') \<Longrightarrow>
     view s' = view s"
  using capture_snd [of rn ctx "d_bin d" "inspectStatus n" s]
  by (auto simp: docker_laws_def inspect_law_def Let_def case_prod_beta)

lemma inspect_view:
  assumes "docker_laws resolve view rn d"
    and "capture rn ctx (d_bin d) (inspectImage n) s = (r, s')"
  shows "view s' = view s \<and> (\<forall>out. r = Inr out \<longrightarrow> view s n = Some (trimSpace out))"
proof -
  have "view (snd (rn ctx (d_bin d) (inspectImage n) s)) = view s"
    and "succeeded (fst (rn ctx (d_bin d) (inspectImage n) s)) \<longrightarrow>
      view s n = Some (trimSpace (stdoutOf (fst (rn ctx (d_bin d) (inspectImage n) s))))"
    using assms(1) by (simp_all add: docker_laws_def inspect_law_def case_prod_beta)
  then show ?thesis
    using assms(2) capture_fst [of rn ctx "d_bin d" "inspectImage n" s]
      capture_snd [of rn ctx "d_bin d" "inspectImage n" s] by simp
qed

lemma CurrentDigest_view:
  assumes "docker_laws resolve view rn d" and "CurrentDigest rn d s = (r, s')"
  shows "view s' = view s \<and> (outputOr r \<noteq> '''' \<longrightarrow> view s (d_ContainerName d) = Some (outputOr r))"
proof -
  obtain q t where q: "capture rn None (d_bin d) (inspectImage (d_ContainerName d)) s = (q, t)"
    by fastforce
  show ?thesis
    using inspect_view [OF assms(1) q] assms(2) q
    by (auto simp: CurrentDigest_def outputOr_def split: sum.splits if_splits)
qed

lemma image_id: "docker_laws resolve view rn d \<Longrightarrow> view s n = Some i \<Longrightarrow> resolve i = i"
  by (auto simp: docker_laws_def)

lemma Pull_view: "docker_laws resolve view rn d \<Longrightarrow> view (snd (Pull rn d ref s)) = view s"
  by (simp add: docker_laws_def frame_law_def Pull_def runCmd_snd)

lemma Exec_view: "docker_laws resolve view rn d \<Longrightarrow> view (snd (Exec rn ctx d c s)) = view s"
  by (simp add: docker_laws_def frame_law_def Exec_def runCmd_snd)

lemma tmpName_neq [simp]: "tmpName d \<noteq> d_ContainerName d" "d_ContainerName d \<noteq> tmpName d"
  by (auto simp: tmpName_def)

text \<open>The digest that is found is the image of the canonical container, exactly when the engine answers.\<close>

lemma CurrentDigest_answer:
  assumes "docker_laws resolve view rn d" and "CurrentDigest rn d s = (cur, s1)"
  shows "if succeeded (fst (rn None (d_bin d) (inspectImage (d_ContainerName d)) s))
    then view s (d_ContainerName d) = Some (outputOr cur) else outputOr cur = ''''"
proof -
  let ?run = "rn None (d_bin d) (inspectImage (d_ContainerName d)) s"
  obtain q t where q: "capture rn None (d_bin d) (inspectImage (d_ContainerName d)) s = (q, t)"
    by fastforce
  have "succeeded (fst ?run) \<longleftrightarrow> (\<exists>out. q = Inr out)"
    using capture_fst [of rn None "d_bin d" "inspectImage (d_ContainerName d)" s] q by auto
  then show ?thesis using inspect_view [OF assms(1) q] assms(2) q
    by (auto simp: CurrentDigest_def outputOr_def split: sum.splits if_splits)
qed

section \<open>Swapping and rolling back\<close>

text \<open>
  A swap seen from the containers: it either installs the new image under the canonical name, or
  fails with the canonical container untouched, or fails at the rename after the old container was
  removed.
\<close>

lemma Swap_installs:
  assumes laws: "docker_laws resolve view rn d" and swap: "Swap rn d ref s = ((prev, None), s')"
  shows "view s (tmpName d) = None \<and> view s' = (view s)(d_ContainerName d \<mapsto> resolve ref) \<and>
    (if succeeded (fst (rn None (d_bin d) (inspectImage (d_ContainerName d)) s))
     then view s (d_ContainerName d) = Some prev else prev = '''')"
proof -
  let ?n = "d_ContainerName d" and ?t = "tmpName d"
  obtain cur s1 where 1: "CurrentDigest rn d s = (cur, s1)" by fastforce
  obtain r2 s2 where 2: "runCmd rn None (d_bin d) (runArgs d ?t ref) s1 = (r2, s2)" by fastforce
  obtain st s3 where 3: "capture rn None (d_bin d) (inspectStatus ?t) s2 = (st, s3)" by fastforce
  obtain r4 s4 where 4: "runCmd rn None (d_bin d) (rmArgs ?n) s3 = (r4, s4)" by fastforce
  obtain r5 s5 where 5: "runCmd rn None (d_bin d) (renameArgs ?t ?n) s4 = (r5, s5)" by fastforce
  have r: "r2 = None" "r5 = None" "s' = s5" "prev = outputOr cur"
    using swap 1 2 3 4 5 by (auto simp: Swap_def Let_def split: option.splits if_splits prod.splits)
  note views = CurrentDigest_view [OF laws 1] CurrentDigest_answer [OF laws 1] run_ok [OF laws 2 [unfolded r]]
    status_view [OF laws 3] rm_view [OF laws 4] rename_view [OF laws 5]
  then show ?thesis using r by (auto simp: fun_eq_iff)
qed

lemma Swap_success:
  assumes "docker_laws resolve view rn d" and "Swap rn d ref s = ((prev, None), s')"
  shows "view s (tmpName d) = None \<and> view s' = (view s)(d_ContainerName d \<mapsto> resolve ref) \<and>
    (prev \<noteq> '''' \<longrightarrow> view s (d_ContainerName d) = Some prev)"
  using Swap_installs [OF assms] by (simp split: if_splits)

lemma Swap_failure:
  assumes laws: "docker_laws resolve view rn d" and swap: "Swap rn d ref s = ((prev, Some err), s')"
  shows "(\<forall>n. n \<noteq> d_ContainerName d \<longrightarrow> n \<noteq> tmpName d \<longrightarrow> view s' n = view s n) \<and>
    (view s' (d_ContainerName d) = view s (d_ContainerName d) \<or>
     view s' (d_ContainerName d) = None \<and> (\<exists>e. err = errorf (d_bin d @ '' rename'') e))"
proof -
  let ?n = "d_ContainerName d" and ?t = "tmpName d"
  obtain cur s1 where 1: "CurrentDigest rn d s = (cur, s1)" by fastforce
  obtain r2 s2 where 2: "runCmd rn None (d_bin d) (runArgs d ?t ref) s1 = (r2, s2)" by fastforce
  obtain st s3 where 3: "capture rn None (d_bin d) (inspectStatus ?t) s2 = (st, s3)" by fastforce
  obtain r4 s4 where 4: "runCmd rn None (d_bin d) (rmArgs ?n) s3 = (r4, s4)" by fastforce
  obtain r4' s4' where 7: "runCmd rn None (d_bin d) (rmArgs ?t) s3 = (r4', s4')" by fastforce
  obtain r5 s5 where 5: "runCmd rn None (d_bin d) (renameArgs ?t ?n) s4 = (r5, s5)" by fastforce
  obtain r6 s6 where 6: "runCmd rn None (d_bin d) (rmArgs ?t) s5 = (r6, s6)" by fastforce
  note v1 = CurrentDigest_view [OF laws 1] and v3 = status_view [OF laws 3]
    and v4 = rm_view [OF laws 4] and v4' = rm_view [OF laws 7] and v5 = rename_view [OF laws 5]
    and v6 = rm_view [OF laws 6]
  show ?thesis
  proof (cases r2)
    case (Some e)
    then have "s' = s2" using swap 1 2 by (auto simp: Swap_def Let_def)
    then show ?thesis using run_error [OF laws 2 [unfolded Some]] v1 by auto
  next
    case None
    note v2 = run_ok [OF laws 2 [unfolded None]]
    show ?thesis
    proof (cases "trimSpace (outputOr st) = ''running''")
      case False
      then have "s' = s4'" using swap 1 2 3 7 None by (auto simp: Swap_def Let_def)
      then show ?thesis using v1 v2 v3 v4' by (auto split: if_splits)
    next
      case True
      then obtain e where "r5 = Some e" "s' = s6" "err = errorf (d_bin d @ '' rename'') e"
        using swap 1 2 3 4 5 6 None by (auto simp: Swap_def Let_def split: option.splits)
      then show ?thesis using v1 v2 v3 v4 v5 v6 by (auto split: if_splits)
    qed
  qed
qed

lemma Swap_wedged:
  assumes laws: "docker_laws resolve view rn d" and tmp: "view s (tmpName d) \<noteq> None"
  shows "\<exists>e s'. Swap rn d ref s = (('''', Some (errorf (d_bin d @ '' run new'') e)), s') \<and> view s' = view s"
proof -
  let ?t = "tmpName d"
  obtain cur s1 where 1: "CurrentDigest rn d s = (cur, s1)" by fastforce
  obtain r2 s2 where 2: "runCmd rn None (d_bin d) (runArgs d ?t ref) s1 = (r2, s2)" by fastforce
  note v1 = CurrentDigest_view [OF laws 1]
  have "r2 \<noteq> None" using run_ok [OF laws, of None ?t ref s1 s2] 2 v1 tmp by auto
  then obtain e where e: "r2 = Some e" by blast
  then have "view s2 = view s" using run_error [OF laws 2 [unfolded e]] v1 tmp by auto
  then show ?thesis using 1 2 e by (auto simp: Swap_def Let_def)
qed

lemma Rollback_view:
  assumes laws: "docker_laws resolve view rn d" and roll: "Rollback rn d prev s = (r, s')"
  shows "(r = None \<longrightarrow> prev \<noteq> '''' \<and> view s' = (view s)(d_ContainerName d \<mapsto> resolve prev)) \<and>
    (\<forall>n. n \<noteq> d_ContainerName d \<longrightarrow> view s' n = view s n)"
proof (cases "prev = ''''")
  case True
  then show ?thesis using roll by (auto simp: Rollback_def)
next
  case False
  let ?n = "d_ContainerName d"
  obtain r1 s1 where 1: "runCmd rn None (d_bin d) (rmArgs ?n) s = (r1, s1)" by fastforce
  have 2: "runCmd rn None (d_bin d) (runArgs d ?n prev) s1 = (r, s')"
    using roll 1 False by (simp add: Rollback_def)
  show ?thesis
  proof (cases r)
    case None
    then show ?thesis using False rm_view [OF laws 1] run_ok [OF laws 2 [unfolded None]]
      by (auto simp: fun_eq_iff split: if_splits)
  next
    case (Some e)
    then show ?thesis using False rm_view [OF laws 1] run_error [OF laws 2 [unfolded Some]]
      by (auto split: if_splits)
  qed
qed

text \<open>
  C11: what a swap does.  When it succeeds, the new image runs under the canonical name, no other
  container has changed, and the result is the old image if the engine answered for the canonical
  container, and empty otherwise.  When it fails, at most the temporary container has changed, except
  at the rename, where the canonical container may be gone too.
\<close>

theorem swap_contract:
  assumes "docker_laws resolve view rn d"
  shows "case Swap rn d ref s of
      ((prev, None), s') \<Rightarrow>
        view s' = (view s)(d_ContainerName d \<mapsto> resolve ref) \<and> view s' (tmpName d) = None \<and>
        (if succeeded (fst (rn None (d_bin d) (inspectImage (d_ContainerName d)) s))
         then view s (d_ContainerName d) = Some prev else prev = '''')
    | ((prev, Some err), s') \<Rightarrow>
        (\<forall>n. n \<noteq> d_ContainerName d \<longrightarrow> n \<noteq> tmpName d \<longrightarrow> view s' n = view s n) \<and>
        (view s' (d_ContainerName d) = view s (d_ContainerName d) \<or>
         view s' (d_ContainerName d) = None \<and> (\<exists>e. err = errorf (d_bin d @ '' rename'') e))"
proof (cases "Swap rn d ref s")
  case (Pair r s')
  show ?thesis
  proof (cases "snd r")
    case None
    with Pair have "Swap rn d ref s = ((fst r, None), s')" by (cases r) simp
    from Swap_installs [OF assms this] show ?thesis using Pair None by (cases r) (auto split: if_splits)
  next
    case (Some err)
    with Pair have "Swap rn d ref s = ((fst r, Some err), s')" by (cases r) simp
    from Swap_failure [OF assms this] show ?thesis using Pair Some by (cases r) auto
  qed
qed

section \<open>An engine that keeps the contract\<close>

text \<open>
  Its state maps names to image references; some references cannot be pulled, some give containers
  that are created and do not start, some containers start and stop at once, and the commands
  \<^verbatim>\<open>false\<close> fail.
\<close>

definition demoImage :: "string \<Rightarrow> string" where
  "demoImage r = filter (\<lambda>c. \<not> isSpace c) r"

definition demoView :: "(string \<Rightarrow> string option) containers" where
  "demoView s n = map_option demoImage (s n)"

definition demoEngine ::
  "string list \<Rightarrow> string list \<Rightarrow> string list \<Rightarrow> (string \<Rightarrow> string option) runner" where
  "demoEngine unpullable unstartable crashing ctx bin args s =
     (let good = Exited None '''' ''''; bad = Exited (Some ''exit status 1'') '''' '''' in
      if hd args = ''pull'' then (if last args \<in> set unpullable then bad else good, s)
      else if hd args = ''run'' then
        (if s (args ! 3) \<noteq> None then (bad, s)
         else (if last args \<in> set unstartable then bad else good, s(args ! 3 \<mapsto> last args)))
      else if hd args = ''rm'' then (good, s(args ! 2 := None))
      else if hd args = ''rename'' then
        (if s (args ! 1) \<noteq> None \<and> s (args ! 2) = None
         then (good, s(args ! 1 := None, args ! 2 := s (args ! 1))) else (bad, s))
      else if hd args = ''inspect'' then
        (case s (args ! 3) of
           None \<Rightarrow> (bad, s)
         | Some i \<Rightarrow>
            (Exited None
               (if args ! 2 = ''{{.Image}}'' then demoImage i
                else if i \<in> set crashing then ''exited'' else ''running'') '''', s))
      else (if last args = ''false'' then bad else good, s))"

definition demoCLI :: dockerCLI where
  "demoCLI = NewDockerCLI '''' (\<lambda>b. b = ''docker'') [''--network=host'']"

lemma demoImage_idem [simp]: "demoImage (demoImage r) = demoImage r"
  by (simp add: demoImage_def)

lemma trimSpace_demoImage [simp]: "trimSpace (demoImage r) = demoImage r"
  by (rule trimSpace_noop) (simp add: demoImage_def)

lemma demoView_upd:
  "demoView (s(n \<mapsto> r)) = (demoView s)(n \<mapsto> demoImage r)" "demoView (s(n := None)) = (demoView s)(n := None)"
  "demoView (s(a := None, b := s a)) = (demoView s)(a := None, b := demoView s a)"
  by (auto simp: demoView_def)

lemma demoView_None: "demoView s n = None \<longleftrightarrow> s n = None"
  by (simp add: demoView_def)

lemma runArgs_parts:
  "hd (runArgs d n ref) = ''run''" "runArgs d n ref ! 3 = n" "last (runArgs d n ref) = ref"
  by (simp_all add: runArgs_def numeral_3_eq_3)

lemma demoEngine_laws: "docker_laws demoImage demoView (demoEngine up us cr) d"
proof -
  have "run_law demoImage demoView (demoEngine up us cr) d"
    by (auto simp: run_law_def demoEngine_def runArgs_parts Let_def demoView_upd demoView_None
        split: if_splits)
  moreover have "rm_law demoView (demoEngine up us cr) d"
    by (auto simp: rm_law_def demoEngine_def rmArgs_def demoView_upd)
  moreover have "rename_law demoView (demoEngine up us cr) d"
    by (auto simp: rename_law_def demoEngine_def renameArgs_def Let_def demoView_upd demoView_None
        split: if_splits)
  moreover have "inspect_law demoView (demoEngine up us cr) d"
    by (auto simp: inspect_law_def demoEngine_def inspectImage_def inspectStatus_def demoView_def
        split: option.splits)
  moreover have "frame_law demoView (demoEngine up us cr) d"
    by (auto simp: frame_law_def demoEngine_def pullArgs_def execArgs_def)
  ultimately show ?thesis by (auto simp: docker_laws_def demoView_def)
qed

text \<open>A swap on the demonstration engine replaces the old container and returns its image.\<close>

theorem swap_contract_witness:
  "docker_laws demoImage demoView (demoEngine [] [] []) demoCLI \<and>
   (case Swap (demoEngine [] [] []) demoCLI ''app:2'' [''robot-app'' \<mapsto> ''app:1''] of
      ((prev, None), s') \<Rightarrow> prev = ''app:1'' \<and> demoView s' ''robot-app'' = Some ''app:2''
    | ((prev, Some err), s') \<Rightarrow> False)"
proof -
  have 1: "fst (Swap (demoEngine [] [] []) demoCLI ''app:2'' [''robot-app'' \<mapsto> ''app:1'']) = (''app:1'', None)"
    by code_simp
  have 2: "demoImage ''app:2'' = ''app:2''" "d_ContainerName demoCLI = ''robot-app''" by code_simp+
  show ?thesis
    using swap_contract [OF demoEngine_laws [of "[]" "[]" "[]" demoCLI],
        where ref = "''app:2''" and s = "[''robot-app'' \<mapsto> ''app:1'']"]
      1 2 demoEngine_laws
    by (auto split: prod.splits option.splits)
qed

end
