(* ===== verification/Json.thy ===== *)
theory Json
  imports Complex_Main Prelude
begin

text \<open>
  What the sources use of package \<^verbatim>\<open>encoding/json\<close>: values, and the decoding of an object into
  the fields of a struct.  A message body is the value its text denotes, or \<open>None\<close> when the text is
  not JSON.  Decoding follows the package's documentation: keys match a field's tag up to the case
  of letters, a later key overwrites an earlier one, unknown keys are ignored, \<^verbatim>\<open>null\<close> leaves the
  field alone, and a value of the wrong kind leaves the field alone and is reported at the end.
\<close>

datatype json =
    JNull
  | JBool bool
  | JNum rat
  | JStr string
  | JArr "json list"
  | JObj "(string \<times> json) list"

type_synonym body = "json option"

definition toLower :: "char \<Rightarrow> char" where
  "toLower c =
     (let n = (of_char c :: nat) in if 65 \<le> n \<and> n \<le> 90 then (char_of :: nat \<Rightarrow> char) (n + 32) else c)"

fun asStr :: "json \<Rightarrow> string option" where
  "asStr (JStr s) = Some s"
| "asStr _ = None"

fun asBool :: "json \<Rightarrow> bool option" where
  "asBool (JBool b) = Some b"
| "asBool _ = None"

text \<open>A number goes into an \<^verbatim>\<open>int\<close> field when it is an integer of 64 bits.\<close>

fun asInt :: "json \<Rightarrow> int option" where
  "asInt (JNum r) = (if of_int \<lfloor>r\<rfloor> = r \<and> in_i64 \<lfloor>r\<rfloor> then Some \<lfloor>r\<rfloor> else None)"
| "asInt _ = None"

fun asNum :: "json \<Rightarrow> rat option" where
  "asNum (JNum r) = Some r"
| "asNum _ = None"

text \<open>One field: whether a value of the wrong kind was met, and the field's final value.\<close>

fun decodeFrom ::
  "(json \<Rightarrow> 'a option) \<Rightarrow> string \<Rightarrow> bool \<times> 'a \<Rightarrow> (string \<times> json) list \<Rightarrow> bool \<times> 'a" where
  "decodeFrom conv key acc [] = acc"
| "decodeFrom conv key (bad, v) ((k, j) # kvs) =
     decodeFrom conv key
       (if map toLower k \<noteq> key \<or> j = JNull then (bad, v)
        else case conv j of Some x \<Rightarrow> (bad, x) | None \<Rightarrow> (True, v)) kvs"

definition decodeField :: "(json \<Rightarrow> 'a option) \<Rightarrow> 'a \<Rightarrow> string \<Rightarrow> (string \<times> json) list \<Rightarrow> bool \<times> 'a" where
  "decodeField conv zero key kvs = decodeFrom conv key (False, zero) kvs"

definition syntax_error :: go_error where
  "syntax_error = GoError ''invalid JSON''"

definition type_error :: go_error where
  "type_error = GoError ''json: cannot unmarshal value''"

text \<open>
  The members an object body offers to a struct: a \<^verbatim>\<open>null\<close> body offers none and is no error,
  any other value is an error.
\<close>

fun members :: "body \<Rightarrow> go_error + (string \<times> json) list" where
  "members None = Inl syntax_error"
| "members (Some JNull) = Inr []"
| "members (Some (JObj kvs)) = Inr kvs"
| "members (Some _) = Inl type_error"

text \<open>An \<^verbatim>\<open>omitempty\<close> string member.\<close>

definition omitEmpty :: "string \<Rightarrow> string \<Rightarrow> (string \<times> json) list" where
  "omitEmpty key v = (if v = '''' then [] else [(key, JStr v)])"

lemma decodeField_Nil [simp, wire_simps]: "decodeField conv zero key [] = (False, zero)"
  by (simp add: decodeField_def)

lemma decodeFrom_hit:
  "map toLower k = key \<Longrightarrow> conv j = Some x \<Longrightarrow> j \<noteq> JNull \<Longrightarrow>
     decodeFrom conv key acc ((k, j) # kvs) = decodeFrom conv key (fst acc, x) kvs"
  by (cases acc) simp

lemma decodeFrom_miss:
  "map toLower k \<noteq> key \<Longrightarrow> decodeFrom conv key acc ((k, j) # kvs) = decodeFrom conv key acc kvs"
  by (cases acc) simp

lemma decodeFrom_str:
  "decodeFrom asStr key acc ((k, JStr x) # kvs) =
     decodeFrom asStr key (if map toLower k = key then (fst acc, x) else acc) kvs"
  by (cases acc) simp

lemma decodeFrom_Cons:
  "decodeFrom conv key acc ((k, j) # kvs) =
     decodeFrom conv key
       (if map toLower k = key then
          (if j = JNull then acc
           else case conv j of Some x \<Rightarrow> (fst acc, x) | None \<Rightarrow> (True, snd acc))
        else acc) kvs"
  by (cases acc; cases "conv j") simp_all

lemma decodeFrom_append:
  "decodeFrom conv key acc (xs @ ys) = decodeFrom conv key (decodeFrom conv key acc xs) ys"
  by (induction conv key acc xs rule: decodeFrom.induct) simp_all

lemma decodeFrom_omitEmpty:
  "decodeFrom asStr key acc (omitEmpty k v) =
     (if map toLower k = key \<and> v \<noteq> '''' then (fst acc, v) else acc)"
  by (cases acc) (simp add: omitEmpty_def)

text \<open>The tags the messages use are their own lower case.\<close>

lemma lower_tags [simp, wire_simps]:
  "map toLower ''rollout_id'' = ''rollout_id''" "map toLower ''robot_id'' = ''robot_id''"
  "map toLower ''action'' = ''action''" "map toLower ''reason'' = ''reason''"
  "map toLower ''image_ref'' = ''image_ref''" "map toLower ''image_digest'' = ''image_digest''"
  "map toLower ''smoke_timeout_sec'' = ''smoke_timeout_sec''"
  "map toLower ''smoke_command'' = ''smoke_command''" "map toLower ''force'' = ''force''"
  "map toLower ''phase'' = ''phase''" "map toLower ''detail'' = ''detail''"
  "map toLower ''at'' = ''at''"
  "map toLower ''previous_image_digest'' = ''previous_image_digest''"
  by code_simp+

end
