(* ===== verification/OtaWire.thy ===== *)
theory OtaWire
  imports Json
begin

text \<open>
  The OTA messages between cloud and robot: the command and ack of
  \<^verbatim>\<open>agent/internal/ota/types.go\<close> with their JSON coding, the ack fields the cloud's MQTT
  bridge reads, and the phase enumeration of \<^verbatim>\<open>cloud/internal/ota/pb/ota.pb.go\<close>, whose names
  both sides use as strings.
\<close>

section \<open>Phases\<close>

datatype otaPhase =
    PHASE_UNKNOWN | PHASE_RECEIVED | PHASE_PULLED | PHASE_SWAPPED | PHASE_HEALTHY
  | PHASE_FAILED | PHASE_ROLLED_BACK

fun Phase_number :: "otaPhase \<Rightarrow> nat" where
  "Phase_number PHASE_UNKNOWN = 0"
| "Phase_number PHASE_RECEIVED = 1"
| "Phase_number PHASE_PULLED = 2"
| "Phase_number PHASE_SWAPPED = 3"
| "Phase_number PHASE_HEALTHY = 4"
| "Phase_number PHASE_FAILED = 5"
| "Phase_number PHASE_ROLLED_BACK = 6"

fun Phase_name :: "otaPhase \<Rightarrow> string" where
  "Phase_name PHASE_UNKNOWN = ''PHASE_UNKNOWN''"
| "Phase_name PHASE_RECEIVED = ''PHASE_RECEIVED''"
| "Phase_name PHASE_PULLED = ''PHASE_PULLED''"
| "Phase_name PHASE_SWAPPED = ''PHASE_SWAPPED''"
| "Phase_name PHASE_HEALTHY = ''PHASE_HEALTHY''"
| "Phase_name PHASE_FAILED = ''PHASE_FAILED''"
| "Phase_name PHASE_ROLLED_BACK = ''PHASE_ROLLED_BACK''"

definition all_phases :: "otaPhase list" where
  "all_phases = [PHASE_UNKNOWN, PHASE_RECEIVED, PHASE_PULLED, PHASE_SWAPPED, PHASE_HEALTHY,
     PHASE_FAILED, PHASE_ROLLED_BACK]"

definition Phase_value :: "string \<Rightarrow> otaPhase option" where
  "Phase_value n = List.find (\<lambda>p. Phase_name p = n) all_phases"

instantiation otaPhase :: linorder
begin

definition less_eq_otaPhase :: "otaPhase \<Rightarrow> otaPhase \<Rightarrow> bool" where
  "less_eq_otaPhase p q \<longleftrightarrow> Phase_number p \<le> Phase_number q"

definition less_otaPhase :: "otaPhase \<Rightarrow> otaPhase \<Rightarrow> bool" where
  "less_otaPhase p q \<longleftrightarrow> Phase_number p < Phase_number q"

instance
proof
  fix x y z :: otaPhase
  show "x < y \<longleftrightarrow> x \<le> y \<and> \<not> y \<le> x" by (auto simp: less_eq_otaPhase_def less_otaPhase_def)
  show "x \<le> x" by (simp add: less_eq_otaPhase_def)
  show "x \<le> y \<Longrightarrow> y \<le> z \<Longrightarrow> x \<le> z" by (simp add: less_eq_otaPhase_def)
  show "x \<le> y \<Longrightarrow> y \<le> x \<Longrightarrow> x = y"
    by (cases x; cases y) (simp_all add: less_eq_otaPhase_def)
  show "x \<le> y \<or> y \<le> x" by (auto simp: less_eq_otaPhase_def)
qed

end

lemma Phase_value_name [simp, wire_simps]: "Phase_value (Phase_name p) = Some p"
  by (cases p) (simp_all add: Phase_value_def all_phases_def)

lemma Phase_name_value: "Phase_value n = Some p \<Longrightarrow> Phase_name p = n"
  by (auto simp: Phase_value_def find_Some_iff)

section \<open>Messages\<close>

definition CmdForward :: string where "CmdForward = ''''"
definition CmdRollback :: string where "CmdRollback = ''rollback''"

record command =
  cmd_RolloutID :: string
  cmd_RobotID :: string
  cmd_Action :: string
  cmd_Reason :: string
  cmd_ImageRef :: string
  cmd_ImageDigest :: string
  cmd_SmokeTimeoutSec :: int
  cmd_SmokeCommand :: string
  cmd_Force :: bool

text \<open>The time of an ack is the text \<^verbatim>\<open>time.Time\<close> marshals to.\<close>

record otaAck =
  ack_RolloutID :: string
  ack_RobotID :: string
  ack_Phase :: string
  ack_Detail :: string
  ack_At :: string
  ack_ImageDigest :: string
  ack_PreviousImageDigest :: string

definition unmarshalCommand :: "body \<Rightarrow> go_error + command" where
  "unmarshalCommand body =
     (case members body of Inl err \<Rightarrow> Inl err | Inr kvs \<Rightarrow>
       (let (b1, rollout) = decodeField asStr '''' ''rollout_id'' kvs;
            (b2, robot) = decodeField asStr '''' ''robot_id'' kvs;
            (b3, action) = decodeField asStr '''' ''action'' kvs;
            (b4, reason) = decodeField asStr '''' ''reason'' kvs;
            (b5, ref) = decodeField asStr '''' ''image_ref'' kvs;
            (b6, digest) = decodeField asStr '''' ''image_digest'' kvs;
            (b7, sec) = decodeField asInt 0 ''smoke_timeout_sec'' kvs;
            (b8, smoke) = decodeField asStr '''' ''smoke_command'' kvs;
            (b9, force) = decodeField asBool False ''force'' kvs
        in if b1 \<or> b2 \<or> b3 \<or> b4 \<or> b5 \<or> b6 \<or> b7 \<or> b8 \<or> b9 then Inl type_error
           else Inr \<lparr>cmd_RolloutID = rollout, cmd_RobotID = robot, cmd_Action = action,
             cmd_Reason = reason, cmd_ImageRef = ref, cmd_ImageDigest = digest,
             cmd_SmokeTimeoutSec = sec, cmd_SmokeCommand = smoke, cmd_Force = force\<rparr>))"

definition marshalAck :: "otaAck \<Rightarrow> json" where
  "marshalAck a =
     JObj ([(''rollout_id'', JStr (ack_RolloutID a)), (''robot_id'', JStr (ack_RobotID a)),
       (''phase'', JStr (ack_Phase a))] @ omitEmpty ''detail'' (ack_Detail a) @
       [(''at'', JStr (ack_At a))] @ omitEmpty ''image_digest'' (ack_ImageDigest a) @
       omitEmpty ''previous_image_digest'' (ack_PreviousImageDigest a))"

text \<open>The anonymous struct the cloud's bridge decodes an ack into.\<close>

record bridgeAck =
  ba_RolloutID :: string
  ba_Phase :: string
  ba_Detail :: string
  ba_ImageDigest :: string
  ba_PreviousImageDigest :: string

definition unmarshalBridgeAck :: "body \<Rightarrow> go_error + bridgeAck" where
  "unmarshalBridgeAck body =
     (case members body of Inl err \<Rightarrow> Inl err | Inr kvs \<Rightarrow>
       (let (b1, rollout) = decodeField asStr '''' ''rollout_id'' kvs;
            (b2, phase) = decodeField asStr '''' ''phase'' kvs;
            (b3, detail) = decodeField asStr '''' ''detail'' kvs;
            (b4, digest) = decodeField asStr '''' ''image_digest'' kvs;
            (b5, prev) = decodeField asStr '''' ''previous_image_digest'' kvs
        in if b1 \<or> b2 \<or> b3 \<or> b4 \<or> b5 then Inl type_error
           else Inr \<lparr>ba_RolloutID = rollout, ba_Phase = phase, ba_Detail = detail,
             ba_ImageDigest = digest, ba_PreviousImageDigest = prev\<rparr>))"

text \<open>What the robot puts in an ack is what the bridge takes out of it.\<close>

definition ackMembers :: "otaAck \<Rightarrow> (string \<times> json) list" where
  "ackMembers a =
     [(''rollout_id'', JStr (ack_RolloutID a)), (''robot_id'', JStr (ack_RobotID a)),
      (''phase'', JStr (ack_Phase a))] @ omitEmpty ''detail'' (ack_Detail a) @
     [(''at'', JStr (ack_At a))] @ omitEmpty ''image_digest'' (ack_ImageDigest a) @
     omitEmpty ''previous_image_digest'' (ack_PreviousImageDigest a)"

lemma marshalAck_members: "members (Some (marshalAck a)) = Inr (ackMembers a)"
  by (simp add: marshalAck_def ackMembers_def)

lemmas decode_steps = decodeFrom_append decodeFrom_omitEmpty decodeFrom_str decodeFrom.simps(1) lower_tags

lemma ack_fields:
  "decodeField asStr '''' ''rollout_id'' (ackMembers a) = (False, ack_RolloutID a)"
  "decodeField asStr '''' ''phase'' (ackMembers a) = (False, ack_Phase a)"
  "decodeField asStr '''' ''detail'' (ackMembers a) = (False, ack_Detail a)"
  "decodeField asStr '''' ''image_digest'' (ackMembers a) = (False, ack_ImageDigest a)"
  "decodeField asStr '''' ''previous_image_digest'' (ackMembers a) = (False, ack_PreviousImageDigest a)"
  unfolding decodeField_def ackMembers_def decode_steps fst_conv
  by simp_all

lemma ack_decode:
  "unmarshalBridgeAck (Some (marshalAck a)) =
     Inr \<lparr>ba_RolloutID = ack_RolloutID a, ba_Phase = ack_Phase a, ba_Detail = ack_Detail a,
       ba_ImageDigest = ack_ImageDigest a, ba_PreviousImageDigest = ack_PreviousImageDigest a\<rparr>"
  by (simp add: unmarshalBridgeAck_def marshalAck_members ack_fields del: members.simps)

end
