(* ===== verification/Interfaces.thy ===== *)
theory Interfaces
  imports Prelude
begin

text \<open>
  The contracts between components, one locale each: what a client calls as the parameters, what
  the provider promises as the assumptions, and the facts a client needs proved once from them.
  Every locale is interpreted on the model's own definitions in the theory of its provider:
  \<open>sample_store\<close> in \<open>Buffer\<close>, \<open>backoff_policy\<close> in \<open>Pump\<close> and \<open>BridgeClient\<close>, \<open>topic_codec\<close>
  in \<open>Topics\<close>, \<open>rollout_store\<close> in \<open>Store\<close>.
\<close>

section \<open>A store of keyed samples\<close>

text \<open>
  The publish loop reads some items, publishes them without holding the store, and removes the
  published ones by key, while the ingest loop keeps adding items and the store drops old ones.
  \<open>mark\<close> is the largest key ever given out.  An operation may fail, and then changes nothing;
  the first argument of \<open>add\<close> and \<open>remove\<close> stands for what decides that.
\<close>

locale sample_store =
  fixes inv :: "'b \<Rightarrow> bool"
    and items :: "'b \<Rightarrow> 's list"
    and key :: "'s \<Rightarrow> int"
    and mark :: "'b \<Rightarrow> int"
    and add :: "'e \<Rightarrow> 's \<Rightarrow> 'b \<Rightarrow> 'b"
    and remove :: "'f \<Rightarrow> int list \<Rightarrow> 'b \<Rightarrow> 'b"
  assumes items_sorted: "inv b \<Longrightarrow> sorted_wrt (<) (map key (items b))"
    and items_mark: "inv b \<Longrightarrow> x \<in> set (items b) \<Longrightarrow> key x \<le> mark b"
    and add_inv: "inv b \<Longrightarrow> inv (add e s b)"
    and remove_inv: "inv b \<Longrightarrow> inv (remove f ks b)"
    and add_cases: "inv b \<Longrightarrow> add e s b = b \<or>
      (\<exists>s' n. key s' = mark b + 1 \<and> items (add e s b) = drop n (items b @ [s']) \<and>
        mark (add e s b) = mark b + 1)"
    and remove_cases: "inv b \<Longrightarrow> remove f ks b = b \<or>
      (items (remove f ks b) = filter (\<lambda>x. key x \<notin> set ks) (items b) \<and>
        mark (remove f ks b) = mark b)"
begin

lemma mark_add: "inv b \<Longrightarrow> mark b \<le> mark (add e s b)"
  using add_cases [of b e s] by auto

lemma add_items: "inv b \<Longrightarrow> x \<in> set (items (add e s b)) \<Longrightarrow> x \<in> set (items b) \<or> mark b < key x"
  using add_cases [of b e s] set_drop_subset [of _ "items b @ [_]"] by fastforce

text \<open>Adding never reuses a key: what is gone stays gone.\<close>

lemma add_no_reuse:
  assumes "inv b" and "k \<le> mark b" and "k \<notin> key ` set (items b)"
  shows "k \<notin> key ` set (items (add e s b))"
  using add_items [OF assms(1)] assms(2,3) by fastforce

lemma adds_inv: "inv b \<Longrightarrow> inv (fold (\<lambda>(e, s). add e s) es b)"
  by (induction es arbitrary: b) (auto simp: add_inv split: prod.splits)

lemma adds_items:
  "inv b \<Longrightarrow> x \<in> set (items (fold (\<lambda>(e, s). add e s) es b)) \<Longrightarrow>
     x \<in> set (items b) \<or> mark b < key x"
proof (induction es arbitrary: b)
  case Nil
  then show ?case by simp
next
  case (Cons es' es)
  obtain e s where es': "es' = (e, s)" by fastforce
  from Cons.prems es' have "x \<in> set (items (add e s b)) \<or> mark (add e s b) < key x"
    using Cons.IH [of "add e s b"] by (simp add: add_inv)
  then show ?case
    using add_items [OF Cons.prems(1)] mark_add [OF Cons.prems(1), of e s] by fastforce
qed

text \<open>
  The keys read before any number of additions name, after them, only items that were read:
  removing them loses no item added in between.
\<close>

lemma remove_after_adds:
  assumes "inv b" and "set ks \<subseteq> key ` set (items b)"
    and "x \<in> set (items (fold (\<lambda>(e, s). add e s) es b))"
    and "x \<notin> set (items (remove f ks (fold (\<lambda>(e, s). add e s) es b)))"
  shows "key x \<in> set ks \<and> x \<in> set (items b)"
proof -
  let ?b = "fold (\<lambda>(e, s). add e s) es b"
  have "key x \<in> set ks"
    using remove_cases [OF adds_inv [OF assms(1)], of f ks es] assms(3,4) by auto
  moreover from this assms(2) obtain y where "y \<in> set (items b)" and "key x = key y" by auto
  then have "key x \<le> mark b" using items_mark [OF assms(1)] by simp
  ultimately show ?thesis using adds_items [OF assms(1,3)] by auto
qed

end

section \<open>Exponential backoff with a cap\<close>

locale backoff_policy =
  fixes grow :: "duration \<Rightarrow> duration" and initial :: duration and cap :: duration
  assumes initial_pos: "0 < initial"
    and initial_cap: "initial \<le> cap"
    and grow_eq: "0 < d \<Longrightarrow> d \<le> cap \<Longrightarrow> grow d = min (2 * d) cap"
begin

lemma grow_bounds: "initial \<le> d \<Longrightarrow> d \<le> cap \<Longrightarrow> d \<le> grow d \<and> initial \<le> grow d \<and> grow d \<le> cap"
  using grow_eq [of d] initial_pos initial_cap by auto

lemma grow_power: "(grow ^^ n) initial = min (initial * 2 ^ n) cap"
proof (induction n)
  case 0
  then show ?case using initial_cap by simp
next
  case (Suc n)
  have p: "0 < min (initial * 2 ^ n) cap" using initial_pos initial_cap by simp
  have "(grow ^^ Suc n) initial = min (2 * min (initial * 2 ^ n) cap) cap"
    using grow_eq [OF p] Suc.IH by simp
  also have "\<dots> = min (initial * 2 ^ Suc n) cap"
    using initial_pos initial_cap by (simp add: min_def)
  finally show ?case .
qed

lemma grow_power_bounds: "initial \<le> (grow ^^ n) initial \<and> (grow ^^ n) initial \<le> cap"
  using initial_pos initial_cap by (simp add: grow_power min_def)

lemma grow_saturates: "cap \<le> initial * 2 ^ n \<Longrightarrow> (grow ^^ n) initial = cap"
  by (simp add: grow_power)

end

section \<open>Topics that carry a key\<close>

text \<open>
  A sender formats a topic from a key (a robot id, or a robot id and a stream name) and a receiver
  parses the topic back.  \<open>clean\<close> holds of the keys that cannot be confused with the separator.
\<close>

locale topic_codec =
  fixes fmt :: "'k \<Rightarrow> string" and parse :: "string \<Rightarrow> 'k option" and clean :: "'k \<Rightarrow> bool"
  assumes parse_fmt: "clean k \<Longrightarrow> parse (fmt k) = Some k"
    and parse_clean: "parse t = Some k \<Longrightarrow> clean k"
begin

lemma fmt_inj: "clean k \<Longrightarrow> clean k' \<Longrightarrow> fmt k = fmt k' \<Longrightarrow> k = k'"
  by (metis option.inject parse_fmt)

lemma parse_fmt_iff: "parse (fmt k) = Some k \<longleftrightarrow> clean k"
  using parse_fmt parse_clean by blast

end

locale exact_topic_codec = topic_codec +
  assumes fmt_parse: "parse t = Some k \<Longrightarrow> fmt k = t"
begin

lemma parse_iff: "parse t = Some k \<longleftrightarrow> clean k \<and> t = fmt k"
  using parse_fmt parse_clean fmt_parse by blast

end

section \<open>A store of rollout states\<close>

text \<open>
  What the rollout workflow and the control plane rely on: opening a rollout makes it pending
  unless it is known already, closing it sets its status, and neither touches another rollout.  An
  operation may fail, and then changes nothing.
\<close>

locale rollout_store =
  fixes status :: "'t \<Rightarrow> string \<Rightarrow> string option"
    and open_rollout :: "'e \<Rightarrow> string \<Rightarrow> string \<Rightarrow> 't \<Rightarrow> go_error option \<times> 't"
    and close_rollout :: "'e \<Rightarrow> string \<Rightarrow> string \<Rightarrow> string \<Rightarrow> 't \<Rightarrow> go_error option \<times> 't"
  assumes open_ok: "open_rollout e i spec t = (None, t') \<Longrightarrow>
      status t' = (if status t i = None then (status t)(i \<mapsto> ''pending'') else status t)"
    and open_error: "open_rollout e i spec t = (Some err, t') \<Longrightarrow> status t' = status t"
    and close_ok: "close_rollout e i st d t = (None, t') \<Longrightarrow>
      status t' = (if status t i = None then status t else (status t)(i \<mapsto> st))"
    and close_error: "close_rollout e i st d t = (Some err, t') \<Longrightarrow> status t' = status t"
begin

lemma open_then_close:
  "open_rollout e i spec t = (None, t1) \<Longrightarrow> close_rollout f i st d t1 = (None, t2) \<Longrightarrow>
     status t2 = (status t)(i \<mapsto> st)"
  by (auto simp: fun_eq_iff dest!: open_ok close_ok)

lemma open_frame: "j \<noteq> i \<Longrightarrow> open_rollout e i spec t = (r, t') \<Longrightarrow> status t' j = status t j"
  by (cases r) (auto dest!: open_ok open_error split: if_splits)

lemma close_frame: "j \<noteq> i \<Longrightarrow> close_rollout e i st d t = (r, t') \<Longrightarrow> status t' j = status t j"
  by (cases r) (auto dest!: close_ok close_error split: if_splits)

lemma open_keeps_closed: "open_rollout e i spec t = (r, t') \<Longrightarrow> status t i = Some st \<Longrightarrow> status t' i = Some st"
  by (cases r) (auto dest!: open_ok open_error)

lemma close_exists: "close_rollout e i st d t = (r, t') \<Longrightarrow> status t j \<noteq> None \<Longrightarrow> status t' j \<noteq> None"
  by (cases r) (auto dest!: close_ok close_error split: if_splits)

end

end
