(* ===== verification/Topics.thy ===== *)
theory Topics
  imports Prelude Interfaces
begin

text \<open>
  The MQTT topics through which the agent and the cloud talk, as the senders format them and as
  the receivers parse them: telemetry and heartbeats (\<^verbatim>\<open>agent/internal/telemetry/pump.go\<close>,
  \<^verbatim>\<open>cloud/cmd/telemetry-ingest/main.go\<close>), OTA commands and acks
  (\<^verbatim>\<open>agent/internal/ota/executor.go\<close>, \<^verbatim>\<open>cloud/internal/ota\<close>), collision events and twist
  commands (\<^verbatim>\<open>cloud/internal/collision\<close>).  Every pair of a format and a parser is an
  interpretation of \<open>topic_codec\<close>.
\<close>

section \<open>Formats\<close>

definition tlmTopic :: "string \<Rightarrow> string \<Rightarrow> string" where
  "tlmTopic robot stream = ''tlm/'' @ robot @ ''/'' @ stream"

definition hbTopic :: "string \<Rightarrow> string" where
  "hbTopic robot = ''hb/'' @ robot"

definition cmdOtaTopic :: "string \<Rightarrow> string" where
  "cmdOtaTopic robot = ''cmd/'' @ robot @ ''/ota''"

definition ackOtaTopic :: "string \<Rightarrow> string" where
  "ackOtaTopic robot = ''ack/'' @ robot @ ''/ota''"

definition twistTopic :: "string \<Rightarrow> string" where
  "twistTopic robot = ''cmd/'' @ robot @ ''/twist''"

section \<open>Parsers\<close>

text \<open>\<^verbatim>\<open>parseTopic\<close> of the ingest worker: robot id, stream, and whether the topic is one of ours.\<close>

definition parseTopic :: "string \<Rightarrow> string \<times> string \<times> bool" where
  "parseTopic topic =
     (let parts = splitOn CHR ''/'' topic in
      if parts ! 0 = ''tlm'' then
        (if length parts \<noteq> 3 then ('''', '''', False) else (parts ! 1, parts ! 2, True))
      else if parts ! 0 = ''hb'' then
        (if length parts \<noteq> 2 then ('''', '''', False) else (parts ! 1, ''heartbeat'', True))
      else ('''', '''', False))"

text \<open>The robot id the OTA ack bridge and the collision bridge take from a topic, if it has their shape.\<close>

definition ackTopicRobot :: "string \<Rightarrow> string option" where
  "ackTopicRobot topic =
     (let parts = splitOn CHR ''/'' topic in
      if length parts \<noteq> 3 \<or> parts ! 0 \<noteq> ''ack'' \<or> parts ! 2 \<noteq> ''ota'' then None
      else Some (parts ! 1))"

definition collisionTopicRobot :: "string \<Rightarrow> string option" where
  "collisionTopicRobot topic =
     (let parts = splitOn CHR ''/'' topic in
      if length parts \<noteq> 3 \<or> parts ! 0 \<noteq> ''events'' \<or> parts ! 2 \<noteq> ''collision'' then None
      else Some (parts ! 1))"

text \<open>The topic \<^verbatim>\<open>collision_publisher.py\<close> of the robot publishes its events on.\<close>

definition collisionTopic :: "string \<Rightarrow> string" where
  "collisionTopic robot = ''events/'' @ robot @ ''/collision''"

definition slashFree :: "string \<Rightarrow> bool" where
  "slashFree s \<longleftrightarrow> CHR ''/'' \<notin> set s"

lemma splitOn_three:
  "slashFree a \<Longrightarrow> slashFree b \<Longrightarrow> slashFree c \<Longrightarrow>
     splitOn CHR ''/'' (a @ ''/'' @ b @ ''/'' @ c) = [a, b, c]"
  by (simp add: slashFree_def splitOn_append_sep)

lemma splitOn_two:
  "slashFree a \<Longrightarrow> slashFree b \<Longrightarrow> splitOn CHR ''/'' (a @ ''/'' @ b) = [a, b]"
  by (simp add: slashFree_def splitOn_append_sep)

lemma split_parts_clean: "p \<in> set (splitOn CHR ''/'' t) \<Longrightarrow> slashFree p"
  by (simp add: slashFree_def splitOn_parts)

lemma list_of_three: "length ps = 3 \<Longrightarrow> ps = [ps ! 0, ps ! 1, ps ! 2]"
  by (auto simp: numeral_3_eq_3 numeral_2_eq_2 length_Suc_conv)

lemma list_of_two: "length ps = 2 \<Longrightarrow> ps = [ps ! 0, ps ! 1]"
  by (auto simp: numeral_2_eq_2 length_Suc_conv)

text \<open>A topic of three parts is its parts joined.\<close>

lemma topic_of_three:
  assumes "length (splitOn CHR ''/'' t) = 3"
  shows "t = splitOn CHR ''/'' t ! 0 @ ''/'' @ splitOn CHR ''/'' t ! 1 @ ''/'' @ splitOn CHR ''/'' t ! 2"
proof -
  obtain a b c where abc: "splitOn CHR ''/'' t = [a, b, c]"
    using list_of_three [OF assms] by blast
  from join_splitOn [of "CHR ''/''" t] have "t = a @ ''/'' @ b @ ''/'' @ c"
    unfolding abc by simp
  with abc show ?thesis by simp
qed

lemma slashFree_literals [simp, topic_simps]:
  "slashFree ''tlm''" "slashFree ''hb''" "slashFree ''ack''" "slashFree ''ota''"
  "slashFree ''events''" "slashFree ''collision''" "slashFree ''cmd''" "slashFree ''twist''"
  by (simp_all add: slashFree_def)

lemma parse_tlm [topic_simps]:
  "slashFree r \<Longrightarrow> slashFree s \<Longrightarrow> parseTopic (tlmTopic r s) = (r, s, True)"
  using splitOn_three [of "''tlm''" r s] by (simp add: parseTopic_def tlmTopic_def)

lemma parse_hb [topic_simps]: "slashFree r \<Longrightarrow> parseTopic (hbTopic r) = (r, ''heartbeat'', True)"
  using splitOn_two [of "''hb''" r] by (simp add: parseTopic_def hbTopic_def)

lemma parse_ack [topic_simps]: "slashFree r \<Longrightarrow> ackTopicRobot (ackOtaTopic r) = Some r"
  using splitOn_three [of "''ack''" r "''ota''"] by (simp add: ackTopicRobot_def ackOtaTopic_def)

lemma parse_collision [topic_simps]: "slashFree r \<Longrightarrow> collisionTopicRobot (collisionTopic r) = Some r"
  using splitOn_three [of "''events''" r "''collision''"]
  by (simp add: collisionTopicRobot_def collisionTopic_def)

text \<open>The ingest worker's parse as an option, the shape the interface has.\<close>

definition ingestKey :: "string \<Rightarrow> (string \<times> string) option" where
  "ingestKey topic = (case parseTopic topic of (r, s, ok) \<Rightarrow> if ok then Some (r, s) else None)"

lemma ingestKey_clean:
  assumes "ingestKey t = Some (r, s)"
  shows "slashFree r \<and> slashFree s"
proof -
  let ?ps = "splitOn CHR ''/'' t"
  have nth: "i < length ?ps \<Longrightarrow> slashFree (?ps ! i)" for i
    by (rule split_parts_clean [OF nth_mem])
  have "slashFree ''heartbeat''" by (simp add: slashFree_def)
  with assms nth [of 1] nth [of 2] show ?thesis
    by (auto simp: ingestKey_def parseTopic_def Let_def split: if_splits)
qed

interpretation telemetry_topic: topic_codec
  "\<lambda>(r, s). tlmTopic r s" ingestKey "\<lambda>(r, s). slashFree r \<and> slashFree s"
  by unfold_locales (auto simp: ingestKey_def topic_simps dest: ingestKey_clean [unfolded ingestKey_def])

interpretation ack_topic: exact_topic_codec ackOtaTopic ackTopicRobot slashFree
proof unfold_locales
  fix r t
  show "slashFree r \<Longrightarrow> ackTopicRobot (ackOtaTopic r) = Some r" by (rule parse_ack)
  show "ackTopicRobot t = Some r \<Longrightarrow> slashFree r"
    by (auto simp: ackTopicRobot_def Let_def split: if_splits intro!: split_parts_clean nth_mem)
  show "ackTopicRobot t = Some r \<Longrightarrow> ackOtaTopic r = t"
    using topic_of_three [of t] by (auto simp: ackTopicRobot_def ackOtaTopic_def Let_def split: if_splits)
qed

interpretation collision_topic: exact_topic_codec collisionTopic collisionTopicRobot slashFree
proof unfold_locales
  fix r t
  show "slashFree r \<Longrightarrow> collisionTopicRobot (collisionTopic r) = Some r" by (rule parse_collision)
  show "collisionTopicRobot t = Some r \<Longrightarrow> slashFree r"
    by (auto simp: collisionTopicRobot_def Let_def split: if_splits intro!: split_parts_clean nth_mem)
  show "collisionTopicRobot t = Some r \<Longrightarrow> collisionTopic r = t"
    using topic_of_three [of t]
    by (auto simp: collisionTopicRobot_def collisionTopic_def Let_def split: if_splits)
qed

section \<open>Claims\<close>

text \<open>
  A topic the agent publishes telemetry on is parsed by the ingest worker into the robot and the
  stream it was made from, exactly when neither contains a slash; so two such pairs never share a
  topic.
\<close>

theorem telemetry_topic_roundtrip:
  "ingestKey (tlmTopic r s) = Some (r, s) \<longleftrightarrow> slashFree r \<and> slashFree s"
  using telemetry_topic.parse_fmt_iff [of "(r, s)"] by simp

text \<open>
  The cloud's ack and collision bridges accept exactly the topics the robots publish on, and
  take the publishing robot from them.
\<close>

theorem robot_topics_exact:
  "(ackTopicRobot t = Some r \<longleftrightarrow> slashFree r \<and> t = ackOtaTopic r) \<and>
   (collisionTopicRobot t = Some r \<longleftrightarrow> slashFree r \<and> t = collisionTopic r)"
  using ack_topic.parse_iff [of t r] collision_topic.parse_iff [of t r] by blast

end
