(* ===== verification/Mqttx.thy ===== *)
theory Mqttx
  imports Prelude
begin

text \<open>
  The agent's MQTT publisher, \<^verbatim>\<open>agent/internal/mqttx/publisher.go\<close>.  The paho client is a
  library: whether its connection is open and how a token ends are arguments.  The model keeps what
  the wrapper decides: the connection policy it asks for, and when a publish counts as delivered.
  What the options mean for the subscriptions of a client and for its acknowledgements is the
  documented behaviour of MQTT sessions and of paho.
\<close>

record publisherConfig =
  pc_BrokerURL :: string
  pc_ClientID :: string
  pc_Username :: string
  pc_Password :: string

text \<open>
  The client options the programs set; the topics a client subscribes to in its connect handler are
  \<^verbatim>\<open>o_onConnect\<close>.  An option that is not set has paho's documented default.
\<close>

record clientOptions =
  o_broker :: string
  o_clientID :: string
  o_cleanSession :: bool
  o_autoReconnect :: bool
  o_connectRetry :: bool
  o_maxReconnectInterval :: duration
  o_orderMatters :: bool
  o_messageChannelDepth :: nat
  o_credentials :: "(string \<times> string) option"
  o_autoAckDisabled :: bool
  o_onConnect :: "string list"

text \<open>What the programs rely on of the defaults, which are an argument of what sets options.\<close>

definition paho_defaults :: "clientOptions \<Rightarrow> bool" where
  "paho_defaults d \<longleftrightarrow> o_cleanSession d \<and> o_orderMatters d \<and> \<not> o_autoAckDisabled d \<and> o_onConnect d = []"

definition demoDefaults :: clientOptions where
  "demoDefaults = \<lparr>o_broker = '''', o_clientID = '''', o_cleanSession = True, o_autoReconnect = True,
     o_connectRetry = False, o_maxReconnectInterval = 10 * minute, o_orderMatters = True,
     o_messageChannelDepth = 100, o_credentials = None, o_autoAckDisabled = False, o_onConnect = []\<rparr>"

lemma demoDefaults_paho: "paho_defaults demoDefaults"
  by (simp add: paho_defaults_def demoDefaults_def)

definition NewPublisher :: "clientOptions \<Rightarrow> publisherConfig \<Rightarrow> go_error + clientOptions" where
  "NewPublisher d cfg =
     (if pc_ClientID cfg = '''' then Inl (GoError ''ClientID required'')
      else Inr (d
        \<lparr>o_broker := pc_BrokerURL cfg, o_clientID := pc_ClientID cfg, o_cleanSession := False,
         o_autoReconnect := True, o_connectRetry := True, o_maxReconnectInterval := 60 * second,
         o_orderMatters := False, o_messageChannelDepth := 4096,
         o_credentials := (if pc_Username cfg \<noteq> '''' then Some (pc_Username cfg, pc_Password cfg) else None)\<rparr>))"

text \<open>
  How a token ends: it is still pending when the caller's wait is over, or it completed with an
  error or without.  The state of a client at one call is whether its connection is open and how
  the token of that call ends.
\<close>

datatype token = Pending | Completed "go_error option"

record client_env =
  ce_open :: bool
  ce_token :: token

text \<open>\<^verbatim>\<open>tok.Error()\<close> of a pending token is nil.\<close>

fun tokenError :: "token \<Rightarrow> go_error option" where
  "tokenError Pending = None"
| "tokenError (Completed err) = err"

definition Publish :: "client_env \<Rightarrow> duration \<Rightarrow> go_error option" where
  "Publish e timeout =
     (if \<not> ce_open e then Some (GoError ''mqtt: not connected'')
      else if ce_token e = Pending
        then Some (GoError (''mqtt: publish timed out after '' @ durationString timeout))
      else tokenError (ce_token e))"

definition IsConnected :: "client_env \<Rightarrow> bool" where
  "IsConnected e = ce_open e"

text \<open>A publish is reported delivered exactly when the broker's acknowledgement came in time.\<close>

lemma Publish_None_iff: "Publish e t = None \<longleftrightarrow> ce_open e \<and> ce_token e = Completed None"
  by (cases "ce_token e") (auto simp: Publish_def)

definition acknowledged :: client_env where
  "acknowledged = \<lparr>ce_open = True, ce_token = Completed None\<rparr>"

lemma Publish_acknowledged [simp]: "Publish acknowledged t = None"
  by (simp add: Publish_None_iff acknowledged_def)

section \<open>Sessions\<close>

text \<open>
  The life of a connection: a subscription made by the program, a connection opened (again), where
  the flag says whether the broker still has the session, a connection lost.
\<close>

datatype conn_event = Subscribed string | Connected bool | Disconnected

text \<open>
  The subscriptions a client has after such events, as MQTT and paho document them: a clean session,
  or one the broker has lost, starts without subscriptions; the connect handler runs at every
  connection; the client does not subscribe again by itself.
\<close>

type_synonym sessions = "clientOptions \<Rightarrow> conn_event list \<Rightarrow> string list \<Rightarrow> string list"

definition session_laws :: "sessions \<Rightarrow> bool" where
  "session_laws sess \<longleftrightarrow> (\<forall>opts es subs t kept.
     sess opts [] subs = subs \<and>
     sess opts (Subscribed t # es) subs = sess opts es (subs @ [t]) \<and>
     sess opts (Connected kept # es) subs =
       sess opts es ((if kept \<and> \<not> o_cleanSession opts then subs else []) @ o_onConnect opts) \<and>
     sess opts (Disconnected # es) subs = sess opts es subs)"

fun demoSession :: sessions where
  "demoSession opts [] subs = subs"
| "demoSession opts (Subscribed t # es) subs = demoSession opts es (subs @ [t])"
| "demoSession opts (Connected kept # es) subs =
     demoSession opts es ((if kept \<and> \<not> o_cleanSession opts then subs else []) @ o_onConnect opts)"
| "demoSession opts (Disconnected # es) subs = demoSession opts es subs"

lemma demoSession_laws: "session_laws demoSession"
  by (simp add: session_laws_def)

definition reconnections :: "conn_event list \<Rightarrow> bool list" where
  "reconnections es = concat (map (\<lambda>ev. case ev of Connected kept \<Rightarrow> [kept] | _ \<Rightarrow> []) es)"

definition noSubscribe :: "conn_event list \<Rightarrow> bool" where
  "noSubscribe es = list_all (\<lambda>ev. case ev of Subscribed t \<Rightarrow> False | _ \<Rightarrow> True) es"

lemma reconnections_simps [simp]:
  "reconnections [] = []" "reconnections (Subscribed t # es) = reconnections es"
  "reconnections (Connected kept # es) = kept # reconnections es"
  "reconnections (Disconnected # es) = reconnections es"
  by (simp_all add: reconnections_def)

lemma noSubscribe_simps [simp]:
  "noSubscribe []" "\<not> noSubscribe (Subscribed t # es)"
  "noSubscribe (Connected kept # es) = noSubscribe es" "noSubscribe (Disconnected # es) = noSubscribe es"
  by (simp_all add: noSubscribe_def)

text \<open>What is left of the subscriptions when the program itself does not subscribe again.\<close>

lemma session_survives:
  assumes "session_laws sess" and "noSubscribe es"
  shows "t \<in> set (sess opts es subs) \<longleftrightarrow>
    (if reconnections es = [] then t \<in> set subs
     else t \<in> set (o_onConnect opts) \<or>
       t \<in> set subs \<and> \<not> o_cleanSession opts \<and> False \<notin> set (reconnections es))"
  using assms(2)
proof (induction es arbitrary: subs)
  case Nil
  then show ?case using assms(1) by (simp add: session_laws_def)
next
  case (Cons ev es)
  show ?case
  proof (cases ev)
    case (Connected kept)
    then show ?thesis using Cons assms(1) by (cases "reconnections es") (auto simp: session_laws_def)
  qed (use Cons assms(1) in \<open>auto simp: session_laws_def\<close>)
qed

text \<open>
  Whether a message is acknowledged, given whether its handler did: the client does it too unless
  that is switched off.
\<close>

definition autoack_law :: "(clientOptions \<Rightarrow> bool \<Rightarrow> bool) \<Rightarrow> bool" where
  "autoack_law acks \<longleftrightarrow> (\<forall>opts byHandler. acks opts byHandler \<longleftrightarrow> byHandler \<or> \<not> o_autoAckDisabled opts)"

definition demoAcks :: "clientOptions \<Rightarrow> bool \<Rightarrow> bool" where
  "demoAcks opts byHandler \<longleftrightarrow> byHandler \<or> \<not> o_autoAckDisabled opts"

lemma demoAcks_law: "autoack_law demoAcks"
  by (simp add: autoack_law_def demoAcks_def)

section \<open>Topic filters\<close>

text \<open>A filter matches a topic level by level; \<^verbatim>\<open>+\<close> matches any one level.\<close>

fun matchLevels :: "string list \<Rightarrow> string list \<Rightarrow> bool" where
  "matchLevels [] [] = True"
| "matchLevels (f # fs) (l # ls) = ((f = ''+'' \<or> f = l) \<and> matchLevels fs ls)"
| "matchLevels _ _ = False"

definition topicMatches :: "string \<Rightarrow> string \<Rightarrow> bool" where
  "topicMatches filt topic = matchLevels (splitOn CHR ''/'' filt) (splitOn CHR ''/'' topic)"

end
