(* ===== verification/AgentOta.thy ===== *)
theory AgentOta
  imports Engine OtaWire Topics Mqttx
begin

text \<open>
  The agent's OTA executor, \<^verbatim>\<open>agent/internal/ota/executor.go\<close>: one command in, a sequence of
  acks out, and the image digest a later rollback goes back to.  Commands are handled one at a
  time here; the source starts a goroutine per message.
\<close>

text \<open>
  The executor's state: the engine, the remembered digest, and the messages handed to the MQTT
  client, each with its topic, its QoS and its body.  \<open>clock n\<close> is the time stamp of the n-th one.
\<close>

record 's executor =
  ex_engine :: 's
  ex_lastSuccessDigest :: string
  ex_published :: "(string \<times> nat \<times> json) list"

record 's executorConfig =
  ec_RobotID :: string
  ec_Docker :: dockerCLI
  ec_runner :: "'s runner"
  ec_clock :: "nat \<Rightarrow> string"

text \<open>A publish that times out or fails is only logged.\<close>

definition publishAck :: "'s executorConfig \<Rightarrow> command \<Rightarrow> string \<Rightarrow> string \<Rightarrow> 's executor \<Rightarrow> 's executor" where
  "publishAck cfg cmd phase detail x =
     (let ack = \<lparr>ack_RolloutID = cmd_RolloutID cmd, ack_RobotID = ec_RobotID cfg, ack_Phase = phase,
            ack_Detail = detail, ack_At = ec_clock cfg (length (ex_published x)),
            ack_ImageDigest = '''', ack_PreviousImageDigest = ''''\<rparr>
      in x\<lparr>ex_published := ex_published x @ [(ackOtaTopic (ec_RobotID cfg), 1, marshalAck ack)]\<rparr>)"

definition recordPrev :: "string \<Rightarrow> 's executor \<Rightarrow> 's executor" where
  "recordPrev d x = (if d = '''' then x else x\<lparr>ex_lastSuccessDigest := d\<rparr>)"

definition smokeLimit :: "command \<Rightarrow> duration option" where
  "smokeLimit cmd =
     (if cmd_SmokeTimeoutSec cmd > 0 then Some (i64 (cmd_SmokeTimeoutSec cmd * second)) else None)"

definition runForward :: "'s executorConfig \<Rightarrow> command \<Rightarrow> 's executor \<Rightarrow> 's executor" where
  "runForward cfg cmd x0 =
     (if cmd_ImageRef cmd = '''' then publishAck cfg cmd ''PHASE_FAILED'' ''image_ref empty'' x0
      else
        (case Pull (ec_runner cfg) (ec_Docker cfg) (cmd_ImageRef cmd) (ex_engine x0) of
           (Some err, s1) \<Rightarrow>
             publishAck cfg cmd ''PHASE_FAILED'' (''pull: '' @ error_text err) (x0\<lparr>ex_engine := s1\<rparr>)
         | (None, s1) \<Rightarrow>
             (let x1 = publishAck cfg cmd ''PHASE_PULLED'' '''' (x0\<lparr>ex_engine := s1\<rparr>) in
              (case Swap (ec_runner cfg) (ec_Docker cfg) (cmd_ImageRef cmd) (ex_engine x1) of
                 ((prev, Some err), s2) \<Rightarrow>
                   publishAck cfg cmd ''PHASE_FAILED'' (''swap: '' @ error_text err) (x1\<lparr>ex_engine := s2\<rparr>)
               | ((prev, None), s2) \<Rightarrow>
                   (let x2 = publishAck cfg cmd ''PHASE_SWAPPED'' ''''
                          (recordPrev prev (x1\<lparr>ex_engine := s2\<rparr>)) in
                    (case Exec (ec_runner cfg) (smokeLimit cmd) (ec_Docker cfg) (cmd_SmokeCommand cmd)
                            (ex_engine x2) of
                       (Some err, s3) \<Rightarrow>
                         (case Rollback (ec_runner cfg) (ec_Docker cfg) prev s3 of
                            (_, s4) \<Rightarrow>
                              publishAck cfg cmd ''PHASE_ROLLED_BACK'' ''self-rollback after smoke failure''
                                (publishAck cfg cmd ''PHASE_FAILED'' (''smoke: '' @ error_text err)
                                  (x2\<lparr>ex_engine := s4\<rparr>)))
                     | (None, s3) \<Rightarrow>
                         publishAck cfg cmd ''PHASE_HEALTHY'' '''' (x2\<lparr>ex_engine := s3\<rparr>)))))))"

definition runRollback :: "'s executorConfig \<Rightarrow> command \<Rightarrow> 's executor \<Rightarrow> 's executor" where
  "runRollback cfg cmd x =
     (case Rollback (ec_runner cfg) (ec_Docker cfg) (ex_lastSuccessDigest x) (ex_engine x) of
        (Some err, s) \<Rightarrow>
          publishAck cfg cmd ''PHASE_ROLLED_BACK'' (''rollback failed: '' @ error_text err)
            (x\<lparr>ex_engine := s\<rparr>)
      | (None, s) \<Rightarrow> publishAck cfg cmd ''PHASE_ROLLED_BACK'' '''' (x\<lparr>ex_engine := s\<rparr>))"

definition handle :: "'s executorConfig \<Rightarrow> body \<Rightarrow> 's executor \<Rightarrow> 's executor" where
  "handle cfg body x =
     (case unmarshalCommand body of
        Inl err \<Rightarrow> x
      | Inr cmd \<Rightarrow>
          (let x' = publishAck cfg cmd ''PHASE_RECEIVED'' '''' x in
           if cmd_Action cmd = CmdRollback then runRollback cfg cmd x' else runForward cfg cmd x'))"

text \<open>
  \<^verbatim>\<open>Start\<close>: the subscription's topic, and the error when it fails.  \<^verbatim>\<open>%w\<close> of a nil
  error prints as below.
\<close>

definition executorStart :: "string \<Rightarrow> token \<Rightarrow> string \<times> go_error option" where
  "executorStart robotID tok =
     (let topic = cmdOtaTopic robotID in
      (topic,
       case tok of
         Completed None \<Rightarrow> None
       | Completed (Some err) \<Rightarrow> Some (errorf (''subscribe '' @ topic) err)
       | Pending \<Rightarrow> Some (GoError (''subscribe '' @ topic @ '': %!w(<nil>)''))))"

section \<open>The acks a command produces\<close>

fun phaseOf :: "string \<times> nat \<times> json \<Rightarrow> string" where
  "phaseOf (topic, qos, body) =
     (case unmarshalBridgeAck (Some body) of Inl err \<Rightarrow> '''' | Inr a \<Rightarrow> ba_Phase a)"

definition phasesOf :: "'s executor \<Rightarrow> string list" where
  "phasesOf x = map phaseOf (ex_published x)"

lemma phasesOf_publishAck [simp]: "phasesOf (publishAck cfg cmd phase detail x) = phasesOf x @ [phase]"
  by (simp add: phasesOf_def publishAck_def Let_def ack_decode)

lemma publishAck_frame [simp]:
  "ex_engine (publishAck cfg cmd phase detail x) = ex_engine x"
  "ex_lastSuccessDigest (publishAck cfg cmd phase detail x) = ex_lastSuccessDigest x"
  by (simp_all add: publishAck_def Let_def)

lemma recordPrev_frame [simp]:
  "ex_engine (recordPrev d x) = ex_engine x" "phasesOf (recordPrev d x) = phasesOf x"
  "ex_published (recordPrev d x) = ex_published x"
  by (simp_all add: recordPrev_def phasesOf_def)

lemma phasesOf_engine [simp]: "phasesOf (x\<lparr>ex_engine := s\<rparr>) = phasesOf x"
  by (simp add: phasesOf_def)

text \<open>How far a forward command gets: the outcome of each of its steps.\<close>

datatype forwardOutcome = NoImage | PullFailed | SwapFailed | SmokeFailed | Healthy

definition forwardOutcome :: "'s executorConfig \<Rightarrow> command \<Rightarrow> 's \<Rightarrow> forwardOutcome" where
  "forwardOutcome cfg cmd s =
     (let rn = ec_runner cfg; d = ec_Docker cfg in
      if cmd_ImageRef cmd = '''' then NoImage
      else if fst (Pull rn d (cmd_ImageRef cmd) s) \<noteq> None then PullFailed
      else let s1 = snd (Pull rn d (cmd_ImageRef cmd) s) in
        if snd (fst (Swap rn d (cmd_ImageRef cmd) s1)) \<noteq> None then SwapFailed
        else let s2 = snd (Swap rn d (cmd_ImageRef cmd) s1) in
          if fst (Exec rn (smokeLimit cmd) d (cmd_SmokeCommand cmd) s2) \<noteq> None then SmokeFailed
          else Healthy)"

fun outcomePhases :: "forwardOutcome \<Rightarrow> otaPhase list" where
  "outcomePhases NoImage = [PHASE_FAILED]"
| "outcomePhases PullFailed = [PHASE_FAILED]"
| "outcomePhases SwapFailed = [PHASE_PULLED, PHASE_FAILED]"
| "outcomePhases SmokeFailed = [PHASE_PULLED, PHASE_SWAPPED, PHASE_FAILED, PHASE_ROLLED_BACK]"
| "outcomePhases Healthy = [PHASE_PULLED, PHASE_SWAPPED, PHASE_HEALTHY]"

lemma runForward_phases:
  "phasesOf (runForward cfg cmd x) =
     phasesOf x @ map Phase_name (outcomePhases (forwardOutcome cfg cmd (ex_engine x)))"
  by (auto simp: runForward_def forwardOutcome_def Let_def
      split: prod.splits option.splits)

lemma runRollback_phases: "phasesOf (runRollback cfg cmd x) = phasesOf x @ [''PHASE_ROLLED_BACK'']"
  by (auto simp: runRollback_def split: prod.splits option.splits)

section \<open>Properties\<close>

lemma outcomePhases_increasing: "sorted_wrt (<) (PHASE_RECEIVED # outcomePhases oc)"
  by (cases oc) (auto simp: less_otaPhase_def)

lemma handle_phases_eq:
  "phasesOf (handle cfg body x) = phasesOf x @
     (case unmarshalCommand body of
        Inl err \<Rightarrow> []
      | Inr cmd \<Rightarrow> map Phase_name
          (if cmd_Action cmd = CmdRollback then [PHASE_RECEIVED, PHASE_ROLLED_BACK]
           else PHASE_RECEIVED # outcomePhases (forwardOutcome cfg cmd (ex_engine x))))"
  by (auto simp: handle_def runForward_phases runRollback_phases Let_def split: sum.splits)

text \<open>
  A command that cannot be decoded is not answered; any other is answered with RECEIVED and then
  the phases of its outcome, and the phases of one command strictly increase.
\<close>

theorem handle_phases:
  "phasesOf (handle cfg body x) = phasesOf x @
     (case unmarshalCommand body of
        Inl err \<Rightarrow> []
      | Inr cmd \<Rightarrow> map Phase_name
          (if cmd_Action cmd = CmdRollback then [PHASE_RECEIVED, PHASE_ROLLED_BACK]
           else PHASE_RECEIVED # outcomePhases (forwardOutcome cfg cmd (ex_engine x)))) \<and>
   sorted_wrt (<) (PHASE_RECEIVED # outcomePhases (forwardOutcome cfg cmd (ex_engine x)))"
  by (intro conjI handle_phases_eq outcomePhases_increasing)

lemma handle_forward:
  "unmarshalCommand body = Inr cmd \<Longrightarrow> cmd_Action cmd \<noteq> CmdRollback \<Longrightarrow>
     handle cfg body x = runForward cfg cmd (publishAck cfg cmd ''PHASE_RECEIVED'' '''' x)"
  by (simp add: handle_def Let_def)

lemma handle_rollback:
  "unmarshalCommand body = Inr cmd \<Longrightarrow> cmd_Action cmd = CmdRollback \<Longrightarrow>
     handle cfg body x = runRollback cfg cmd (publishAck cfg cmd ''PHASE_RECEIVED'' '''' x)"
  by (simp add: handle_def Let_def)

text \<open>The engine's laws for the agent's configuration.\<close>

abbreviation agent_laws where
  "agent_laws resolve view cfg \<equiv> docker_laws resolve view (ec_runner cfg) (ec_Docker cfg)"

abbreviation canonical where
  "canonical cfg \<equiv> d_ContainerName (ec_Docker cfg)"

text \<open>What a forward command leaves in the engine, by its outcome.\<close>

lemma runForward_engine:
  "ex_engine (runForward cfg cmd x) =
     (let rn = ec_runner cfg; d = ec_Docker cfg; ref = cmd_ImageRef cmd; s = ex_engine x;
          s1 = snd (Pull rn d ref s); s2 = snd (Swap rn d ref s1);
          s3 = snd (Exec rn (smokeLimit cmd) d (cmd_SmokeCommand cmd) s2) in
      case forwardOutcome cfg cmd s of
        NoImage \<Rightarrow> s
      | PullFailed \<Rightarrow> s1
      | SwapFailed \<Rightarrow> s2
      | SmokeFailed \<Rightarrow> snd (Rollback rn d (fst (fst (Swap rn d ref s1))) s3)
      | Healthy \<Rightarrow> s3)"
  by (auto simp: runForward_def forwardOutcome_def Let_def split: prod.splits option.splits)

lemma forwardOutcome_swapped:
  assumes "forwardOutcome cfg cmd s \<in> {SmokeFailed, Healthy}"
  shows "\<exists>prev s2. Swap (ec_runner cfg) (ec_Docker cfg) (cmd_ImageRef cmd)
      (snd (Pull (ec_runner cfg) (ec_Docker cfg) (cmd_ImageRef cmd) s)) = ((prev, None), s2)"
  using assms by (auto simp: forwardOutcome_def Let_def split: if_splits)
    (metis (full_types) option.exhaust prod.collapse)+

text \<open>C34: a healthy ack means the commanded image is in place.\<close>

theorem healthy_installs_image:
  assumes "agent_laws resolve view cfg" and "unmarshalCommand body = Inr cmd"
    and "cmd_Action cmd \<noteq> CmdRollback"
    and "last (phasesOf (handle cfg body x)) = ''PHASE_HEALTHY''"
  shows "view (ex_engine (handle cfg body x)) =
      (view (ex_engine x))(canonical cfg \<mapsto> resolve (cmd_ImageRef cmd))"
proof -
  let ?s = "ex_engine x" and ?rn = "ec_runner cfg" and ?d = "ec_Docker cfg"
  have "last (phasesOf (handle cfg body x)) =
      last (map Phase_name (PHASE_RECEIVED # outcomePhases (forwardOutcome cfg cmd ?s)))"
    by (simp add: handle_phases_eq assms(2,3))
  then have h: "forwardOutcome cfg cmd ?s = Healthy"
    using assms(4) by (cases "forwardOutcome cfg cmd ?s") simp_all
  obtain prev s2 where sw: "Swap ?rn ?d (cmd_ImageRef cmd) (snd (Pull ?rn ?d (cmd_ImageRef cmd) ?s)) = ((prev, None), s2)"
    using forwardOutcome_swapped [of cfg cmd ?s] h by auto
  show ?thesis
    using Swap_success [OF assms(1) sw] Pull_view [OF assms(1)] Exec_view [OF assms(1)] h sw
    by (simp add: handle_forward [OF assms(2,3)] runForward_engine Let_def)
qed

text \<open>
  C27: a failed smoke check restores the containers exactly, when there was a previous container and
  the engine carries out the restoring run.
\<close>

theorem self_rollback_restores:
  assumes "agent_laws resolve view cfg" and "unmarshalCommand body = Inr cmd"
    and "cmd_Action cmd \<noteq> CmdRollback"
    and "forwardOutcome cfg cmd (ex_engine x) = SmokeFailed"
    and "Swap (ec_runner cfg) (ec_Docker cfg) (cmd_ImageRef cmd)
           (snd (Pull (ec_runner cfg) (ec_Docker cfg) (cmd_ImageRef cmd) (ex_engine x))) = ((prev, None), s2)"
    and "fst (Rollback (ec_runner cfg) (ec_Docker cfg) prev
           (snd (Exec (ec_runner cfg) (smokeLimit cmd) (ec_Docker cfg) (cmd_SmokeCommand cmd) s2))) = None"
  shows "view (ex_engine (handle cfg body x)) = view (ex_engine x) \<and>
    view (ex_engine x) (canonical cfg) = Some prev"
proof -
  let ?rn = "ec_runner cfg" and ?d = "ec_Docker cfg"
  let ?s3 = "snd (Exec ?rn (smokeLimit cmd) ?d (cmd_SmokeCommand cmd) s2)"
  obtain s4 where roll: "Rollback ?rn ?d prev ?s3 = (None, s4)" using assms(6) by (cases "Rollback ?rn ?d prev ?s3") auto
  note sw = Swap_success [OF assms(1,5)] and rb = Rollback_view [OF assms(1) roll]
  have prev: "view (ex_engine x) (canonical cfg) = Some prev"
    using sw rb Pull_view [OF assms(1)] by simp
  have eng: "ex_engine (handle cfg body x) = s4"
    using assms(4,5) roll by (simp add: handle_forward [OF assms(2,3)] runForward_engine Let_def)
  show ?thesis
    using sw rb prev image_id [OF assms(1) prev] Pull_view [OF assms(1)] Exec_view [OF assms(1)]
    by (auto simp: eng fun_eq_iff)
qed

definition isForward :: "body \<Rightarrow> bool" where
  "isForward body = (case unmarshalCommand body of Inl err \<Rightarrow> False | Inr cmd \<Rightarrow> cmd_Action cmd \<noteq> CmdRollback)"

lemma isForward_command:
  "isForward body \<Longrightarrow> \<exists>cmd. unmarshalCommand body = Inr cmd \<and> cmd_Action cmd \<noteq> CmdRollback"
  by (simp add: isForward_def split: sum.splits)

lemma wedged_forward:
  assumes laws: "agent_laws resolve view cfg"
    and tmp: "view (ex_engine x) (tmpName (ec_Docker cfg)) \<noteq> None" and fwd: "isForward body"
  shows "view (ex_engine (handle cfg body x)) = view (ex_engine x) \<and>
    (\<exists>ps. phasesOf (handle cfg body x) = phasesOf x @ ps @ [''PHASE_FAILED''] \<and>
      set ps \<subseteq> {''PHASE_RECEIVED'', ''PHASE_PULLED''})"
proof -
  obtain cmd where cmd: "unmarshalCommand body = Inr cmd" "cmd_Action cmd \<noteq> CmdRollback"
    using isForward_command [OF fwd] by blast
  let ?s1 = "snd (Pull (ec_runner cfg) (ec_Docker cfg) (cmd_ImageRef cmd) (ex_engine x))"
  have s1: "view ?s1 = view (ex_engine x)" by (rule Pull_view [OF laws])
  have wedged: "fst (fst (Swap (ec_runner cfg) (ec_Docker cfg) (cmd_ImageRef cmd) ?s1)) = '''' \<and>
      snd (fst (Swap (ec_runner cfg) (ec_Docker cfg) (cmd_ImageRef cmd) ?s1)) \<noteq> None \<and>
      view (snd (Swap (ec_runner cfg) (ec_Docker cfg) (cmd_ImageRef cmd) ?s1)) = view ?s1"
    using Swap_wedged [OF laws, of ?s1 "cmd_ImageRef cmd"] s1 tmp by fastforce
  then have oc: "forwardOutcome cfg cmd (ex_engine x) \<in> {NoImage, PullFailed, SwapFailed}"
    by (simp add: forwardOutcome_def Let_def)
  have "view (ex_engine (handle cfg body x)) = view (ex_engine x)"
    using oc wedged s1 by (auto simp: handle_forward [OF cmd] runForward_engine Let_def)
  moreover have "\<exists>ps. map Phase_name (PHASE_RECEIVED # outcomePhases (forwardOutcome cfg cmd (ex_engine x)))
      = ps @ [''PHASE_FAILED''] \<and> set ps \<subseteq> {''PHASE_RECEIVED'', ''PHASE_PULLED''}"
    using oc by auto
  ultimately show ?thesis using cmd by (auto simp: handle_phases_eq)
qed

definition handleAll :: "'s executorConfig \<Rightarrow> body list \<Rightarrow> 's executor \<Rightarrow> 's executor" where
  "handleAll cfg bodies x = foldl (\<lambda>y b. handle cfg b y) x bodies"

text \<open>
  C26: a swap that leaves the temporary container behind blocks every later forward command.  From
  such a state, no sequence of forward commands changes any container, and each command is answered
  with a failure.
\<close>

theorem leftover_blocks_updates:
  assumes "agent_laws resolve view cfg"
    and "view (ex_engine x) (tmpName (ec_Docker cfg)) \<noteq> None" and "list_all isForward bodies"
  shows "view (ex_engine (handleAll cfg bodies x)) = view (ex_engine x) \<and>
    (\<exists>ps. phasesOf (handleAll cfg bodies x) = phasesOf x @ ps \<and>
      set ps \<subseteq> {''PHASE_RECEIVED'', ''PHASE_PULLED'', ''PHASE_FAILED''} \<and>
      count_list ps ''PHASE_FAILED'' = length bodies)"
  using assms(2,3)
proof (induction bodies arbitrary: x)
  case Nil
  then show ?case by (simp add: handleAll_def)
next
  case (Cons b bs)
  have b: "isForward b" "list_all isForward bs" using Cons.prems(2) by simp_all
  note step = wedged_forward [OF assms(1) Cons.prems(1) b(1)]
  then obtain ps where ps: "phasesOf (handle cfg b x) = phasesOf x @ ps @ [''PHASE_FAILED'']"
      "set ps \<subseteq> {''PHASE_RECEIVED'', ''PHASE_PULLED''}" by blast
  have none: "count_list ps ''PHASE_FAILED'' = 0" using ps(2) by (auto simp: count_list_0_iff)
  have "view (ex_engine (handle cfg b x)) (tmpName (ec_Docker cfg)) \<noteq> None"
    using step Cons.prems(1) by simp
  from Cons.IH [OF this b(2)] obtain qs where
    qs: "view (ex_engine (handleAll cfg bs (handle cfg b x))) = view (ex_engine (handle cfg b x))"
      "phasesOf (handleAll cfg bs (handle cfg b x)) = phasesOf (handle cfg b x) @ qs"
      "set qs \<subseteq> {''PHASE_RECEIVED'', ''PHASE_PULLED'', ''PHASE_FAILED''}"
      "count_list qs ''PHASE_FAILED'' = length bs" by blast
  have unfold: "handleAll cfg (b # bs) x = handleAll cfg bs (handle cfg b x)"
    by (simp add: handleAll_def)
  show ?case
    unfolding unfold using qs ps step none
    by (intro conjI exI [of _ "ps @ [''PHASE_FAILED''] @ qs"]) (auto simp: count_list_append)
qed

text \<open>
  When a forward command failed at the pull, the rollback that follows replaces the running
  container by the image that was remembered from an earlier swap.
\<close>

theorem rollback_after_failed_pull:
  assumes "agent_laws resolve view cfg"
    and "unmarshalCommand b1 = Inr fwd" and "cmd_Action fwd \<noteq> CmdRollback"
    and "forwardOutcome cfg fwd (ex_engine x) = PullFailed"
    and "unmarshalCommand b2 = Inr back" and "cmd_Action back = CmdRollback"
    and "fst (Rollback (ec_runner cfg) (ec_Docker cfg) (ex_lastSuccessDigest x)
           (ex_engine (handle cfg b1 x))) = None"
  shows "view (ex_engine (handleAll cfg [b1, b2] x)) =
      (view (ex_engine x))(canonical cfg \<mapsto> resolve (ex_lastSuccessDigest x))"
proof -
  let ?y = "handle cfg b1 x"
  have y: "view (ex_engine ?y) = view (ex_engine x)" "ex_lastSuccessDigest ?y = ex_lastSuccessDigest x"
    using assms(4) Pull_view [OF assms(1)]
    by (auto simp: handle_forward [OF assms(2,3)] runForward_engine Let_def)
      (auto simp: forwardOutcome_def runForward_def Let_def split: prod.splits option.splits if_splits)
  obtain s where roll: "Rollback (ec_runner cfg) (ec_Docker cfg) (ex_lastSuccessDigest x) (ex_engine ?y) = (None, s)"
    using assms(7) by (cases "Rollback (ec_runner cfg) (ec_Docker cfg) (ex_lastSuccessDigest x) (ex_engine ?y)") auto
  have "ex_engine (handle cfg b2 ?y) = s"
    using roll y(2) by (simp add: handle_rollback [OF assms(5,6)] runRollback_def)
  then show ?thesis using Rollback_view [OF assms(1) roll] y(1) by (simp add: handleAll_def)
qed

section \<open>Witnesses\<close>

text \<open>
  A robot on the demonstration engine: \<^verbatim>\<open>gone\<close> cannot be pulled, \<^verbatim>\<open>stuck\<close> is created and does
  not start.
\<close>

definition demoConfig :: "(string \<Rightarrow> string option) executorConfig" where
  "demoConfig = \<lparr>ec_RobotID = ''r1'', ec_Docker = demoCLI,
     ec_runner = demoEngine [''gone''] [''stuck''] [], ec_clock = (\<lambda>n. ''2026-01-01T00:00:00Z'')\<rparr>"

definition demoCommand :: "string \<Rightarrow> string \<Rightarrow> string \<Rightarrow> command" where
  "demoCommand action img smoke = \<lparr>cmd_RolloutID = ''ro'', cmd_RobotID = ''r1'', cmd_Action = action,
     cmd_Reason = '''', cmd_ImageRef = img, cmd_ImageDigest = '''', cmd_SmokeTimeoutSec = 0,
     cmd_SmokeCommand = smoke, cmd_Force = False\<rparr>"

definition demoBody :: "string \<Rightarrow> string \<Rightarrow> string \<Rightarrow> body" where
  "demoBody action img smoke =
     Some (JObj [(''rollout_id'', JStr ''ro''), (''robot_id'', JStr ''r1''), (''action'', JStr action),
       (''image_ref'', JStr img), (''smoke_command'', JStr smoke)])"

definition demoStart :: "(string \<Rightarrow> string option) executor" where
  "demoStart = \<lparr>ex_engine = [''robot-app'' \<mapsto> ''app:1''], ex_lastSuccessDigest = '''', ex_published = []\<rparr>"

lemma demo_laws: "agent_laws demoImage demoView demoConfig"
  by (simp add: demoConfig_def demoEngine_laws)

theorem healthy_installs_image_witness:
  "demoView (ex_engine (handle demoConfig (demoBody '''' ''app:2'' ''true'') demoStart)) =
     (demoView (ex_engine demoStart))(canonical demoConfig \<mapsto> demoImage ''app:2'')"
proof -
  have 1: "unmarshalCommand (demoBody '''' ''app:2'' ''true'') = Inr (demoCommand '''' ''app:2'' ''true'')"
    by code_simp
  have 2: "cmd_Action (demoCommand '''' ''app:2'' ''true'') \<noteq> CmdRollback" by code_simp
  have 3: "last (phasesOf (handle demoConfig (demoBody '''' ''app:2'' ''true'') demoStart)) = ''PHASE_HEALTHY''"
    by code_simp
  from healthy_installs_image [OF demo_laws 1 2 3] show ?thesis by (simp add: demoCommand_def)
qed

theorem self_rollback_restores_witness:
  "demoView (ex_engine (handle demoConfig (demoBody '''' ''app:2'' ''false'') demoStart)) =
     demoView (ex_engine demoStart)"
proof -
  let ?cmd = "demoCommand '''' ''app:2'' ''false''"
  let ?swap = "Swap (ec_runner demoConfig) (ec_Docker demoConfig) (cmd_ImageRef ?cmd)
      (snd (Pull (ec_runner demoConfig) (ec_Docker demoConfig) (cmd_ImageRef ?cmd) (ex_engine demoStart)))"
  have 1: "unmarshalCommand (demoBody '''' ''app:2'' ''false'') = Inr ?cmd" by code_simp
  have 2: "cmd_Action ?cmd \<noteq> CmdRollback" by code_simp
  have 3: "forwardOutcome demoConfig ?cmd (ex_engine demoStart) = SmokeFailed" by code_simp
  have 4: "fst ?swap = (''app:1'', None)" by code_simp
  have 5: "fst (Rollback (ec_runner demoConfig) (ec_Docker demoConfig) ''app:1''
      (snd (Exec (ec_runner demoConfig) (smokeLimit ?cmd) (ec_Docker demoConfig) (cmd_SmokeCommand ?cmd)
        (snd ?swap)))) = None" by code_simp
  have 6: "?swap = ((''app:1'', None), snd ?swap)" using 4 by (metis prod.collapse)
  from self_rollback_restores [OF demo_laws 1 2 3 6 5] show ?thesis by simp
qed

text \<open>The leftover container comes from a command whose image is created and does not start.\<close>

definition demoWedged :: "(string \<Rightarrow> string option) executor" where
  "demoWedged = handle demoConfig (demoBody '''' ''stuck'' '''') demoStart"

theorem leftover_blocks_updates_witness:
  "demoView (ex_engine (handleAll demoConfig [demoBody '''' ''app:2'' '''', demoBody '''' ''app:3'' '''']
     demoWedged)) = demoView (ex_engine demoWedged) \<and>
   demoView (ex_engine demoWedged) ''robot-app'' = Some ''app:1''"
proof -
  have 1: "demoView (ex_engine demoWedged) (tmpName (ec_Docker demoConfig)) \<noteq> None" by code_simp
  have 2: "list_all isForward [demoBody '''' ''app:2'' '''', demoBody '''' ''app:3'' '''']" by code_simp
  have 3: "demoView (ex_engine demoWedged) ''robot-app'' = Some ''app:1''" by code_simp
  from leftover_blocks_updates [OF demo_laws 1 2] 3 show ?thesis by simp
qed

text \<open>A robot that runs version 2 and remembers version 1 from before.\<close>

definition demoUpdated :: "(string \<Rightarrow> string option) executor" where
  "demoUpdated = handle demoConfig (demoBody '''' ''app:2'' '''') demoStart"

theorem rollback_after_failed_pull_witness:
  "demoView (ex_engine demoUpdated) ''robot-app'' = Some ''app:2'' \<and>
   demoView (ex_engine (handleAll demoConfig [demoBody '''' ''gone'' '''', demoBody ''rollback'' '''' '''']
     demoUpdated)) ''robot-app'' = Some ''app:1''"
proof -
  have 1: "unmarshalCommand (demoBody '''' ''gone'' '''') = Inr (demoCommand '''' ''gone'' '''')" by code_simp
  have 2: "cmd_Action (demoCommand '''' ''gone'' '''') \<noteq> CmdRollback" by code_simp
  have 3: "forwardOutcome demoConfig (demoCommand '''' ''gone'' '''') (ex_engine demoUpdated) = PullFailed"
    by code_simp
  have 4: "unmarshalCommand (demoBody ''rollback'' '''' '''') = Inr (demoCommand ''rollback'' '''' '''')"
    by code_simp
  have 5: "cmd_Action (demoCommand ''rollback'' '''' '''') = CmdRollback" by code_simp
  have 6: "fst (Rollback (ec_runner demoConfig) (ec_Docker demoConfig) (ex_lastSuccessDigest demoUpdated)
      (ex_engine (handle demoConfig (demoBody '''' ''gone'' '''') demoUpdated))) = None" by code_simp
  have 7: "canonical demoConfig = ''robot-app''"
    "demoImage (ex_lastSuccessDigest demoUpdated) = ''app:1''" by code_simp+
  have 8: "demoView (ex_engine demoUpdated) ''robot-app'' = Some ''app:2''" by code_simp
  from rollback_after_failed_pull [OF demo_laws 1 2 3 4 5 6] show ?thesis
    unfolding 7 using 8 by (auto simp: fun_eq_iff)
qed

end
