(* ===== verification/AgentConcurrent.thy ===== *)
theory AgentConcurrent
  imports Tasks AgentOta
begin

text \<open>
  The OTA executor with the goroutines it starts: \<^verbatim>\<open>Start\<close> hands every message to
  \<^verbatim>\<open>go e.handle(ctx, msg)\<close> (\<^verbatim>\<open>agent/internal/ota/executor.go\<close>), so two commands that
  come close together run side by side on the same containers.  Here the operations of
  \<open>Docker\<close> and \<open>AgentOta\<close> are written as tasks, one step per engine command, per ack
  and per access to the remembered digest.  Alone, a task does what the sequential definition does;
  the rest of the theory is about what interleaving changes.
\<close>

section \<open>The handler as a task\<close>

definition engineStep :: "('s \<Rightarrow> 'r \<times> 's) \<Rightarrow> ('r \<Rightarrow> 's executor task) \<Rightarrow> 's executor task" where
  "engineStep cmd k = Step (\<lambda>x. case cmd (ex_engine x) of (r, s) \<Rightarrow> (x\<lparr>ex_engine := s\<rparr>, k r))"

definition ackStep ::
  "'s executorConfig \<Rightarrow> command \<Rightarrow> string \<Rightarrow> string \<Rightarrow> 's executor task \<Rightarrow> 's executor task" where
  "ackStep cfg cmd phase detail t = Step (\<lambda>x. (publishAck cfg cmd phase detail x, t))"

definition recordPrevStep :: "string \<Rightarrow> 's executor task \<Rightarrow> 's executor task" where
  "recordPrevStep d t = Step (\<lambda>x. (recordPrev d x, t))"

definition readPrevStep :: "(string \<Rightarrow> 's executor task) \<Rightarrow> 's executor task" where
  "readPrevStep k = Step (\<lambda>x. (x, k (ex_lastSuccessDigest x)))"

definition SwapSteps ::
  "'s runner \<Rightarrow> dockerCLI \<Rightarrow> string \<Rightarrow> (string \<times> go_error option \<Rightarrow> 's executor task) \<Rightarrow> 's executor task" where
  "SwapSteps rn d ref k =
     engineStep (CurrentDigest rn d) (\<lambda>cur. let prevDigest = outputOr cur in
     engineStep (runCmd rn None (d_bin d) (runArgs d (tmpName d) ref)) (\<lambda>r.
       case r of Some err \<Rightarrow> k ('''', Some (errorf (d_bin d @ '' run new'') err)) | None \<Rightarrow>
     engineStep (capture rn None (d_bin d) (inspectStatus (tmpName d))) (\<lambda>st. let state = outputOr st in
       if trimSpace state \<noteq> ''running'' then
         engineStep (runCmd rn None (d_bin d) (rmArgs (tmpName d)))
           (\<lambda>_. k (prevDigest, Some (GoError (''new container not running (state='' @ state @ '')''))))
       else
     engineStep (runCmd rn None (d_bin d) (rmArgs (d_ContainerName d))) (\<lambda>_.
     engineStep (runCmd rn None (d_bin d) (renameArgs (tmpName d) (d_ContainerName d))) (\<lambda>r.
       case r of
         Some err \<Rightarrow>
           engineStep (runCmd rn None (d_bin d) (rmArgs (tmpName d)))
             (\<lambda>_. k (prevDigest, Some (errorf (d_bin d @ '' rename'') err)))
       | None \<Rightarrow> k (prevDigest, None))))))"

definition RollbackSteps ::
  "'s runner \<Rightarrow> dockerCLI \<Rightarrow> string \<Rightarrow> (go_error option \<Rightarrow> 's executor task) \<Rightarrow> 's executor task" where
  "RollbackSteps rn d prevDigest k =
     (if prevDigest = '''' then k (Some (GoError ''no previous digest to roll back to''))
      else
        engineStep (runCmd rn None (d_bin d) (rmArgs (d_ContainerName d))) (\<lambda>_.
        engineStep (runCmd rn None (d_bin d) (runArgs d (d_ContainerName d) prevDigest)) k))"

definition runForwardSteps :: "'s executorConfig \<Rightarrow> command \<Rightarrow> 's executor task" where
  "runForwardSteps cfg cmd =
     (let rn = ec_runner cfg; d = ec_Docker cfg in
      if cmd_ImageRef cmd = '''' then ackStep cfg cmd ''PHASE_FAILED'' ''image_ref empty'' Stop
      else
        engineStep (Pull rn d (cmd_ImageRef cmd)) (\<lambda>r. case r of
          Some err \<Rightarrow> ackStep cfg cmd ''PHASE_FAILED'' (''pull: '' @ error_text err) Stop
        | None \<Rightarrow>
        ackStep cfg cmd ''PHASE_PULLED'' ''''
        (SwapSteps rn d (cmd_ImageRef cmd) (\<lambda>(prev, e). case e of
          Some err \<Rightarrow> ackStep cfg cmd ''PHASE_FAILED'' (''swap: '' @ error_text err) Stop
        | None \<Rightarrow>
        recordPrevStep prev
        (ackStep cfg cmd ''PHASE_SWAPPED'' ''''
        (engineStep (Exec rn (smokeLimit cmd) d (cmd_SmokeCommand cmd)) (\<lambda>r. case r of
          Some err \<Rightarrow>
            RollbackSteps rn d prev (\<lambda>_.
            ackStep cfg cmd ''PHASE_FAILED'' (''smoke: '' @ error_text err)
            (ackStep cfg cmd ''PHASE_ROLLED_BACK'' ''self-rollback after smoke failure'' Stop))
        | None \<Rightarrow> ackStep cfg cmd ''PHASE_HEALTHY'' '''' Stop)))))))"

definition runRollbackSteps :: "'s executorConfig \<Rightarrow> command \<Rightarrow> 's executor task" where
  "runRollbackSteps cfg cmd =
     readPrevStep (\<lambda>prev. RollbackSteps (ec_runner cfg) (ec_Docker cfg) prev (\<lambda>r. case r of
        Some err \<Rightarrow> ackStep cfg cmd ''PHASE_ROLLED_BACK'' (''rollback failed: '' @ error_text err) Stop
      | None \<Rightarrow> ackStep cfg cmd ''PHASE_ROLLED_BACK'' '''' Stop))"

definition handleSteps :: "'s executorConfig \<Rightarrow> body \<Rightarrow> 's executor task" where
  "handleSteps cfg body =
     (case unmarshalCommand body of
        Inl err \<Rightarrow> Stop
      | Inr cmd \<Rightarrow>
          ackStep cfg cmd ''PHASE_RECEIVED'' ''''
            (if cmd_Action cmd = CmdRollback then runRollbackSteps cfg cmd else runForwardSteps cfg cmd))"

text \<open>The callback of the subscription: one goroutine per message.\<close>

definition handleAllSteps :: "'s executorConfig \<Rightarrow> body list \<Rightarrow> 's executor task list" where
  "handleAllSteps cfg bodies = map (handleSteps cfg) bodies"

lemmas steps_defs = engineStep_def ackStep_def recordPrevStep_def readPrevStep_def

section \<open>Alone, a task is the sequential handler\<close>

lemma alone_engineStep [simp]:
  "runAlone (engineStep cmd k) x = (case cmd (ex_engine x) of (r, s) \<Rightarrow> runAlone (k r) (x\<lparr>ex_engine := s\<rparr>))"
  by (simp add: engineStep_def runAlone_Step case_prod_beta)

lemma alone_ackStep [simp]: "runAlone (ackStep cfg cmd ph dt t) x = runAlone t (publishAck cfg cmd ph dt x)"
  by (simp add: ackStep_def runAlone_Step)

lemma alone_recordPrevStep [simp]: "runAlone (recordPrevStep d t) x = runAlone t (recordPrev d x)"
  by (simp add: recordPrevStep_def runAlone_Step)

lemma alone_readPrevStep [simp]: "runAlone (readPrevStep k) x = runAlone (k (ex_lastSuccessDigest x)) x"
  by (simp add: readPrevStep_def runAlone_Step)

lemma alone_Swap [simp]:
  "runAlone (SwapSteps rn d ref k) x =
     (case Swap rn d ref (ex_engine x) of (r, s) \<Rightarrow> runAlone (k r) (x\<lparr>ex_engine := s\<rparr>))"
  by (auto simp: SwapSteps_def Swap_def Let_def split: prod.splits option.splits)

lemma alone_Rollback [simp]:
  "runAlone (RollbackSteps rn d prev k) x =
     (case Rollback rn d prev (ex_engine x) of (r, s) \<Rightarrow> runAlone (k r) (x\<lparr>ex_engine := s\<rparr>))"
  by (auto simp: RollbackSteps_def Rollback_def split: prod.splits)

lemma alone_runForward: "runAlone (runForwardSteps cfg cmd) x = runForward cfg cmd x"
  by (auto simp: runForwardSteps_def runForward_def Let_def split: prod.splits option.splits)

lemma alone_runRollback: "runAlone (runRollbackSteps cfg cmd) x = runRollback cfg cmd x"
  by (auto simp: runRollbackSteps_def runRollback_def split: prod.splits option.splits)

lemma alone_handle: "runAlone (handleSteps cfg body) x = handle cfg body x"
  by (simp add: handleSteps_def handle_def alone_runForward alone_runRollback Let_def split: sum.split)

text \<open>Handling the commands one after the other is one of the interleavings.\<close>

lemma alone_all: "fold runAlone (map (handleSteps cfg) bodies) x = handleAll cfg bodies x"
  by (induction bodies arbitrary: x) (simp_all add: handleAll_def alone_handle)

text \<open>
  The goroutines implement the sequential executor: alone, the task of a command does exactly
  what \<open>handle\<close> does, and among the interleavings of any commands there is the one that handles them
  in order.
\<close>

theorem goroutines_refine_handle:
  "runAlone (handleSteps cfg body) x = handle cfg body x \<and>
   (\<exists>steps. interleaved (handleAllSteps cfg bodies) x steps (map (\<lambda>_. Stop) bodies) (handleAll cfg bodies x))"
  using alone_handle sequential_interleaved [of "map (handleSteps cfg) bodies" x]
  by (simp add: handleAllSteps_def alone_all comp_def)

section \<open>What all interleavings keep\<close>

text \<open>Every step stays within a relation that the engine commands and the executor's own steps respect.\<close>

definition commandKeeps :: "('s executor \<Rightarrow> 's executor \<Rightarrow> bool) \<Rightarrow> ('s \<Rightarrow> 'r \<times> 's) \<Rightarrow> bool" where
  "commandKeeps G cmd \<longleftrightarrow> (\<forall>x. G x (x\<lparr>ex_engine := snd (cmd (ex_engine x))\<rparr>))"

lemma keeps_engineStep: "commandKeeps G cmd \<Longrightarrow> (\<And>r. keeps G (k r)) \<Longrightarrow> keeps G (engineStep cmd k)"
  by (auto simp: engineStep_def commandKeeps_def case_prod_beta intro!: keeps_Step)

lemma keeps_ackStep: "(\<And>x. G x (publishAck cfg cmd ph dt x)) \<Longrightarrow> keeps G t \<Longrightarrow> keeps G (ackStep cfg cmd ph dt t)"
  by (auto simp: ackStep_def intro!: keeps_Step)

lemma keeps_recordPrevStep: "(\<And>x. G x (recordPrev d x)) \<Longrightarrow> keeps G t \<Longrightarrow> keeps G (recordPrevStep d t)"
  by (auto simp: recordPrevStep_def intro!: keeps_Step)

lemma keeps_readPrevStep: "(\<And>x. G x x) \<Longrightarrow> (\<And>d. keeps G (k d)) \<Longrightarrow> keeps G (readPrevStep k)"
  by (auto simp: readPrevStep_def intro!: keeps_Step)

lemmas keeps_steps = keeps_engineStep keeps_recordPrevStep keeps_readPrevStep keeps_Stop

text \<open>The engine commands the executor issues.\<close>

definition commandsKeep :: "'s executorConfig \<Rightarrow> ('s executor \<Rightarrow> 's executor \<Rightarrow> bool) \<Rightarrow> bool" where
  "commandsKeep cfg G \<longleftrightarrow>
     (let rn = ec_runner cfg; d = ec_Docker cfg in
      commandKeeps G (CurrentDigest rn d) \<and>
      (\<forall>ref. commandKeeps G (Pull rn d ref)) \<and> (\<forall>ctx c. commandKeeps G (Exec rn ctx d c)) \<and>
      commandKeeps G (capture rn None (d_bin d) (inspectStatus (tmpName d))) \<and>
      commandKeeps G (runCmd rn None (d_bin d) (renameArgs (tmpName d) (d_ContainerName d))) \<and>
      (\<forall>n \<in> {d_ContainerName d, tmpName d}. commandKeeps G (runCmd rn None (d_bin d) (rmArgs n)) \<and>
        (\<forall>ref. commandKeeps G (runCmd rn None (d_bin d) (runArgs d n ref)))))"

lemma ack_phase_names:
  "''PHASE_RECEIVED'' \<in> range Phase_name" "''PHASE_PULLED'' \<in> range Phase_name"
  "''PHASE_SWAPPED'' \<in> range Phase_name" "''PHASE_HEALTHY'' \<in> range Phase_name"
  "''PHASE_FAILED'' \<in> range Phase_name" "''PHASE_ROLLED_BACK'' \<in> range Phase_name"
  using Phase_name.simps rangeI by metis+

lemma handleSteps_keeps:
  assumes "commandsKeep cfg G" and "\<And>x. G x x" and "\<And>d x. G x (recordPrev d x)"
    and "\<And>cmd ph dt x. unmarshalCommand body = Inr cmd \<Longrightarrow> ph \<in> range Phase_name \<Longrightarrow>
      G x (publishAck cfg cmd ph dt x)"
  shows "keeps G (handleSteps cfg body)"
proof -
  note cmds = assms(1) [unfolded commandsKeep_def Let_def]
  have roll: "(\<And>r. keeps G (k r)) \<Longrightarrow> keeps G (RollbackSteps (ec_runner cfg) (ec_Docker cfg) prev k)" for prev k
    using cmds by (auto simp: RollbackSteps_def intro!: keeps_steps)
  have swap: "(\<And>r. keeps G (k r)) \<Longrightarrow> keeps G (SwapSteps (ec_runner cfg) (ec_Docker cfg) ref k)" for ref k
    using cmds by (auto simp: SwapSteps_def Let_def intro!: keeps_steps split: option.split)
  have ack: "keeps G (ackStep cfg cmd ph dt t)"
    if "unmarshalCommand body = Inr cmd" "ph \<in> range Phase_name" "keeps G t" for cmd ph dt t
    by (rule keeps_ackStep [OF assms(4) [OF that(1,2)] that(3)])
  show ?thesis
    using cmds assms(2,3)
    by (auto simp: handleSteps_def runRollbackSteps_def runForwardSteps_def Let_def
        intro!: ack keeps_steps roll swap ack_phase_names
        split: sum.split option.split)
qed

text \<open>
  The containers of other names stay as they are, and published messages stay published; every new
  one is a message on the robot's ack topic at QoS 1.
\<close>

definition confined :: "('s \<Rightarrow> string \<Rightarrow> string option) \<Rightarrow> 's executorConfig \<Rightarrow> 's executor \<Rightarrow> 's executor \<Rightarrow> bool" where
  "confined view cfg x y \<longleftrightarrow>
     (\<forall>n. n \<noteq> canonical cfg \<longrightarrow> n \<noteq> tmpName (ec_Docker cfg) \<longrightarrow> view (ex_engine y) n = view (ex_engine x) n) \<and>
     (\<exists>ms. ex_published y = ex_published x @ ms \<and>
       (\<forall>(topic, qos, body) \<in> set ms. topic = ackOtaTopic (ec_RobotID cfg) \<and> qos = 1))"

interpretation confined: guarantee "confined view cfg"
  by unfold_locales (fastforce simp: confined_def)+

lemma confined_command:
  "(\<And>s n. n \<noteq> canonical cfg \<Longrightarrow> n \<noteq> tmpName (ec_Docker cfg) \<Longrightarrow> view (snd (cmd s)) n = view s n) \<Longrightarrow>
     commandKeeps (confined view cfg) cmd"
  by (simp add: commandKeeps_def confined_def)

lemma commands_confined:
  assumes laws: "agent_laws resolve view cfg"
  shows "commandsKeep cfg (confined view cfg)"
proof -
  let ?rn = "ec_runner cfg" and ?d = "ec_Docker cfg"
  have run: "view (snd (runCmd ?rn ctx (d_bin ?d) (runArgs ?d m ref) s)) n = view s n"
    if "n \<noteq> m" for ctx m ref s n
    using run_ok [OF laws, of ctx m ref s] run_error [OF laws, of ctx m ref s] that
    by (cases "runCmd ?rn ctx (d_bin ?d) (runArgs ?d m ref) s"; cases "fst (runCmd ?rn ctx (d_bin ?d) (runArgs ?d m ref) s)") auto
  have rm: "view (snd (runCmd ?rn ctx (d_bin ?d) (rmArgs m) s)) n = view s n" if "n \<noteq> m" for ctx m s n
    using rm_view [OF laws, of ctx m s] that by (cases "runCmd ?rn ctx (d_bin ?d) (rmArgs m) s") auto
  have rename: "view (snd (runCmd ?rn ctx (d_bin ?d) (renameArgs a b) s)) n = view s n"
    if "n \<noteq> a" "n \<noteq> b" for ctx a b s n
    using rename_view [OF laws, of ctx a b s] that
    by (cases "runCmd ?rn ctx (d_bin ?d) (renameArgs a b) s") (auto split: if_splits)
  have digest: "view (snd (CurrentDigest ?rn ?d s)) = view s" for s
    using CurrentDigest_view [OF laws, of s] by (cases "CurrentDigest ?rn ?d s") auto
  have status: "view (snd (capture ?rn ctx (d_bin ?d) (inspectStatus m) s)) = view s" for ctx m s
    using status_view [OF laws, of ctx m s] by (cases "capture ?rn ctx (d_bin ?d) (inspectStatus m) s") auto
  show ?thesis
    unfolding commandsKeep_def Let_def
    by (auto intro!: confined_command simp: run rm rename digest status Pull_view [OF laws] Exec_view [OF laws])
qed

lemma handleSteps_confined:
  assumes "agent_laws resolve view cfg"
  shows "keeps (confined view cfg) (handleSteps cfg body)"
  using commands_confined [OF assms]
  by (rule handleSteps_keeps) (auto simp: confined_def publishAck_def recordPrev_def)

text \<open>
  C13: however the goroutines of any number of commands interleave, they touch no container but the
  application's and the temporary one, withdraw no ack, and publish to the robot's own ack topic
  only.
\<close>

theorem interleavings_stay_within:
  assumes "agent_laws resolve view cfg"
    and "interleaved (handleAllSteps cfg bodies) x steps us y"
  shows "(\<forall>n. n \<noteq> canonical cfg \<longrightarrow> n \<noteq> tmpName (ec_Docker cfg) \<longrightarrow> view (ex_engine y) n = view (ex_engine x) n) \<and>
    (\<exists>ms. ex_published y = ex_published x @ ms \<and>
      (\<forall>(topic, qos, body) \<in> set ms. topic = ackOtaTopic (ec_RobotID cfg) \<and> qos = 1))"
  using confined.kept [OF assms(2), of view cfg] handleSteps_confined [OF assms(1)]
  unfolding handleAllSteps_def confined_def by simp

section \<open>The acks of each command\<close>

definition newPhases :: "'s executor \<Rightarrow> 's executor \<Rightarrow> string list" where
  "newPhases x y = drop (length (phasesOf x)) (phasesOf y)"

definition ownPhases :: "nat \<Rightarrow> 's executor turns \<Rightarrow> string list" where
  "ownPhases i steps = concat (map (\<lambda>(j, y, z). if j = i then newPhases y z else []) steps)"

abbreviation finalPhases :: "otaPhase set" where
  "finalPhases \<equiv> {PHASE_HEALTHY, PHASE_FAILED, PHASE_ROLLED_BACK}"

text \<open>A task whose acks rise above a phase and end in a final one, in whatever states it steps.\<close>

inductive rising :: "otaPhase \<Rightarrow> 's executor task \<Rightarrow> bool" where
  over: "p \<in> finalPhases \<Longrightarrow> rising p Stop"
| quiet: "(\<And>x. newPhases x (fst (f x)) = [] \<and> rising p (snd (f x))) \<Longrightarrow> rising p (Step f)"
| answer: "p < q \<Longrightarrow> (\<And>x. newPhases x (fst (f x)) = [Phase_name q] \<and> rising q (snd (f x))) \<Longrightarrow>
    rising p (Step f)"

inductive_cases rising_StopE: "rising p Stop"
inductive_cases rising_StepE: "rising p (Step f)"

lemma rising_engineStep: "(\<And>r. rising p (k r)) \<Longrightarrow> rising p (engineStep cmd k)"
  by (auto simp: engineStep_def newPhases_def case_prod_beta intro!: quiet)

lemma rising_recordPrevStep: "rising p t \<Longrightarrow> rising p (recordPrevStep d t)"
  by (auto simp: recordPrevStep_def newPhases_def intro!: quiet)

lemma rising_readPrevStep: "(\<And>d. rising p (k d)) \<Longrightarrow> rising p (readPrevStep k)"
  by (auto simp: readPrevStep_def newPhases_def intro!: quiet)

lemma rising_ackStep: "p < q \<Longrightarrow> rising q t \<Longrightarrow> rising p (ackStep cfg cmd (Phase_name q) dt t)"
  by (auto simp: ackStep_def newPhases_def intro!: answer)

lemmas rising_acks =
  rising_ackStep [where q = PHASE_RECEIVED, unfolded Phase_name.simps]
  rising_ackStep [where q = PHASE_PULLED, unfolded Phase_name.simps]
  rising_ackStep [where q = PHASE_SWAPPED, unfolded Phase_name.simps]
  rising_ackStep [where q = PHASE_HEALTHY, unfolded Phase_name.simps]
  rising_ackStep [where q = PHASE_FAILED, unfolded Phase_name.simps]
  rising_ackStep [where q = PHASE_ROLLED_BACK, unfolded Phase_name.simps]

lemmas rising_steps = rising_engineStep rising_recordPrevStep rising_readPrevStep over rising_acks

lemma rising_Swap: "(\<And>r. rising p (k r)) \<Longrightarrow> rising p (SwapSteps rn d ref k)"
  by (auto simp: SwapSteps_def Let_def intro!: rising_engineStep split: option.split)

lemma rising_Rollback: "(\<And>r. rising p (k r)) \<Longrightarrow> rising p (RollbackSteps rn d prev k)"
  by (auto simp: RollbackSteps_def intro!: rising_engineStep)

lemma handleSteps_rising:
  assumes "unmarshalCommand body = Inr cmd"
  shows "rising PHASE_UNKNOWN (handleSteps cfg body)"
  using assms
  by (auto simp: handleSteps_def runRollbackSteps_def runForwardSteps_def Let_def less_otaPhase_def
      intro!: rising_steps rising_Swap rising_Rollback split: option.split)

lemma ownPhases_step [simp]:
  "ownPhases i (steps @ [(j, y, z)]) = ownPhases i steps @ (if j = i then newPhases y z else [])"
  by (simp add: ownPhases_def)

lemma strictly_sorted_last: "sorted_wrt (<) (xs :: otaPhase list) \<Longrightarrow> r \<in> set xs \<Longrightarrow> r \<le> last xs"
  by (induction xs) (auto simp: less_imp_le dest: order.strict_trans2)

lemma rising_run:
  assumes "interleaved ts x steps us y" and "i < length ts" and "rising p (ts ! i)"
  shows "\<exists>phs. ownPhases i steps = map Phase_name phs \<and> sorted_wrt (<) (p # phs) \<and>
    rising (last (p # phs)) (us ! i)"
  using assms(1)
proof (induction rule: interleaved.induct)
  case begun
  then show ?case using assms(3) by (intro exI [of _ "[]"]) (simp add: ownPhases_def)
next
  case (turn steps us y j f z t)
  then obtain phs where phs: "ownPhases i steps = map Phase_name phs" "sorted_wrt (<) (p # phs)"
      "rising (last (p # phs)) (us ! i)" by blast
  show ?case
  proof (cases "j = i")
    case False
    then show ?thesis using phs by (intro exI [of _ phs]) simp
  next
    case True
    then have r: "rising (last (p # phs)) (Step f)" using phs(3) turn.hyps(3) by simp
    have u: "us[j := t] ! i = t" using True turn.hyps(2) by simp
    have z: "fst (f y) = z" "snd (f y) = t" using turn.hyps(4) by simp_all
    from r have "newPhases y z = [] \<and> rising (last (p # phs)) t \<or>
        (\<exists>q. last (p # phs) < q \<and> newPhases y z = [Phase_name q] \<and> rising q t)"
      by (rule rising_StepE) (use z in blast)+
    then show ?thesis
    proof
      assume "newPhases y z = [] \<and> rising (last (p # phs)) t"
      then show ?thesis using phs(1,2) True u by (intro exI [of _ phs]) simp
    next
      assume "\<exists>q. last (p # phs) < q \<and> newPhases y z = [Phase_name q] \<and> rising q t"
      then obtain q where q: "last (p # phs) < q" "newPhases y z = [Phase_name q]" "rising q t" by blast
      have "\<forall>r \<in> set (p # phs). r \<le> last (p # phs)"
        using strictly_sorted_last [OF phs(2)] by blast
      then have "sorted_wrt (<) (p # phs @ [q])"
        using phs(2) q(1) by (auto simp: sorted_wrt_append)
      then show ?thesis using phs(1) q True u by (intro exI [of _ "phs @ [q]"]) simp
    qed
  qed
qed

text \<open>
  C20: in every interleaving of any commands, the acks of each command that can be decoded come in
  strictly increasing phases, and when its goroutine is over the last one is HEALTHY, FAILED or
  ROLLED_BACK.
\<close>

theorem interleaved_acks_rise:
  assumes "interleaved (handleAllSteps cfg bodies) x steps us y"
    and "i < length bodies" and "unmarshalCommand (bodies ! i) = Inr cmd"
  shows "\<exists>phs. ownPhases i steps = map Phase_name phs \<and> sorted_wrt (<) phs \<and>
    (us ! i = Stop \<longrightarrow> phs \<noteq> [] \<and> last phs \<in> finalPhases)"
proof -
  have "rising PHASE_UNKNOWN (handleAllSteps cfg bodies ! i)"
    using handleSteps_rising [OF assms(3)] assms(2) by (simp add: handleAllSteps_def)
  from rising_run [OF assms(1) _ this] assms(2) obtain phs where
    phs: "ownPhases i steps = map Phase_name phs" "sorted_wrt (<) (PHASE_UNKNOWN # phs)"
      "rising (last (PHASE_UNKNOWN # phs)) (us ! i)" by (auto simp: handleAllSteps_def)
  have "phs \<noteq> [] \<and> last phs \<in> finalPhases" if "us ! i = Stop"
    using phs(3) unfolding that by (auto elim!: rising_StopE split: if_splits)
  then show ?thesis using phs by auto
qed

section \<open>Every command is answered\<close>

lemma atMost_engineStep: "(\<And>r. atMost n (k r)) \<Longrightarrow> atMost (Suc n) (engineStep cmd k)"
  by (auto simp: engineStep_def case_prod_beta intro!: atMost_Step)

lemma atMost_ackStep: "atMost n t \<Longrightarrow> atMost (Suc n) (ackStep cfg cmd ph dt t)"
  by (auto simp: ackStep_def intro!: atMost_Step)

lemma atMost_recordPrevStep: "atMost n t \<Longrightarrow> atMost (Suc n) (recordPrevStep d t)"
  by (auto simp: recordPrevStep_def intro!: atMost_Step)

lemma atMost_readPrevStep: "(\<And>d. atMost n (k d)) \<Longrightarrow> atMost (Suc n) (readPrevStep k)"
  by (auto simp: readPrevStep_def intro!: atMost_Step)

lemmas atMost_steps = atMost_engineStep atMost_ackStep atMost_recordPrevStep atMost_readPrevStep atMost_Stop

text \<open>The turns a command can need: a message that is no command has none.\<close>

definition maxTurns :: "body \<Rightarrow> nat" where
  "maxTurns body =
     (case unmarshalCommand body of
        Inl err \<Rightarrow> 0
      | Inr cmd \<Rightarrow> if cmd_Action cmd = CmdRollback then 5 else if cmd_ImageRef cmd = '''' then 2 else 15)"

lemma handleSteps_atMost: "atMost (maxTurns body) (handleSteps cfg body)"
  by (auto simp: maxTurns_def handleSteps_def runRollbackSteps_def runForwardSteps_def SwapSteps_def RollbackSteps_def
      Let_def eval_nat_numeral intro!: atMost_steps split: sum.split option.split)

text \<open>
  C24: in every interleaving of any commands, a rollback takes at most five steps, a forward command
  at most fifteen (two without an image) and any other message none; and every schedule that gives
  each command that many turns, in whatever order, finishes all of them.
\<close>

theorem goroutines_finish:
  "(\<forall>steps us y. interleaved (handleAllSteps cfg bodies) x steps us y \<longrightarrow>
      (\<forall>i < length bodies. turnsOf i steps \<le> maxTurns (bodies ! i))) \<and>
   ((\<forall>i < length bodies. maxTurns (bodies ! i) \<le> count_list sched i) \<longrightarrow>
      list_all finished (fst (snd (runSchedule sched (handleAllSteps cfg bodies) x))))"
proof -
  have most: "atMost (maxTurns (bodies ! i)) (handleAllSteps cfg bodies ! i)" if "i < length bodies" for i
    using that handleSteps_atMost by (simp add: handleAllSteps_def)
  have len: "length (handleAllSteps cfg bodies) = length bodies" by (simp add: handleAllSteps_def)
  have "turnsOf i steps \<le> maxTurns (bodies ! i)"
    if "interleaved (handleAllSteps cfg bodies) x steps us y" "i < length bodies" for steps us y i
    using turnsOf_bound [OF that(1) _ most [OF that(2)]] that(2) len by fastforce
  moreover have "list_all finished (fst (snd (runSchedule sched (handleAllSteps cfg bodies) x)))"
    if "\<forall>i < length bodies. maxTurns (bodies ! i) \<le> count_list sched i"
    by (rule runSchedule_finishes) (use that most len atMost_mono in metis)
  ultimately show ?thesis by blast
qed

section \<open>Commands that overtake each other\<close>

lemma reaches_engineStep:
  "i < length ts \<Longrightarrow> ts ! i = engineStep cmd k \<Longrightarrow> cmd (ex_engine x) = (r, s) \<Longrightarrow>
     reaches (ts[i := k r]) (x\<lparr>ex_engine := s\<rparr>) us y \<Longrightarrow> reaches ts x us y"
  by (rule reaches_first [where f = "\<lambda>x. case cmd (ex_engine x) of (r, s) \<Rightarrow> (x\<lparr>ex_engine := s\<rparr>, k r)"])
    (simp_all add: engineStep_def)

lemma reaches_ackStep:
  "i < length ts \<Longrightarrow> ts ! i = ackStep cfg cmd ph dt t \<Longrightarrow>
     reaches (ts[i := t]) (publishAck cfg cmd ph dt x) us y \<Longrightarrow> reaches ts x us y"
  by (rule reaches_first [where f = "\<lambda>x. (publishAck cfg cmd ph dt x, t)"]) (simp_all add: ackStep_def)

lemma runRollback_forgotten:
  "ex_lastSuccessDigest x = '''' \<Longrightarrow> ex_engine (runRollback cfg cmd x) = ex_engine x"
  by (simp add: runRollback_def Rollback_def)

text \<open>
  C28: a rollback that comes while the update it is meant for is still pulling overtakes it.  On a
  robot that has not been updated before it finds no digest, answers ROLLED_BACK, and the update
  then goes on to install the new image: the last word is HEALTHY.
\<close>

theorem rollback_overtakes_update:
  assumes "agent_laws resolve view cfg"
    and "unmarshalCommand b1 = Inr fwd" and "cmd_Action fwd \<noteq> CmdRollback"
    and "unmarshalCommand b2 = Inr back" and "cmd_Action back = CmdRollback"
    and "ex_lastSuccessDigest x = ''''" and "forwardOutcome cfg fwd (ex_engine x) = Healthy"
  shows "\<exists>steps y. interleaved (handleAllSteps cfg [b1, b2]) x steps [Stop, Stop] y \<and>
    phasesOf y = phasesOf x @ [''PHASE_RECEIVED'', ''PHASE_RECEIVED'', ''PHASE_ROLLED_BACK'',
      ''PHASE_PULLED'', ''PHASE_SWAPPED'', ''PHASE_HEALTHY''] \<and>
    view (ex_engine y) = (view (ex_engine x))(canonical cfg \<mapsto> resolve (cmd_ImageRef fwd))"
proof -
  let ?x1 = "publishAck cfg fwd ''PHASE_RECEIVED'' '''' x"
  let ?x2 = "runRollback cfg back (publishAck cfg back ''PHASE_RECEIVED'' '''' ?x1)"
  let ?y = "runForward cfg fwd ?x2"
  have t: "handleSteps cfg b1 = ackStep cfg fwd ''PHASE_RECEIVED'' '''' (runForwardSteps cfg fwd)"
    using assms(2,3) by (simp add: handleSteps_def)
  have h2: "runAlone (handleSteps cfg b2) ?x1 = ?x2" by (simp add: alone_handle handle_rollback [OF assms(4,5)])
  have "reaches [runForwardSteps cfg fwd, handleSteps cfg b2] ?x1 [runForwardSteps cfg fwd, Stop] ?x2"
    using reaches_alone [of 1 "[runForwardSteps cfg fwd, handleSteps cfg b2]" ?x1] by (simp add: h2)
  moreover have "reaches [runForwardSteps cfg fwd, Stop] ?x2 [Stop, Stop] ?y"
    using reaches_alone [of 0 "[runForwardSteps cfg fwd, Stop]" ?x2] by (simp add: alone_runForward)
  ultimately have "reaches [runForwardSteps cfg fwd, handleSteps cfg b2] ?x1 [Stop, Stop] ?y"
    by (rule reaches_trans)
  then have "reaches ([handleSteps cfg b1, handleSteps cfg b2][0 := runForwardSteps cfg fwd]) ?x1 [Stop, Stop] ?y"
    by simp
  from reaches_ackStep [OF _ _ this]
  have run: "reaches (handleAllSteps cfg [b1, b2]) x [Stop, Stop] ?y"
    by (simp add: handleAllSteps_def t)
  have e: "ex_engine ?x2 = ex_engine x" using assms(6) by (simp add: runRollback_forgotten)
  obtain prev s2 where sw: "Swap (ec_runner cfg) (ec_Docker cfg) (cmd_ImageRef fwd)
      (snd (Pull (ec_runner cfg) (ec_Docker cfg) (cmd_ImageRef fwd) (ex_engine x))) = ((prev, None), s2)"
    using forwardOutcome_swapped [of cfg fwd "ex_engine x"] assms(7) by auto
  have "view (ex_engine ?y) = (view (ex_engine x))(canonical cfg \<mapsto> resolve (cmd_ImageRef fwd))"
    using Swap_success [OF assms(1) sw] Pull_view [OF assms(1)] Exec_view [OF assms(1)] assms(7) sw e
    by (simp add: runForward_engine Let_def)
  moreover have "phasesOf ?y = phasesOf x @ [''PHASE_RECEIVED'', ''PHASE_RECEIVED'', ''PHASE_ROLLED_BACK'',
      ''PHASE_PULLED'', ''PHASE_SWAPPED'', ''PHASE_HEALTHY'']"
    using e assms(7) by (simp add: runForward_phases runRollback_phases)
  ultimately show ?thesis using run unfolding reaches_def by blast
qed

text \<open>While one command swaps, another forward command fails and leaves the containers alone.\<close>

lemma busy_swap_fails:
  assumes "agent_laws resolve view cfg" and "i < length ts" and "ts ! i = handleSteps cfg body"
    and "view (ex_engine x) (tmpName (ec_Docker cfg)) \<noteq> None" and "isForward body"
  shows "\<exists>y ps. reaches ts x (ts[i := Stop]) y \<and> view (ex_engine y) = view (ex_engine x) \<and>
    phasesOf y = phasesOf x @ ps @ [''PHASE_FAILED''] \<and> set ps \<subseteq> {''PHASE_RECEIVED'', ''PHASE_PULLED''}"
  using wedged_forward [OF assms(1,4,5)] reaches_alone [OF assms(2), of x] assms(3)
  by (auto simp: alone_handle)

section \<open>Witnesses\<close>

text \<open>
  An update and a rollback on the demonstration robot; the rollback starts after the update's first
  step and is over before its second.
\<close>

definition demoPair :: "body list" where
  "demoPair = [demoBody '''' ''app:2'' ''true'', demoBody ''rollback'' '''' '''']"

definition demoSchedule :: "nat list" where
  "demoSchedule = [0, 1, 1, 1, 0, 0, 0, 0, 0, 0, 0, 0, 0, 0, 0]"

definition demoRun :: "(string \<Rightarrow> string option) executor turns \<times> (string \<Rightarrow> string option) executor task list
    \<times> (string \<Rightarrow> string option) executor" where
  "demoRun = runSchedule demoSchedule (handleAllSteps demoConfig demoPair) demoStart"

lemma demoRun_interleaved:
  "interleaved (handleAllSteps demoConfig demoPair) demoStart (fst demoRun) (fst (snd demoRun)) (snd (snd demoRun))"
  by (rule runSchedule_interleaved [of demoSchedule]) (simp add: demoRun_def)

lemma demoRun_finished: "list_all finished (fst (snd demoRun))"
  by code_simp

lemma demoRun_phases: "phasesOf (snd (snd demoRun)) = [''PHASE_RECEIVED'', ''PHASE_RECEIVED'', ''PHASE_ROLLED_BACK'',
    ''PHASE_PULLED'', ''PHASE_SWAPPED'', ''PHASE_HEALTHY'']"
  by code_simp

theorem interleavings_stay_within_witness:
  "demoView (ex_engine (snd (snd demoRun))) ''database'' = demoView (ex_engine demoStart) ''database''"
proof -
  have "''database'' \<noteq> canonical demoConfig" "''database'' \<noteq> tmpName (ec_Docker demoConfig)" by code_simp+
  with interleavings_stay_within [OF demo_laws demoRun_interleaved] show ?thesis by blast
qed

theorem interleaved_acks_rise_witness:
  "\<exists>phs. ownPhases 0 (fst demoRun) = map Phase_name phs \<and> sorted_wrt (<) phs \<and> phs \<noteq> [] \<and>
     last phs \<in> finalPhases"
proof -
  have 1: "(0::nat) < length demoPair" by (simp add: demoPair_def)
  have 2: "unmarshalCommand (demoPair ! 0) = Inr (demoCommand '''' ''app:2'' ''true'')" by code_simp
  have "0 < length (fst (snd demoRun))"
    using interleaved_length [OF demoRun_interleaved] by (simp add: handleAllSteps_def demoPair_def)
  then have "fst (snd demoRun) ! 0 = Stop"
    using demoRun_finished by (simp add: list_all_length finished_Stop)
  with interleaved_acks_rise [OF demoRun_interleaved 1 2] show ?thesis by blast
qed

text \<open>Whoever goes first, with fifteen turns for the update and five for the rollback both are over.\<close>

theorem goroutines_finish_witness:
  "turnsOf 0 (fst demoRun) \<le> 15 \<and> turnsOf 1 (fst demoRun) \<le> 5 \<and>
   list_all finished (fst (snd (runSchedule (replicate 5 1 @ replicate 15 0)
     (handleAllSteps demoConfig demoPair) demoStart)))"
proof -
  have turns: "map maxTurns demoPair = [15, 5]" by code_simp
  have len: "length demoPair = 2" by (simp add: demoPair_def)
  have 1: "maxTurns (demoPair ! 0) = 15" "maxTurns (demoPair ! 1) = 5"
    using turns len by (auto simp: demoPair_def)
  have count: "count_list (replicate n b) a = (if a = b then n else 0)" for n and a b :: nat
    by (cases "a = b"; induction n; simp)
  have 2: "\<forall>i < length demoPair. maxTurns (demoPair ! i) \<le> count_list (replicate 5 1 @ replicate 15 0) i"
    using 1 by (auto simp: len less_2_cases_iff count)
  note finish = goroutines_finish [of demoConfig demoPair demoStart "replicate 5 1 @ replicate 15 0"]
  have 3: "\<forall>i < length demoPair. turnsOf i (fst demoRun) \<le> maxTurns (demoPair ! i)"
    using conjunct1 [OF finish] demoRun_interleaved by blast
  have 4: "turnsOf 0 (fst demoRun) \<le> maxTurns (demoPair ! 0)" "turnsOf 1 (fst demoRun) \<le> maxTurns (demoPair ! 1)"
    using 3 by (simp_all add: len)
  from conjunct2 [OF finish] 2 have "list_all finished (fst (snd (runSchedule (replicate 5 1 @ replicate 15 0)
      (handleAllSteps demoConfig demoPair) demoStart)))" by blast
  with 4 1 show ?thesis by simp
qed

text \<open>Handled in order, the same two commands leave the old image running.\<close>

theorem rollback_overtakes_update_witness:
  "(\<exists>steps y. interleaved (handleAllSteps demoConfig demoPair) demoStart steps [Stop, Stop] y \<and>
      last (phasesOf y) = ''PHASE_HEALTHY'' \<and> demoView (ex_engine y) ''robot-app'' = Some ''app:2'') \<and>
   demoView (ex_engine (handleAll demoConfig demoPair demoStart)) ''robot-app'' = Some ''app:1''"
proof -
  have 1: "unmarshalCommand (demoBody '''' ''app:2'' ''true'') = Inr (demoCommand '''' ''app:2'' ''true'')"
    "unmarshalCommand (demoBody ''rollback'' '''' '''') = Inr (demoCommand ''rollback'' '''' '''')" by code_simp+
  have 2: "cmd_Action (demoCommand '''' ''app:2'' ''true'') \<noteq> CmdRollback"
    "cmd_Action (demoCommand ''rollback'' '''' '''') = CmdRollback" by code_simp+
  have 3: "ex_lastSuccessDigest demoStart = ''''" by code_simp
  have 4: "forwardOutcome demoConfig (demoCommand '''' ''app:2'' ''true'') (ex_engine demoStart) = Healthy" by code_simp
  have 5: "canonical demoConfig = ''robot-app''" "demoImage (cmd_ImageRef (demoCommand '''' ''app:2'' ''true'')) = ''app:2''"
    by code_simp+
  have 6: "demoView (ex_engine (handleAll demoConfig demoPair demoStart)) ''robot-app'' = Some ''app:1''" by code_simp
  from rollback_overtakes_update [OF demo_laws 1(1) 2(1) 1(2) 2(2) 3 4] obtain steps y where
    y: "interleaved (handleAllSteps demoConfig demoPair) demoStart steps [Stop, Stop] y"
      "phasesOf y = phasesOf demoStart @ [''PHASE_RECEIVED'', ''PHASE_RECEIVED'', ''PHASE_ROLLED_BACK'',
        ''PHASE_PULLED'', ''PHASE_SWAPPED'', ''PHASE_HEALTHY'']"
      "demoView (ex_engine y) = (demoView (ex_engine demoStart))(''robot-app'' \<mapsto> ''app:2'')"
    unfolding 5 demoPair_def by blast
  have "last (phasesOf y) = ''PHASE_HEALTHY''" "demoView (ex_engine y) ''robot-app'' = Some ''app:2''"
    unfolding y(2,3) by simp_all
  with y(1) 6 show ?thesis by blast
qed

end
