(* ===== verification/AgentImages.thy ===== *)
theory AgentImages
  imports AgentConcurrent
begin

text \<open>
  Which images the robot can run, whatever commands its goroutines handle at the same time
  (\<^verbatim>\<open>agent/internal/ota/executor.go\<close>, \<^verbatim>\<open>docker.go\<close>): an invariant of the
  executor's state that every step of \<open>handleSteps\<close> keeps, also when it fails.
\<close>

section \<open>The invariant\<close>

text \<open>
  The temporary container comes from one of the images \<open>T\<close>, the canonical one from \<open>T\<close> or \<open>A\<close>, and
  the remembered digest is empty or that of such an image.
\<close>

definition ranFrom :: "(string \<Rightarrow> string) \<Rightarrow> ('s \<Rightarrow> string \<Rightarrow> string option) \<Rightarrow> 's executorConfig \<Rightarrow>
    string set \<Rightarrow> string set \<Rightarrow> 's executor \<Rightarrow> bool" where
  "ranFrom resolve view cfg T A x \<longleftrightarrow>
     (\<forall>i. view (ex_engine x) (tmpName (ec_Docker cfg)) = Some i \<longrightarrow> i \<in> T) \<and>
     (\<forall>i. view (ex_engine x) (canonical cfg) = Some i \<longrightarrow> i \<in> T \<union> A) \<and>
     (ex_lastSuccessDigest x \<noteq> '''' \<longrightarrow> resolve (ex_lastSuccessDigest x) \<in> T \<union> A)"

text \<open>The images that the commands among some messages name.\<close>

definition commandedImage :: "body \<Rightarrow> string option" where
  "commandedImage body =
     (case unmarshalCommand body of
        Inl err \<Rightarrow> None
      | Inr cmd \<Rightarrow> if cmd_Action cmd = CmdRollback then None else Some (cmd_ImageRef cmd))"

definition commandedImages :: "body list \<Rightarrow> string list" where
  "commandedImages bodies = List.map_filter commandedImage bodies"

definition restorable :: "(string \<Rightarrow> string) \<Rightarrow> string set \<Rightarrow> string set \<Rightarrow> string \<Rightarrow> bool" where
  "restorable resolve T A d \<longleftrightarrow> d \<noteq> '''' \<longrightarrow> resolve d \<in> T \<union> A"

section \<open>The steps\<close>

text \<open>The first step of an engine command, and what follows it.\<close>

lemma preserves_engineStep:
  assumes "\<And>x r s. I x \<Longrightarrow> cmd (ex_engine x) = (r, s) \<Longrightarrow> I (x\<lparr>ex_engine := s\<rparr>) \<and> preserves I (k r)"
  shows "preserves I (engineStep cmd k)"
  unfolding engineStep_def
proof (rule preserves_Step)
  fix x
  assume "I x"
  from assms [OF this prod.collapse [symmetric]]
  show "I (fst (case cmd (ex_engine x) of (r, s) \<Rightarrow> (x\<lparr>ex_engine := s\<rparr>, k r)))"
    and "preserves I (snd (case cmd (ex_engine x) of (r, s) \<Rightarrow> (x\<lparr>ex_engine := s\<rparr>, k r)))"
    by (simp_all add: case_prod_beta)
qed

lemma preserves_ackStep: "(\<And>x. I x \<Longrightarrow> I (publishAck cfg cmd ph dt x)) \<Longrightarrow> preserves I t \<Longrightarrow> preserves I (ackStep cfg cmd ph dt t)"
  unfolding ackStep_def by (rule preserves_Step) simp_all

lemma ranFrom_frame [simp]:
  "ranFrom resolve view cfg T A (publishAck cfg cmd ph dt x) \<longleftrightarrow> ranFrom resolve view cfg T A x"
  by (simp add: ranFrom_def publishAck_def Let_def)

lemma ranFrom_same:
  "ranFrom resolve view cfg T A x \<Longrightarrow> view s = view (ex_engine x) \<Longrightarrow> ranFrom resolve view cfg T A (x\<lparr>ex_engine := s\<rparr>)"
  by (simp add: ranFrom_def)

lemma ranFrom_recordPrev:
  "ranFrom resolve view cfg T A x \<Longrightarrow> restorable resolve T A d \<Longrightarrow> ranFrom resolve view cfg T A (recordPrev d x)"
  by (simp add: ranFrom_def restorable_def recordPrev_def)

text \<open>The engine commands: a container is started from an image that may run under its name.\<close>

lemma ranFrom_run_tmp:
  assumes "agent_laws resolve view cfg" and "ranFrom resolve view cfg T A x" and "resolve ref \<in> T"
    and "runCmd (ec_runner cfg) None (d_bin (ec_Docker cfg))
      (runArgs (ec_Docker cfg) (tmpName (ec_Docker cfg)) ref) (ex_engine x) = (r, s)"
  shows "ranFrom resolve view cfg T A (x\<lparr>ex_engine := s\<rparr>)"
  using run_ok [OF assms(1), of None "tmpName (ec_Docker cfg)" ref "ex_engine x" s]
    run_error [OF assms(1), of None "tmpName (ec_Docker cfg)" ref "ex_engine x" _ s] assms(2-4)
  by (cases r) (auto simp: ranFrom_def)

lemma ranFrom_run_canonical:
  assumes "agent_laws resolve view cfg" and "ranFrom resolve view cfg T A x" and "resolve ref \<in> T \<union> A"
    and "runCmd (ec_runner cfg) None (d_bin (ec_Docker cfg))
      (runArgs (ec_Docker cfg) (canonical cfg) ref) (ex_engine x) = (r, s)"
  shows "ranFrom resolve view cfg T A (x\<lparr>ex_engine := s\<rparr>)"
  using run_ok [OF assms(1), of None "canonical cfg" ref "ex_engine x" s]
    run_error [OF assms(1), of None "canonical cfg" ref "ex_engine x" _ s] assms(2-4)
  by (cases r) (auto simp: ranFrom_def)

lemma ranFrom_rm:
  assumes "agent_laws resolve view cfg" and "ranFrom resolve view cfg T A x"
    and "runCmd (ec_runner cfg) None (d_bin (ec_Docker cfg)) (rmArgs n) (ex_engine x) = (r, s)"
  shows "ranFrom resolve view cfg T A (x\<lparr>ex_engine := s\<rparr>)"
  using rm_view [OF assms(1,3)] assms(2) by (auto simp: ranFrom_def split: if_splits)

lemma ranFrom_rename:
  assumes "agent_laws resolve view cfg" and "ranFrom resolve view cfg T A x"
    and "runCmd (ec_runner cfg) None (d_bin (ec_Docker cfg))
      (renameArgs (tmpName (ec_Docker cfg)) (canonical cfg)) (ex_engine x) = (r, s)"
  shows "ranFrom resolve view cfg T A (x\<lparr>ex_engine := s\<rparr>)"
  using rename_view [OF assms(1,3)] assms(2) by (auto simp: ranFrom_def split: if_splits)

lemma ranFrom_digest:
  assumes "agent_laws resolve view cfg" and "ranFrom resolve view cfg T A x"
    and "CurrentDigest (ec_runner cfg) (ec_Docker cfg) (ex_engine x) = (cur, s)"
  shows "ranFrom resolve view cfg T A (x\<lparr>ex_engine := s\<rparr>) \<and> restorable resolve T A (outputOr cur)"
proof -
  have view: "view s = view (ex_engine x)"
    and found: "outputOr cur \<noteq> '''' \<Longrightarrow> view (ex_engine x) (canonical cfg) = Some (outputOr cur)"
    using CurrentDigest_view [OF assms(1,3)] by blast+
  have "restorable resolve T A (outputOr cur)"
    using found image_id [OF assms(1)] assms(2) unfolding restorable_def ranFrom_def by metis
  then show ?thesis using ranFrom_same [OF assms(2) view] by blast
qed

text \<open>Each command as the next step of a task.\<close>

lemma preserves_commands:
  fixes T A :: "string set"
  assumes laws: "agent_laws resolve view cfg"
  defines "P \<equiv> preserves (ranFrom resolve view cfg T A)"
  shows "resolve ref \<in> T \<Longrightarrow> (\<And>r. P (k r)) \<Longrightarrow>
      P (engineStep (runCmd (ec_runner cfg) None (d_bin (ec_Docker cfg))
        (runArgs (ec_Docker cfg) (tmpName (ec_Docker cfg)) ref)) k)"
    and "resolve ref \<in> T \<union> A \<Longrightarrow> (\<And>r. P (k r)) \<Longrightarrow>
      P (engineStep (runCmd (ec_runner cfg) None (d_bin (ec_Docker cfg)) (runArgs (ec_Docker cfg) (canonical cfg) ref)) k)"
    and "(\<And>r. P (k r)) \<Longrightarrow> P (engineStep (runCmd (ec_runner cfg) None (d_bin (ec_Docker cfg)) (rmArgs n)) k)"
    and "(\<And>r. P (k r)) \<Longrightarrow>
      P (engineStep (runCmd (ec_runner cfg) None (d_bin (ec_Docker cfg))
        (renameArgs (tmpName (ec_Docker cfg)) (canonical cfg))) k)"
    and "(\<And>st. P (h st)) \<Longrightarrow>
      P (engineStep (capture (ec_runner cfg) None (d_bin (ec_Docker cfg)) (inspectStatus n)) h)"
    and "(\<And>cur. restorable resolve T A (outputOr cur) \<Longrightarrow> P (h cur)) \<Longrightarrow>
      P (engineStep (CurrentDigest (ec_runner cfg) (ec_Docker cfg)) h)"
    and "(\<And>r. P (k r)) \<Longrightarrow> P (engineStep (Pull (ec_runner cfg) (ec_Docker cfg) ref) k)"
    and "(\<And>r. P (k r)) \<Longrightarrow> P (engineStep (Exec (ec_runner cfg) c (ec_Docker cfg) ref) k)"
  unfolding P_def
  by (rule preserves_engineStep;
      use ranFrom_run_tmp [OF laws] ranFrom_run_canonical [OF laws] ranFrom_rm [OF laws] ranFrom_rename [OF laws]
        ranFrom_same status_view [OF laws] ranFrom_digest [OF laws] Pull_view [OF laws] Exec_view [OF laws]
      in \<open>metis snd_conv\<close>)+

section \<open>The operations\<close>

lemma preserves_Swap:
  assumes laws: "agent_laws resolve view cfg" and ref: "resolve ref \<in> T"
    and k: "\<And>prev e. restorable resolve T A prev \<Longrightarrow> preserves (ranFrom resolve view cfg T A) (k (prev, e))"
  shows "preserves (ranFrom resolve view cfg T A) (SwapSteps (ec_runner cfg) (ec_Docker cfg) ref k)"
proof -
  have none: "restorable resolve T A ''''" by (simp add: restorable_def)
  show ?thesis
    unfolding SwapSteps_def Let_def
    by (auto intro!: preserves_commands [OF laws] ref k none split: option.split)
qed

lemma preserves_Rollback:
  assumes laws: "agent_laws resolve view cfg" and prev: "restorable resolve T A prev"
    and k: "\<And>r. preserves (ranFrom resolve view cfg T A) (k r)"
  shows "preserves (ranFrom resolve view cfg T A) (RollbackSteps (ec_runner cfg) (ec_Docker cfg) prev k)"
proof (cases "prev = ''''")
  case False
  then have ref: "resolve prev \<in> T \<union> A" using prev by (simp add: restorable_def)
  have "RollbackSteps (ec_runner cfg) (ec_Docker cfg) prev k =
      engineStep (runCmd (ec_runner cfg) None (d_bin (ec_Docker cfg)) (rmArgs (canonical cfg))) (\<lambda>_.
      engineStep (runCmd (ec_runner cfg) None (d_bin (ec_Docker cfg)) (runArgs (ec_Docker cfg) (canonical cfg) prev)) k)"
    using False by (simp add: RollbackSteps_def)
  then show ?thesis by (simp only:) (intro preserves_commands [OF laws] ref k)
qed (simp add: RollbackSteps_def k)

lemma preserves_handle:
  assumes laws: "agent_laws resolve view cfg"
    and ref: "\<And>ref. commandedImage body = Some ref \<Longrightarrow> resolve ref \<in> T"
  shows "preserves (ranFrom resolve view cfg T A) (handleSteps cfg body)"
proof -
  let ?P = "preserves (ranFrom resolve view cfg T A)"
  have ack: "?P t \<Longrightarrow> ?P (ackStep cfg cmd ph dt t)" for cmd ph dt t by (rule preserves_ackStep) simp_all
  have remember: "restorable resolve T A d \<Longrightarrow> ?P t \<Longrightarrow> ?P (recordPrevStep d t)" for d t
    unfolding recordPrevStep_def by (rule preserves_Step) (simp_all add: ranFrom_recordPrev)
  have read: "(\<And>d. restorable resolve T A d \<Longrightarrow> ?P (k d)) \<Longrightarrow> ?P (readPrevStep k)" for k
    unfolding readPrevStep_def by (rule preserves_Step) (simp_all add: ranFrom_def restorable_def)
  have roll: "?P (runRollbackSteps cfg cmd)" for cmd
    unfolding runRollbackSteps_def
    by (auto intro!: read preserves_Rollback [OF laws] ack preserves_Stop split: option.split)
  have forward: "?P (runForwardSteps cfg cmd)" if "resolve (cmd_ImageRef cmd) \<in> T" for cmd
    unfolding runForwardSteps_def Let_def
    by (auto intro!: ack remember preserves_commands(7,8) [OF laws] preserves_Swap [OF laws that]
        preserves_Rollback [OF laws] preserves_Stop split: option.split)
  show ?thesis
    using ref by (auto simp: handleSteps_def commandedImage_def intro!: ack roll forward preserves_Stop split: sum.split)
qed

section \<open>The property\<close>

text \<open>
  C12: whatever commands come together, however their goroutines interleave and whichever of the
  engine's commands fail, the robot runs no other image than one that a forward command names, one
  of its two containers came from before, or the one it remembered; and its temporary container
  comes from a commanded image or is the one that was there.
\<close>

theorem only_known_images:
  assumes "agent_laws resolve view cfg" and "interleaved (handleAllSteps cfg bodies) x steps us y"
  shows "(view (ex_engine y) (canonical cfg) = Some i \<longrightarrow>
      i \<in> resolve ` set (commandedImages bodies) \<or> view (ex_engine x) (canonical cfg) = Some i \<or>
      view (ex_engine x) (tmpName (ec_Docker cfg)) = Some i \<or>
      ex_lastSuccessDigest x \<noteq> '''' \<and> i = resolve (ex_lastSuccessDigest x)) \<and>
    (view (ex_engine y) (tmpName (ec_Docker cfg)) = Some i \<longrightarrow>
      i \<in> resolve ` set (commandedImages bodies) \<or> view (ex_engine x) (tmpName (ec_Docker cfg)) = Some i)"
proof -
  define T where "T = resolve ` set (commandedImages bodies) \<union> {i. view (ex_engine x) (tmpName (ec_Docker cfg)) = Some i}"
  define A where "A = {i. view (ex_engine x) (canonical cfg) = Some i} \<union>
    {i. ex_lastSuccessDigest x \<noteq> '''' \<and> i = resolve (ex_lastSuccessDigest x)}"
  have "preserves (ranFrom resolve view cfg T A) (handleSteps cfg body)" if "body \<in> set bodies" for body
  proof (rule preserves_handle [OF assms(1)])
    fix ref
    assume "commandedImage body = Some ref"
    then have "ref \<in> set (commandedImages bodies)" using that by (force simp: commandedImages_def map_filter_def)
    then show "resolve ref \<in> T" by (simp add: T_def)
  qed
  then have "\<forall>t \<in> set (handleAllSteps cfg bodies). preserves (ranFrom resolve view cfg T A) t"
    by (auto simp: handleAllSteps_def)
  moreover have "ranFrom resolve view cfg T A x" by (auto simp: ranFrom_def T_def A_def)
  ultimately have "ranFrom resolve view cfg T A y" using interleaved_invariant [OF assms(2)] by blast
  then show ?thesis by (auto simp: ranFrom_def T_def A_def)
qed

text \<open>Two updates that overlap, on a robot that runs \<^verbatim>\<open>app:1\<close>.\<close>

definition demoImages :: "body list" where
  "demoImages = [demoBody '''' ''app:2'' ''true'', demoBody '''' ''app:3'' ''true'']"

definition demoOverlap :: "(string \<Rightarrow> string option) executor turns \<times> (string \<Rightarrow> string option) executor task list
    \<times> (string \<Rightarrow> string option) executor" where
  "demoOverlap = runSchedule (replicate 4 0 @ replicate 4 1 @ replicate 5 0) (handleAllSteps demoConfig demoImages) demoStart"

theorem only_known_images_witness:
  "case demoView (ex_engine (snd (snd demoOverlap))) ''robot-app'' of
     None \<Rightarrow> False | Some i \<Rightarrow> i \<in> {''app:1'', ''app:2'', ''app:3''}"
proof -
  have run: "interleaved (handleAllSteps demoConfig demoImages) demoStart (fst demoOverlap)
      (fst (snd demoOverlap)) (snd (snd demoOverlap))"
    by (rule runSchedule_interleaved) (simp add: demoOverlap_def)
  have 1: "map demoImage (commandedImages demoImages) = [''app:2'', ''app:3'']" by code_simp
  have 2: "canonical demoConfig = ''robot-app''" "demoView (ex_engine demoStart) ''robot-app'' = Some ''app:1''"
    "demoView (ex_engine demoStart) (tmpName (ec_Docker demoConfig)) = None" "ex_lastSuccessDigest demoStart = ''''"
    by code_simp+
  have 3: "case demoOverlap of (turns, us, y) \<Rightarrow> demoView (ex_engine y) ''robot-app'' \<noteq> None" by code_simp
  have "demoImage ` set (commandedImages demoImages) = {''app:2'', ''app:3''}"
    using arg_cong [OF 1, where f = set] by simp
  with only_known_images [OF demo_laws run] 2 3 show ?thesis
    by (auto simp: case_prod_beta split: option.split)
qed

end
