(* ===== verification/Store.thy ===== *)
theory Store
  imports Prelude Interfaces
begin

text \<open>
  The cloud's database adapter, \<^verbatim>\<open>cloud/internal/store/timescale.go\<close> and
  \<^verbatim>\<open>cloud/internal/store/ota.go\<close>, on the tables of \<^verbatim>\<open>deploy/postgres\<close>.  A statement runs on
  lists of rows in insertion order; a failure of the connection is an argument of each operation,
  and so is the value of \<^verbatim>\<open>now()\<close>.  The serial keys that no statement reads are left out.  Rows
  with equal sort keys come in insertion order, where the database promises no order.
\<close>

section \<open>Tables\<close>

text \<open>A \<^verbatim>\<open>timestamptz\<close> is microseconds since the epoch, what a \<^verbatim>\<open>time.Time\<close> is cut to.\<close>

definition pgTime :: "time \<Rightarrow> int" where
  "pgTime t = t div 1000"

record telemetryRow =
  tr_robot_id :: string
  tr_stream :: string
  tr_captured_at :: int
  tr_payload :: bytes
  tr_schema :: string

record rolloutRow =
  rr_rollout_id :: string
  rr_spec :: string
  rr_status :: string
  rr_detail :: "string option"
  rr_started_at :: int
  rr_ended_at :: "int option"

record resultRow =
  rs_robot_id :: string
  rs_phase :: string
  rs_detail :: string
  rs_started_at :: int
  rs_ended_at :: int

record rollbackRow =
  rb_rollout_id :: string
  rb_robot_id :: string
  rb_status :: string
  rb_detail :: string
  rb_at :: int

record tsdb =
  telemetry :: "telemetryRow list"
  ota_rollouts :: "rolloutRow list"
  ota_robot_results :: "resultRow list"
  ota_rollbacks :: "rollbackRow list"

definition emptyDb :: tsdb where
  "emptyDb = \<lparr>telemetry = [], ota_rollouts = [], ota_robot_results = [], ota_rollbacks = []\<rparr>"

text \<open>What one statement meets: a failure of the connection, and the server's clock.\<close>

record db_env =
  dbe_fault :: "go_error option"
  dbe_now :: time

definition duplicate_key :: go_error where
  "duplicate_key = GoError ''duplicate key value violates unique constraint''"

definition no_rows :: go_error where
  "no_rows = GoError ''no rows in result set''"

definition execStmt :: "db_env \<Rightarrow> (tsdb \<Rightarrow> tsdb) \<Rightarrow> tsdb \<Rightarrow> go_error option \<times> tsdb" where
  "execStmt e f t = (case dbe_fault e of Some err \<Rightarrow> (Some err, t) | None \<Rightarrow> (None, f t))"

section \<open>Telemetry\<close>

definition telemetryKey :: "telemetryRow \<Rightarrow> string \<times> string \<times> int" where
  "telemetryKey r = (tr_robot_id r, tr_stream r, tr_captured_at r)"

definition InsertSample ::
  "db_env \<Rightarrow> string \<Rightarrow> string \<Rightarrow> time \<Rightarrow> bytes \<Rightarrow> string \<Rightarrow> tsdb \<Rightarrow> go_error option \<times> tsdb" where
  "InsertSample e robotID stream capturedAt payload schema t =
     (let row = \<lparr>tr_robot_id = robotID, tr_stream = stream, tr_captured_at = pgTime capturedAt,
            tr_payload = payload, tr_schema = schema\<rparr> in
      case dbe_fault e of Some err \<Rightarrow> (Some err, t) | None \<Rightarrow>
        (if telemetryKey row \<in> telemetryKey ` set (telemetry t) then (Some duplicate_key, t)
         else (None, t\<lparr>telemetry := telemetry t @ [row]\<rparr>)))"

record robotRow =
  rw_RobotID :: string
  rw_LastSeen :: int
  rw_BufferedN :: int
  rw_StatusText :: string

text \<open>\<^verbatim>\<open>GROUP BY robot_id\<close> with \<^verbatim>\<open>MAX(captured_at)\<close>; the scan fills only the first two fields.\<close>

definition heartbeats :: "tsdb \<Rightarrow> telemetryRow list" where
  "heartbeats t = filter (\<lambda>r. tr_stream r = ''heartbeat'') (telemetry t)"

definition lastSeen :: "tsdb \<Rightarrow> string \<Rightarrow> int" where
  "lastSeen t robot = Max (set (map tr_captured_at (filter (\<lambda>r. tr_robot_id r = robot) (heartbeats t))))"

definition ListRobots :: "query_env \<Rightarrow> tsdb \<Rightarrow> go_error + robotRow list" where
  "ListRobots e t =
     (case q_query e of Some err \<Rightarrow> Inl err | None \<Rightarrow>
      (let groups = map (\<lambda>r. \<lparr>rw_RobotID = r, rw_LastSeen = lastSeen t r, rw_BufferedN = 0, rw_StatusText = ''''\<rparr>)
             (remdups (map tr_robot_id (heartbeats t)));
           rows = sort_key (\<lambda>r. - rw_LastSeen r) groups
       in case scanRows (q_scan e) 0 rows of Inl err \<Rightarrow> Inl err | Inr out \<Rightarrow>
          (case q_rows e of Some err \<Rightarrow> Inl err | None \<Rightarrow> Inr out)))"

text \<open>A negative \<^verbatim>\<open>LIMIT\<close> is an error of the database.\<close>

definition RecentTelemetry ::
  "query_env \<Rightarrow> string \<Rightarrow> string \<Rightarrow> time \<Rightarrow> int \<Rightarrow> tsdb \<Rightarrow> go_error + telemetryRow list" where
  "RecentTelemetry e robotID stream since limit t =
     (case q_query e of Some err \<Rightarrow> Inl err | None \<Rightarrow>
      (if limit < 0 then Inl (GoError ''LIMIT must not be negative'')
       else
         let hits = filter (\<lambda>r. tr_robot_id r = robotID \<and> pgTime since \<le> tr_captured_at r \<and>
                (stream = '''' \<or> tr_stream r = stream)) (telemetry t);
             rows = take (nat limit) (sort_key (\<lambda>r. - tr_captured_at r) hits)
         in case scanRows (q_scan e) 0 rows of Inl err \<Rightarrow> Inl err | Inr out \<Rightarrow>
            (case q_rows e of Some err \<Rightarrow> Inl err | None \<Rightarrow> Inr out)))"

section \<open>OTA state\<close>

definition RecordRolloutStarted :: "db_env \<Rightarrow> string \<Rightarrow> string \<Rightarrow> tsdb \<Rightarrow> go_error option \<times> tsdb" where
  "RecordRolloutStarted e rolloutID specJSON =
     execStmt e (\<lambda>t. if rolloutID \<in> rr_rollout_id ` set (ota_rollouts t) then t
       else t\<lparr>ota_rollouts := ota_rollouts t @ [\<lparr>rr_rollout_id = rolloutID, rr_spec = specJSON,
              rr_status = ''pending'', rr_detail = None, rr_started_at = pgTime (dbe_now e),
              rr_ended_at = None\<rparr>]\<rparr>)"

definition RecordRolloutEnded ::
  "db_env \<Rightarrow> string \<Rightarrow> string \<Rightarrow> string \<Rightarrow> tsdb \<Rightarrow> go_error option \<times> tsdb" where
  "RecordRolloutEnded e rolloutID status detail =
     execStmt e (\<lambda>t. t\<lparr>ota_rollouts := map (\<lambda>r. if rr_rollout_id r = rolloutID
         then r\<lparr>rr_status := status, rr_detail := Some detail, rr_ended_at := Some (pgTime (dbe_now e))\<rparr>
         else r) (ota_rollouts t)\<rparr>)"

definition RecordRobotResult ::
  "db_env \<Rightarrow> string \<Rightarrow> string \<Rightarrow> string \<Rightarrow> time \<Rightarrow> time \<Rightarrow> tsdb \<Rightarrow> go_error option \<times> tsdb" where
  "RecordRobotResult e robotID phase detail startedAt endedAt =
     execStmt e (\<lambda>t. t\<lparr>ota_robot_results := ota_robot_results t @ [\<lparr>rs_robot_id = robotID,
         rs_phase = phase, rs_detail = detail, rs_started_at = pgTime startedAt,
         rs_ended_at = pgTime endedAt\<rparr>]\<rparr>)"

definition RecordRollbackOutcome ::
  "db_env \<Rightarrow> string \<Rightarrow> string \<Rightarrow> string \<Rightarrow> string \<Rightarrow> tsdb \<Rightarrow> go_error option \<times> tsdb" where
  "RecordRollbackOutcome e rolloutID robotID status detail =
     execStmt e (\<lambda>t. t\<lparr>ota_rollbacks := ota_rollbacks t @ [\<lparr>rb_rollout_id = rolloutID,
         rb_robot_id = robotID, rb_status = status, rb_detail = detail, rb_at = pgTime (dbe_now e)\<rparr>]\<rparr>)"

record rolloutSummary =
  sum_RolloutID :: string
  sum_Status :: string
  sum_Detail :: string
  sum_StartedAt :: int
  sum_EndedAt :: "int option"

definition summary :: "rolloutRow \<Rightarrow> rolloutSummary" where
  "summary r = \<lparr>sum_RolloutID = rr_rollout_id r, sum_Status = rr_status r,
     sum_Detail = (case rr_detail r of None \<Rightarrow> '''' | Some d \<Rightarrow> d), sum_StartedAt = rr_started_at r,
     sum_EndedAt = rr_ended_at r\<rparr>"

definition GetRollout :: "go_error option \<Rightarrow> string \<Rightarrow> tsdb \<Rightarrow> go_error + rolloutSummary" where
  "GetRollout fault rolloutID t =
     (case fault of Some err \<Rightarrow> Inl err | None \<Rightarrow>
      (case List.find (\<lambda>r. rr_rollout_id r = rolloutID) (ota_rollouts t) of
         None \<Rightarrow> Inl no_rows
       | Some r \<Rightarrow> Inr (summary r)))"

definition clampLimit :: "int \<Rightarrow> int" where
  "clampLimit limit = (if limit \<le> 0 \<or> limit > 200 then 50 else limit)"

definition ListRollouts :: "query_env \<Rightarrow> int \<Rightarrow> tsdb \<Rightarrow> go_error + rolloutSummary list" where
  "ListRollouts e limit t =
     (case q_query e of Some err \<Rightarrow> Inl err | None \<Rightarrow>
      (let rows = take (nat (clampLimit limit)) (sort_key (\<lambda>r. - rr_started_at r) (ota_rollouts t))
       in case scanRows (q_scan e) 0 (map summary rows) of Inl err \<Rightarrow> Inl err | Inr out \<Rightarrow>
          (case q_rows e of Some err \<Rightarrow> Inl err | None \<Rightarrow> Inr out)))"

section \<open>The rollout table as a store of states\<close>

definition rolloutStatus :: "tsdb \<Rightarrow> string \<Rightarrow> string option" where
  "rolloutStatus t i =
     map_option rr_status (List.find (\<lambda>r. rr_rollout_id r = i) (ota_rollouts t))"

lemma find_append: "List.find P (xs @ ys) = (case List.find P xs of None \<Rightarrow> List.find P ys | Some x \<Rightarrow> Some x)"
  by (induction xs) auto

lemma find_None_image: "List.find (\<lambda>r. f r = i) xs = None \<longleftrightarrow> i \<notin> f ` set xs"
  by (auto simp: find_None_iff)

lemma find_update:
  assumes "\<And>r. f (g r) = f r"
  shows "List.find (\<lambda>r. f r = j) (map (\<lambda>r. if f r = i then g r else r) xs) =
    map_option (\<lambda>r. if j = i then g r else r) (List.find (\<lambda>r. f r = j) xs)"
  using assms by (induction xs) auto

lemma RecordRolloutStarted_status:
  assumes "RecordRolloutStarted e i spec t = (None, t')"
  shows "rolloutStatus t' = (if rolloutStatus t i = None then (rolloutStatus t)(i \<mapsto> ''pending'') else rolloutStatus t)"
proof
  fix j
  show "rolloutStatus t' j =
      (if rolloutStatus t i = None then (rolloutStatus t)(i \<mapsto> ''pending'') else rolloutStatus t) j"
    using assms find_None_image [of rr_rollout_id i "ota_rollouts t"]
    by (auto simp: RecordRolloutStarted_def execStmt_def rolloutStatus_def find_append
        split: option.splits if_splits)
qed

lemma RecordRolloutEnded_status:
  assumes "RecordRolloutEnded e i st d t = (None, t')"
  shows "rolloutStatus t' = (if rolloutStatus t i = None then rolloutStatus t else (rolloutStatus t)(i \<mapsto> st))"
proof
  fix j
  let ?g = "\<lambda>r. r\<lparr>rr_status := st, rr_detail := Some d, rr_ended_at := Some (pgTime (dbe_now e))\<rparr>"
  have "t' = t\<lparr>ota_rollouts := map (\<lambda>r. if rr_rollout_id r = i then ?g r else r) (ota_rollouts t)\<rparr>"
    using assms by (simp add: RecordRolloutEnded_def execStmt_def split: option.splits)
  then show "rolloutStatus t' j =
      (if rolloutStatus t i = None then rolloutStatus t else (rolloutStatus t)(i \<mapsto> st)) j"
    by (auto simp: rolloutStatus_def find_update [of rr_rollout_id ?g] option.map_comp comp_def
        split: option.splits)
qed

interpretation rollouts: rollout_store rolloutStatus RecordRolloutStarted RecordRolloutEnded
proof unfold_locales
  fix e i spec st d t t' err
  show "RecordRolloutStarted e i spec t = (None, t') \<Longrightarrow>
      rolloutStatus t' = (if rolloutStatus t i = None then (rolloutStatus t)(i \<mapsto> ''pending'') else rolloutStatus t)"
    by (rule RecordRolloutStarted_status)
  show "RecordRolloutEnded e i st d t = (None, t') \<Longrightarrow>
      rolloutStatus t' = (if rolloutStatus t i = None then rolloutStatus t else (rolloutStatus t)(i \<mapsto> st))"
    by (rule RecordRolloutEnded_status)
  show "RecordRolloutStarted e i spec t = (Some err, t') \<Longrightarrow> rolloutStatus t' = rolloutStatus t"
    by (auto simp: RecordRolloutStarted_def execStmt_def split: option.splits)
  show "RecordRolloutEnded e i st d t = (Some err, t') \<Longrightarrow> rolloutStatus t' = rolloutStatus t"
    by (auto simp: RecordRolloutEnded_def execStmt_def split: option.splits)
qed

section \<open>Properties\<close>

text \<open>The primary keys stay distinct.\<close>

definition tsdb_inv :: "tsdb \<Rightarrow> bool" where
  "tsdb_inv t \<longleftrightarrow> distinct (map telemetryKey (telemetry t)) \<and> distinct (map rr_rollout_id (ota_rollouts t))"

lemma map_key_update:
  "(\<And>r. f (g r) = f r) \<Longrightarrow> map f (map (\<lambda>r. if P r then g r else r) xs) = map f xs"
  by (induction xs) auto

text \<open>
  Every statement keeps the keys of the telemetry and the rollout table distinct; in particular
  starting a rollout twice leaves one row.
\<close>

theorem statements_keep_keys:
  assumes "tsdb_inv t"
  shows "tsdb_inv (snd (InsertSample e robot stream at p schema t)) \<and>
    tsdb_inv (snd (RecordRolloutStarted e i spec t)) \<and>
    tsdb_inv (snd (RecordRolloutEnded e i st d t)) \<and>
    tsdb_inv (snd (RecordRobotResult e robot st d from to t)) \<and>
    tsdb_inv (snd (RecordRollbackOutcome e i robot st d t))"
proof (intro conjI)
  show "tsdb_inv (snd (InsertSample e robot stream at p schema t))"
    using assms by (auto simp: InsertSample_def tsdb_inv_def Let_def split: option.splits)
  show "tsdb_inv (snd (RecordRolloutStarted e i spec t))"
    using assms by (auto simp: RecordRolloutStarted_def execStmt_def tsdb_inv_def split: option.splits)
  show "tsdb_inv (snd (RecordRolloutEnded e i st d t))"
    using assms map_key_update [of rr_rollout_id
        "\<lambda>r. r\<lparr>rr_status := st, rr_detail := Some d, rr_ended_at := Some (pgTime (dbe_now e))\<rparr>"
        "\<lambda>r. rr_rollout_id r = i" "ota_rollouts t"]
    by (simp add: RecordRolloutEnded_def execStmt_def tsdb_inv_def del: map_map split: option.splits)
  show "tsdb_inv (snd (RecordRobotResult e robot st d from to t))"
    using assms by (auto simp: RecordRobotResult_def execStmt_def tsdb_inv_def split: option.splits)
  show "tsdb_inv (snd (RecordRollbackOutcome e i robot st d t))"
    using assms by (auto simp: RecordRollbackOutcome_def execStmt_def tsdb_inv_def split: option.splits)
qed

definition demoDbEnv :: db_env where
  "demoDbEnv = \<lparr>dbe_fault = None, dbe_now = 5000000\<rparr>"

definition demoDb :: tsdb where
  "demoDb = snd (InsertSample demoDbEnv ''r1'' ''odom'' 1000000 ''a'' ''''
     (snd (RecordRolloutStarted demoDbEnv ''rollout-1'' ''spec'' emptyDb)))"

theorem statements_keep_keys_witness:
  "tsdb_inv (snd (RecordRolloutStarted demoDbEnv ''rollout-1'' ''other'' demoDb)) \<and>
   length (ota_rollouts (snd (RecordRolloutStarted demoDbEnv ''rollout-1'' ''other'' demoDb))) = 1"
proof -
  have 1: "tsdb_inv demoDb" by code_simp
  have 2: "length (ota_rollouts (snd (RecordRolloutStarted demoDbEnv ''rollout-1'' ''other'' demoDb))) = 1"
    by code_simp
  from statements_keep_keys [OF 1] 2 show ?thesis by blast
qed

text \<open>
  What the telemetry query returns is of the asked robot, stream and period, newest first, no
  longer than the limit, and leaves out no newer row than one it returns.
\<close>

theorem RecentTelemetry_newest:
  assumes "RecentTelemetry e robot stream since limit t = Inr rows"
  shows "0 \<le> limit \<and> length rows \<le> nat limit \<and> sorted_wrt (\<ge>) (map tr_captured_at rows) \<and>
    set rows \<subseteq> {r \<in> set (telemetry t). tr_robot_id r = robot \<and> pgTime since \<le> tr_captured_at r \<and>
      (stream = '''' \<or> tr_stream r = stream)} \<and>
    (\<forall>r \<in> set (telemetry t) - set rows. tr_robot_id r = robot \<longrightarrow> pgTime since \<le> tr_captured_at r \<longrightarrow>
      (stream = '''' \<or> tr_stream r = stream) \<longrightarrow>
      (\<forall>x \<in> set rows. tr_captured_at r \<le> tr_captured_at x))"
proof -
  let ?hits = "filter (\<lambda>r. tr_robot_id r = robot \<and> pgTime since \<le> tr_captured_at r \<and>
      (stream = '''' \<or> tr_stream r = stream)) (telemetry t)"
  let ?sorted = "sort_key (\<lambda>r. - tr_captured_at r) ?hits"
  have rows: "rows = take (nat limit) ?sorted" and lim: "0 \<le> limit"
    using assms by (auto simp: RecentTelemetry_def Let_def split: option.splits sum.splits if_splits
        dest!: scanRows_Inr)
  have "sorted (map (\<lambda>r. - tr_captured_at r) ?sorted)" by (rule sorted_sort_key)
  then have srt: "sorted_wrt (\<lambda>x y. tr_captured_at y \<le> tr_captured_at x) ?sorted"
    by (simp add: sorted_map)
  then have "sorted_wrt (\<lambda>x y. tr_captured_at y \<le> tr_captured_at x) rows"
    unfolding rows by (rule sorted_wrt_take)
  moreover have "set rows \<subseteq> set ?hits" unfolding rows using set_take_subset by fastforce
  moreover have "tr_captured_at r \<le> tr_captured_at x"
    if r: "r \<in> set ?hits" "r \<notin> set rows" and x: "x \<in> set rows" for r x
  proof -
    define S where "S = ?sorted"
    have S: "S = rows @ drop (nat limit) S" unfolding rows S_def by simp
    have "set S = set rows \<union> set (drop (nat limit) S)" by (subst S) (rule set_append)
    moreover have "r \<in> set S" using r(1) by (simp add: S_def)
    ultimately have "r \<in> set (drop (nat limit) S)" using r(2) by blast
    moreover have "sorted_wrt (\<lambda>x y. tr_captured_at y \<le> tr_captured_at x) (rows @ drop (nat limit) S)"
      using srt S unfolding S_def by argo
    ultimately show ?thesis using x by (auto simp only: sorted_wrt_append)
  qed
  moreover have "length rows \<le> nat limit" unfolding rows by simp
  ultimately show ?thesis using lim by (auto simp: sorted_wrt_map)
qed

theorem RecentTelemetry_newest_witness:
  "sorted_wrt (\<ge>) (map tr_captured_at
     [\<lparr>tr_robot_id = ''r1'', tr_stream = ''odom'', tr_captured_at = 1000, tr_payload = ''a'', tr_schema = ''''\<rparr>])"
proof -
  have "RecentTelemetry query_fine ''r1'' '''' 0 10 demoDb =
      Inr [\<lparr>tr_robot_id = ''r1'', tr_stream = ''odom'', tr_captured_at = 1000, tr_payload = ''a'', tr_schema = ''''\<rparr>]"
    by code_simp
  from RecentTelemetry_newest [OF this] show ?thesis by blast
qed

end
