(* ===== verification/CloudOta.thy ===== *)
theory CloudOta
  imports Store OtaWire Topics Mqttx
begin

text \<open>
  The cloud's OTA data and its Temporal activities, \<^verbatim>\<open>cloud/internal/ota/types.go\<close> and
  \<^verbatim>\<open>cloud/internal/ota/activities.go\<close>, with the retries of
  \<^verbatim>\<open>workflow.ExecuteActivity\<close>.  An activity's effects go to the database and to the MQTT client,
  the two parts of the state \<open>cloud\<close>.
\<close>

section \<open>Types\<close>

record cohortFilter =
  RobotIDs :: "string list"
  Labels :: "(string \<times> string) list"

record rolloutSpec =
  ImageRef :: string
  ImageDigest :: string
  CohortSelector :: cohortFilter
  CanarySize :: int
  BatchPercent :: int
  FailureBudget :: int
  SmokeTimeout :: duration
  SmokeCommand :: string
  PullTimeout :: duration
  SwapTimeout :: duration
  Force :: bool

definition SingleOK :: string where "SingleOK = ''ok''"
definition SingleFailed :: string where "SingleFailed = ''failed''"
definition SingleRolledBack :: string where "SingleRolledBack = ''rolled_back''"

record singleResult =
  sr_RobotID :: string
  sr_Phase :: string
  sr_Detail :: string
  sr_StartedAt :: time
  sr_EndedAt :: time

definition StatusCanaryFailed :: string where "StatusCanaryFailed = ''canary_failed''"
definition StatusAborted :: string where "StatusAborted = ''aborted''"
definition StatusCompleted :: string where "StatusCompleted = ''completed''"
definition StatusEmptyCohort :: string where "StatusEmptyCohort = ''empty_cohort''"

lemmas status_defs = StatusCanaryFailed_def StatusAborted_def StatusCompleted_def StatusEmptyCohort_def
lemmas single_defs = SingleOK_def SingleFailed_def SingleRolledBack_def

definition defaultsApplied :: "rolloutSpec \<Rightarrow> rolloutSpec" where
  "defaultsApplied s0 =
     (let s1 = (if CanarySize s0 = 0 then s0\<lparr>CanarySize := 1\<rparr> else s0);
          s2 = (if BatchPercent s1 = 0 then s1\<lparr>BatchPercent := 25\<rparr> else s1);
          s3 = (if SmokeTimeout s2 = 0 then s2\<lparr>SmokeTimeout := 5 * minute\<rparr> else s2);
          s4 = (if PullTimeout s3 = 0 then s3\<lparr>PullTimeout := 15 * minute\<rparr> else s3);
          s5 = (if SwapTimeout s4 = 0 then s4\<lparr>SwapTimeout := 2 * minute\<rparr> else s4)
      in s5)"

section \<open>Activities\<close>

text \<open>The messages handed to the MQTT client are kept with topic, QoS and body.\<close>

type_synonym message = "string \<times> nat \<times> json"

record cloud =
  cl_outbox :: "message list"
  cl_db :: tsdb

text \<open>\<^verbatim>\<open>json.Marshal\<close> writes the keys of a map in ascending order.\<close>

definition otaCommandBody :: "string \<Rightarrow> string \<Rightarrow> rolloutSpec \<Rightarrow> json" where
  "otaCommandBody rolloutID robotID spec =
     JObj [(''force'', JBool (Force spec)), (''image_digest'', JStr (ImageDigest spec)),
       (''image_ref'', JStr (ImageRef spec)), (''robot_id'', JStr robotID),
       (''rollout_id'', JStr rolloutID), (''smoke_command'', JStr (SmokeCommand spec)),
       (''smoke_timeout_sec'', JNum (of_int (quot (SmokeTimeout spec) second)))]"

definition rollbackCommandBody :: "string \<Rightarrow> string \<Rightarrow> string \<Rightarrow> json" where
  "rollbackCommandBody rolloutID robotID reason =
     JObj [(''action'', JStr ''rollback''), (''reason'', JStr reason), (''robot_id'', JStr robotID),
       (''rollout_id'', JStr rolloutID)]"

text \<open>The client has the message whatever becomes of the token.\<close>

definition mqttPublish :: "token \<Rightarrow> string \<Rightarrow> json \<Rightarrow> cloud \<Rightarrow> (go_error + unit) \<times> cloud" where
  "mqttPublish tok topic body w =
     ((case tok of
         Pending \<Rightarrow> Inl (GoError (''mqtt publish timeout to '' @ topic))
       | Completed (Some err) \<Rightarrow> Inl err
       | Completed None \<Rightarrow> Inr ()),
      w\<lparr>cl_outbox := cl_outbox w @ [(topic, 1, body)]\<rparr>)"

definition SendOTACommand ::
  "string \<Rightarrow> string \<Rightarrow> rolloutSpec \<Rightarrow> token \<Rightarrow> cloud \<Rightarrow> (go_error + unit) \<times> cloud" where
  "SendOTACommand rolloutID robotID spec tok =
     mqttPublish tok (cmdOtaTopic robotID) (otaCommandBody rolloutID robotID spec)"

definition SendRollbackCommand ::
  "string \<Rightarrow> string \<Rightarrow> string \<Rightarrow> token \<Rightarrow> cloud \<Rightarrow> (go_error + unit) \<times> cloud" where
  "SendRollbackCommand rolloutID robotID reason tok =
     mqttPublish tok (cmdOtaTopic robotID) (rollbackCommandBody rolloutID robotID reason)"

text \<open>A database activity: the statement's error, its effect on the database.\<close>

definition dbActivity ::
  "(db_env \<Rightarrow> tsdb \<Rightarrow> go_error option \<times> tsdb) \<Rightarrow> db_env \<Rightarrow> cloud \<Rightarrow> (go_error + unit) \<times> cloud" where
  "dbActivity stmt e w =
     (case stmt e (cl_db w) of (err, t) \<Rightarrow>
       ((case err of Some er \<Rightarrow> Inl er | None \<Rightarrow> Inr ()), w\<lparr>cl_db := t\<rparr>))"

text \<open>
  The cohort.  \<open>byLabels\<close> is what the registry returns for the selector's labels
  (\<^verbatim>\<open>SelectByLabels\<close>, in \<open>Fleet\<close>).
\<close>

definition ResolveCohort ::
  "cohortFilter \<Rightarrow> (go_error + string list) \<Rightarrow> cloud \<Rightarrow> (go_error + string list) \<times> cloud" where
  "ResolveCohort sel byLabels w =
     ((if RobotIDs sel \<noteq> [] then Inr (RobotIDs sel) else byLabels), w)"

text \<open>\<open>specJSON\<close> is the text \<^verbatim>\<open>json.Marshal\<close> gives for the spec.\<close>

definition actRecordRolloutStarted ::
  "(rolloutSpec \<Rightarrow> string) \<Rightarrow> string \<Rightarrow> rolloutSpec \<Rightarrow> db_env \<Rightarrow> cloud \<Rightarrow> (go_error + unit) \<times> cloud" where
  "actRecordRolloutStarted specJSON rolloutID spec =
     dbActivity (\<lambda>e. RecordRolloutStarted e rolloutID (specJSON spec))"

definition actRecordRolloutEnded ::
  "string \<Rightarrow> string \<Rightarrow> string \<Rightarrow> db_env \<Rightarrow> cloud \<Rightarrow> (go_error + unit) \<times> cloud" where
  "actRecordRolloutEnded rolloutID status detail =
     dbActivity (\<lambda>e. RecordRolloutEnded e rolloutID status detail)"

definition actRecordRobotResult ::
  "string \<Rightarrow> singleResult \<Rightarrow> db_env \<Rightarrow> cloud \<Rightarrow> (go_error + unit) \<times> cloud" where
  "actRecordRobotResult ignored res =
     dbActivity (\<lambda>e. RecordRobotResult e (sr_RobotID res) (sr_Phase res) (sr_Detail res)
       (sr_StartedAt res) (sr_EndedAt res))"

definition actRecordRollbackOutcome ::
  "string \<Rightarrow> string \<Rightarrow> string \<Rightarrow> string \<Rightarrow> db_env \<Rightarrow> cloud \<Rightarrow> (go_error + unit) \<times> cloud" where
  "actRecordRollbackOutcome rolloutID robotID status detail =
     dbActivity (\<lambda>e. RecordRollbackOutcome e rolloutID robotID status detail)"

text \<open>
  \<^verbatim>\<open>workflow.ExecuteActivity\<close> with a retry policy: the list holds what each attempt meets, and
  at most \<open>n\<close> attempts are made.  The list ends early when the workflow is cancelled.
\<close>

definition canceled :: go_error where "canceled = GoError ''canceled''"

fun executeActivity ::
  "nat \<Rightarrow> ('e \<Rightarrow> 'w \<Rightarrow> (go_error + 'a) \<times> 'w) \<Rightarrow> 'e list \<Rightarrow> 'w \<Rightarrow> (go_error + 'a) \<times> 'w" where
  "executeActivity n act [] w = (Inl canceled, w)"
| "executeActivity n act (e # es) w =
     (case act e w of
        (Inr a, w') \<Rightarrow> (Inr a, w')
      | (Inl err, w') \<Rightarrow> (if n \<le> 1 then (Inl err, w') else executeActivity (n - 1) act es w'))"

text \<open>\<^verbatim>\<open>MaximumAttempts\<close>: 5 where the policy is given; without a policy there is no bound.\<close>

definition maxAttempts :: nat where "maxAttempts = 5"

definition executeForever ::
  "('e \<Rightarrow> 'w \<Rightarrow> (go_error + 'a) \<times> 'w) \<Rightarrow> 'e list \<Rightarrow> 'w \<Rightarrow> (go_error + 'a) \<times> 'w" where
  "executeForever act es w = executeActivity (Suc (length es)) act es w"

section \<open>What the robot makes of a command\<close>

lemma otaCommand_fields:
  assumes "kvs = [(''force'', JBool f), (''image_digest'', JStr dg), (''image_ref'', JStr img),
    (''robot_id'', JStr rb), (''rollout_id'', JStr ro), (''smoke_command'', JStr sm),
    (''smoke_timeout_sec'', JNum (of_int n))]" and "in_i64 n"
  shows "decodeField asStr '''' ''rollout_id'' kvs = (False, ro)"
    "decodeField asStr '''' ''robot_id'' kvs = (False, rb)"
    "decodeField asStr '''' ''action'' kvs = (False, '''')"
    "decodeField asStr '''' ''reason'' kvs = (False, '''')"
    "decodeField asStr '''' ''image_ref'' kvs = (False, img)"
    "decodeField asStr '''' ''image_digest'' kvs = (False, dg)"
    "decodeField asInt 0 ''smoke_timeout_sec'' kvs = (False, n)"
    "decodeField asStr '''' ''smoke_command'' kvs = (False, sm)"
    "decodeField asBool False ''force'' kvs = (False, f)"
  using assms(2) unfolding assms(1) decodeField_def decodeFrom_Cons decodeFrom.simps(1) lower_tags
  by simp_all

text \<open>The forward command and the rollback command, as the robot reads them.\<close>

definition forwardCommand :: "string \<Rightarrow> string \<Rightarrow> rolloutSpec \<Rightarrow> command" where
  "forwardCommand rolloutID robotID spec =
     \<lparr>cmd_RolloutID = rolloutID, cmd_RobotID = robotID, cmd_Action = '''', cmd_Reason = '''',
      cmd_ImageRef = ImageRef spec, cmd_ImageDigest = ImageDigest spec,
      cmd_SmokeTimeoutSec = quot (SmokeTimeout spec) second, cmd_SmokeCommand = SmokeCommand spec,
      cmd_Force = Force spec\<rparr>"

definition rollbackCommand :: "string \<Rightarrow> string \<Rightarrow> string \<Rightarrow> command" where
  "rollbackCommand rolloutID robotID reason =
     \<lparr>cmd_RolloutID = rolloutID, cmd_RobotID = robotID, cmd_Action = CmdRollback, cmd_Reason = reason,
      cmd_ImageRef = '''', cmd_ImageDigest = '''', cmd_SmokeTimeoutSec = 0, cmd_SmokeCommand = '''',
      cmd_Force = False\<rparr>"

lemma quot_in_i64: "in_i64 a \<Longrightarrow> in_i64 (quot a second)"
proof -
  assume a: "in_i64 a"
  have "\<bar>quot a second\<bar> = \<bar>a\<bar> div second"
    by (cases "a = 0") (simp_all add: quot_def abs_mult pos_imp_zdiv_nonneg_iff)
  also have "\<dots> \<le> \<bar>a\<bar> div 2" by (rule zdiv_mono2) simp_all
  finally have "\<bar>quot a second\<bar> \<le> \<bar>a\<bar> div 2" .
  moreover have "\<bar>a\<bar> div 2 < 2 ^ 63" using a by (auto simp: in_i64_def)
  ultimately show ?thesis by (auto simp: in_i64_def)
qed

lemma forwardCommand_decodes:
  assumes "in_i64 (SmokeTimeout spec)"
  shows "unmarshalCommand (Some (otaCommandBody rolloutID robotID spec)) =
    Inr (forwardCommand rolloutID robotID spec)"
  unfolding unmarshalCommand_def otaCommandBody_def members.simps sum.case
    otaCommand_fields [OF refl quot_in_i64 [OF assms]]
  by (simp add: forwardCommand_def)

lemma rollbackCommand_fields:
  assumes "kvs = [(''action'', JStr ''rollback''), (''reason'', JStr rs), (''robot_id'', JStr rb),
    (''rollout_id'', JStr ro)]"
  shows "decodeField asStr '''' ''rollout_id'' kvs = (False, ro)"
    "decodeField asStr '''' ''robot_id'' kvs = (False, rb)"
    "decodeField asStr '''' ''action'' kvs = (False, ''rollback'')"
    "decodeField asStr '''' ''reason'' kvs = (False, rs)"
    "decodeField asStr '''' ''image_ref'' kvs = (False, '''')"
    "decodeField asStr '''' ''image_digest'' kvs = (False, '''')"
    "decodeField asInt 0 ''smoke_timeout_sec'' kvs = (False, 0)"
    "decodeField asStr '''' ''smoke_command'' kvs = (False, '''')"
    "decodeField asBool False ''force'' kvs = (False, False)"
  unfolding assms decodeField_def decodeFrom_Cons decodeFrom.simps(1) lower_tags
  by simp_all

lemma rollbackCommand_decodes:
  "unmarshalCommand (Some (rollbackCommandBody rolloutID robotID reason)) =
     Inr (rollbackCommand rolloutID robotID reason)"
  unfolding unmarshalCommand_def rollbackCommandBody_def members.simps sum.case
    rollbackCommand_fields [OF refl]
  by (simp add: rollbackCommand_def CmdRollback_def)

text \<open>
  C37: the robot reads the command the cloud sent: same rollout, robot, image, smoke command, and the
  smoke timeout cut to whole seconds; a rollback command is read as one and carries no image.
\<close>

theorem commands_roundtrip:
  assumes "in_i64 (SmokeTimeout spec)"
  shows "unmarshalCommand (Some (otaCommandBody rolloutID robotID spec)) =
      Inr (forwardCommand rolloutID robotID spec) \<and>
    unmarshalCommand (Some (rollbackCommandBody rolloutID robotID reason)) =
      Inr (rollbackCommand rolloutID robotID reason)"
  using forwardCommand_decodes [OF assms] rollbackCommand_decodes by blast

definition demoSpec :: rolloutSpec where
  "demoSpec = defaultsApplied \<lparr>ImageRef = ''app:2'', ImageDigest = '''',
     CohortSelector = \<lparr>RobotIDs = [''r1'', ''r2'', ''r3''], Labels = []\<rparr>, CanarySize = 0,
     BatchPercent = 0, FailureBudget = 0, SmokeTimeout = 0, SmokeCommand = ''true'', PullTimeout = 0,
     SwapTimeout = 0, Force = False\<rparr>"

theorem commands_roundtrip_witness:
  "unmarshalCommand (Some (otaCommandBody ''rollout-1'' ''r1'' demoSpec)) =
     Inr (forwardCommand ''rollout-1'' ''r1'' demoSpec) \<and>
   cmd_SmokeTimeoutSec (forwardCommand ''rollout-1'' ''r1'' demoSpec) = 300"
proof -
  have 1: "in_i64 (SmokeTimeout demoSpec)" by code_simp
  have 2: "cmd_SmokeTimeoutSec (forwardCommand ''rollout-1'' ''r1'' demoSpec) = 300" by code_simp
  from commands_roundtrip [OF 1] 2 show ?thesis by blast
qed

end
