(* ===== verification/OtaWorkflow.thy ===== *)
theory OtaWorkflow
  imports CloudOta
begin

text \<open>
  One robot's update in the cloud: the MQTT bridge that turns acks into workflow signals
  (\<^verbatim>\<open>cloud/internal/ota/mqttbridge.go\<close>), the per-robot workflow
  (\<^verbatim>\<open>workflow_singlerobot.go\<close>) and its rollback child (\<^verbatim>\<open>workflow_rollback.go\<close>).  A workflow's
  signals are a list of arrival times and contents; a selector takes a signal that has arrived by
  the time its timer fires, because it lists the channel before the timer.
\<close>

section \<open>Signals\<close>

record ackSignal =
  sig_Phase :: string
  sig_Detail :: string
  sig_ImageDigest :: string
  sig_PreviousImageDigest :: string

type_synonym signals = "(time \<times> ackSignal) list"

definition childID :: "string \<Rightarrow> string \<Rightarrow> string" where
  "childID rolloutID robotID = rolloutID @ ''-robot-'' @ robotID"

definition rollbackID :: "string \<Rightarrow> string \<Rightarrow> string" where
  "rollbackID rolloutID robotID = childID rolloutID robotID @ ''-rollback''"

text \<open>The bridge's handler: the workflow it signals and the signal, when the message is an ack.\<close>

definition targetWorkflowID :: "bridgeAck \<Rightarrow> string \<Rightarrow> string" where
  "targetWorkflowID ack robotID =
     (if ba_Phase ack = ''PHASE_ROLLED_BACK''
      then ba_RolloutID ack @ ''-robot-'' @ robotID @ ''-rollback''
      else ba_RolloutID ack @ ''-robot-'' @ robotID)"

definition onMessage :: "string \<Rightarrow> body \<Rightarrow> (string \<times> ackSignal) option" where
  "onMessage topic payload =
     (case ackTopicRobot topic of None \<Rightarrow> None | Some robotID \<Rightarrow>
      (case unmarshalBridgeAck payload of Inl err \<Rightarrow> None | Inr ack \<Rightarrow>
        Some (targetWorkflowID ack robotID,
          \<lparr>sig_Phase = ba_Phase ack, sig_Detail = ba_Detail ack, sig_ImageDigest = ba_ImageDigest ack,
           sig_PreviousImageDigest = ba_PreviousImageDigest ack\<rparr>)))"

text \<open>What the workflow of one ID receives of the messages on the broker, in their order.\<close>

fun deliveries :: "string \<Rightarrow> message list \<Rightarrow> ackSignal list" where
  "deliveries wfID [] = []"
| "deliveries wfID ((topic, qos, body) # ms) =
     (case onMessage topic (Some body) of
        Some (target, sig) \<Rightarrow> (if target = wfID then sig # deliveries wfID ms else deliveries wfID ms)
      | None \<Rightarrow> deliveries wfID ms)"

section \<open>Rollback of one robot\<close>

record rollbackInput =
  ri_RolloutID :: string
  ri_RobotID :: string
  ri_Reason :: string

text \<open>
  What the child workflow meets: the attempts to send, the time the send is over, its signals, the
  attempts to record, and the text the SDK gives an activity's error.
\<close>

record rollback_env =
  rv_send :: "token list"
  rv_sent :: time
  rv_signals :: signals
  rv_record :: "db_env list"
  rv_errText :: "string \<Rightarrow> string"

datatype rollbackAck = NoAck | AckRolledBack string | AckFailed string

fun rollbackLoop :: "time \<Rightarrow> signals \<Rightarrow> rollbackAck" where
  "rollbackLoop deadline [] = NoAck"
| "rollbackLoop deadline ((arr, sig) # rest) =
     (if deadline < arr then NoAck
      else if sig_Phase sig = ''PHASE_ROLLED_BACK'' then AckRolledBack (sig_Detail sig)
      else if sig_Phase sig = ''PHASE_FAILED'' then AckFailed (sig_Detail sig)
      else rollbackLoop deadline rest)"

definition OTARollback :: "rollback_env \<Rightarrow> rollbackInput \<Rightarrow> cloud \<Rightarrow> go_error option \<times> cloud" where
  "OTARollback e inp w =
     (case executeActivity maxAttempts
            (SendRollbackCommand (ri_RolloutID inp) (ri_RobotID inp) (ri_Reason inp)) (rv_send e) w of
        (Inl err, w1) \<Rightarrow>
          (Some (GoError (''send rollback failed: '' @ rv_errText e (error_text err))), w1)
      | (Inr u, w1) \<Rightarrow>
          (let rec = (\<lambda>status detail. snd (executeActivity maxAttempts
                 (actRecordRollbackOutcome (ri_RolloutID inp) (ri_RobotID inp) status detail) (rv_record e) w1))
           in case rollbackLoop (rv_sent e + 5 * minute) (rv_signals e) of
                NoAck \<Rightarrow> (Some (GoError ''rollback stuck: no ack within 5m''),
                  rec ''stuck'' ''no rollback ack within 5m'')
              | AckRolledBack detail \<Rightarrow> (None, rec ''ok'' detail)
              | AckFailed detail \<Rightarrow> (Some (GoError (''rollback failed: '' @ detail)), rec ''failed'' detail)))"

section \<open>Update of one robot\<close>

record singleInput =
  si_RolloutID :: string
  si_RobotID :: string
  si_Spec :: rolloutSpec

record single_env =
  sg_started :: time
  sg_send :: "token list"
  sg_sent :: time
  sg_signals :: signals
  sg_rollbackStart :: "go_error option"
  sg_rollback :: rollback_env
  sg_ended :: time
  sg_record :: "db_env list"
  sg_errText :: "string \<Rightarrow> string"

definition timeoutError :: "string \<Rightarrow> duration \<Rightarrow> go_error" where
  "timeoutError want timeout =
     GoError (''timeout waiting for '' @ want @ '' after '' @ durationString timeout)"

fun waitLoop :: "string \<Rightarrow> duration \<Rightarrow> time \<Rightarrow> time \<Rightarrow> signals \<Rightarrow> go_error option \<times> time \<times> signals" where
  "waitLoop want timeout deadline now [] = (Some (timeoutError want timeout), deadline, [])"
| "waitLoop want timeout deadline now ((arr, sig) # rest) =
     (if deadline < arr then (Some (timeoutError want timeout), deadline, (arr, sig) # rest)
      else if sig_Phase sig = want then (None, max now arr, rest)
      else if sig_Phase sig = ''PHASE_FAILED''
        then (Some (GoError (''robot reported failed: '' @ sig_Detail sig)), max now arr, rest)
      else if sig_Phase sig = ''PHASE_ROLLED_BACK''
        then (Some (GoError (''robot rolled back independently: '' @ sig_Detail sig)), max now arr, rest)
      else waitLoop want timeout deadline (max now arr) rest)"

text \<open>A timer of no or negative length fires at once.\<close>

definition waitForPhase :: "string \<Rightarrow> duration \<Rightarrow> time \<Rightarrow> signals \<Rightarrow> go_error option \<times> time \<times> signals" where
  "waitForPhase want timeout now sigs = waitLoop want timeout (now + max 0 timeout) now sigs"

definition executeRollback ::
  "single_env \<Rightarrow> singleInput \<Rightarrow> string \<Rightarrow> cloud \<Rightarrow> go_error option \<times> cloud" where
  "executeRollback e inp reason w =
     (case sg_rollbackStart e of Some err \<Rightarrow> (Some err, w) | None \<Rightarrow>
       OTARollback (sg_rollback e)
         \<lparr>ri_RolloutID = si_RolloutID inp, ri_RobotID = si_RobotID inp, ri_Reason = reason\<rparr> w)"

definition finishFailed :: "single_env \<Rightarrow> singleResult \<Rightarrow> string \<Rightarrow> cloud \<Rightarrow> singleResult \<times> cloud" where
  "finishFailed e res detail w =
     (let res' = res\<lparr>sr_Phase := SingleFailed, sr_Detail := detail, sr_EndedAt := sg_ended e\<rparr>
      in (res', snd (executeForever (actRecordRobotResult '''' res') (sg_record e) w)))"

definition finishRolledBack :: "single_env \<Rightarrow> singleResult \<Rightarrow> string \<Rightarrow> cloud \<Rightarrow> singleResult \<times> cloud" where
  "finishRolledBack e res detail w =
     (let res' = res\<lparr>sr_Phase := SingleRolledBack, sr_Detail := detail, sr_EndedAt := sg_ended e\<rparr>
      in (res', snd (executeForever (actRecordRobotResult '''' res') (sg_record e) w)))"

definition OTASingleRobot :: "single_env \<Rightarrow> singleInput \<Rightarrow> cloud \<Rightarrow> singleResult \<times> cloud" where
  "OTASingleRobot e inp w =
     (let res = \<lparr>sr_RobotID = si_RobotID inp, sr_Phase = '''', sr_Detail = '''',
            sr_StartedAt = sg_started e, sr_EndedAt = 0\<rparr>;
          spec = si_Spec inp in
      case executeActivity maxAttempts
             (SendOTACommand (si_RolloutID inp) (si_RobotID inp) spec) (sg_send e) w of
        (Inl err, w1) \<Rightarrow>
          finishFailed e res (''send command failed: '' @ sg_errText e (error_text err)) w1
      | (Inr u, w1) \<Rightarrow>
         (case waitForPhase ''PHASE_PULLED'' (PullTimeout spec) (sg_sent e) (sg_signals e) of
            (Some err, now1, sigs1) \<Rightarrow>
              finishRolledBack e res (error_text err)
                (snd (executeRollback e inp (''pull timeout/error: '' @ error_text err) w1))
          | (None, now1, sigs1) \<Rightarrow>
         (case waitForPhase ''PHASE_SWAPPED'' (SwapTimeout spec) now1 sigs1 of
            (Some err, now2, sigs2) \<Rightarrow>
              finishRolledBack e res (error_text err)
                (snd (executeRollback e inp (''swap timeout/error: '' @ error_text err) w1))
          | (None, now2, sigs2) \<Rightarrow>
         (case waitForPhase ''PHASE_HEALTHY'' (SmokeTimeout spec) now2 sigs2 of
            (Some err, now3, sigs3) \<Rightarrow>
              finishRolledBack e res (error_text err)
                (snd (executeRollback e inp (''smoke check failed: '' @ error_text err) w1))
          | (None, now3, sigs3) \<Rightarrow>
             (let res' = res\<lparr>sr_Phase := SingleOK, sr_EndedAt := sg_ended e\<rparr>
              in (res', snd (executeActivity maxAttempts
                    (actRecordRobotResult (si_RolloutID inp) res') (sg_record e) w1)))))))"

section \<open>Waiting for a phase\<close>

abbreviation terminalPhases :: "string set" where
  "terminalPhases \<equiv> {''PHASE_FAILED'', ''PHASE_ROLLED_BACK''}"

abbreviation phasesIn :: "signals \<Rightarrow> string set" where
  "phasesIn sigs \<equiv> (\<lambda>(arr, sig). sig_Phase sig) ` set sigs"

text \<open>The time when the last of a list of signals has been taken.\<close>

definition takenAt :: "time \<Rightarrow> signals \<Rightarrow> time" where
  "takenAt now sigs = foldl max now (map fst sigs)"

lemma takenAt_Cons [simp]: "takenAt now ((arr, sig) # sigs) = takenAt (max now arr) sigs"
  by (simp add: takenAt_def)

lemma takenAt_Nil [simp]: "takenAt now [] = now"
  by (simp add: takenAt_def)

text \<open>
  A wait succeeds exactly when the wanted phase is the first of the relevant signals and all up to
  it are in time.
\<close>

definition waitsFor :: "string \<Rightarrow> time \<Rightarrow> signals \<Rightarrow> signals \<Rightarrow> signals \<Rightarrow> bool" where
  "waitsFor want deadline sigs taken rest \<longleftrightarrow>
     sigs = taken @ rest \<and> taken \<noteq> [] \<and> sig_Phase (snd (last taken)) = want \<and>
     phasesIn (butlast taken) \<inter> insert want terminalPhases = {} \<and>
     (\<forall>(arr, sig) \<in> set taken. arr \<le> deadline)"

lemma waitsFor_Nil [simp]: "\<not> waitsFor want deadline [] taken rest"
  by (auto simp: waitsFor_def)

lemma waitsFor_hit: "sig_Phase sig = want \<Longrightarrow> waitsFor want deadline ((arr, sig) # sigs) taken rest \<longleftrightarrow>
    arr \<le> deadline \<and> taken = [(arr, sig)] \<and> rest = sigs"
  by (cases taken; cases "tl taken") (auto simp: waitsFor_def)

lemma waitsFor_skip:
  assumes "sig_Phase sig \<noteq> want"
  shows "waitsFor want deadline ((arr, sig) # sigs) taken rest \<longleftrightarrow>
    arr \<le> deadline \<and> sig_Phase sig \<notin> terminalPhases \<and>
    (\<exists>ts. taken = (arr, sig) # ts \<and> waitsFor want deadline sigs ts rest)"
  using assms by (cases taken; cases "tl taken") (auto simp: waitsFor_def)

lemma waitLoop_None:
  assumes "want \<notin> terminalPhases"
  shows "waitLoop want timeout deadline now sigs = (None, now', rest) \<longleftrightarrow>
    (\<exists>taken. waitsFor want deadline sigs taken rest \<and> now' = takenAt now taken)"
proof (induction sigs arbitrary: now)
  case Nil
  then show ?case by simp
next
  case (Cons s sigs)
  obtain arr sig where s: "s = (arr, sig)" by fastforce
  show ?case
  proof (cases "sig_Phase sig = want")
    case True
    then show ?thesis by (auto simp: s waitsFor_hit)
  next
    case False
    then show ?thesis using Cons.IH [of "max now arr"] by (auto simp: s waitsFor_skip)
  qed
qed

lemma waitForPhase_None:
  "want \<notin> terminalPhases \<Longrightarrow> waitForPhase want timeout now sigs = (None, now', rest) \<longleftrightarrow>
    (\<exists>taken. waitsFor want (now + max 0 timeout) sigs taken rest \<and> now' = takenAt now taken)"
  by (simp add: waitForPhase_def waitLoop_None)

section \<open>Activities leave their traces\<close>

lemma executeActivity_publish:
  assumes "executeActivity n (mqttPublish' body) es w = (r, w')"
    and "\<And>tok v. snd (mqttPublish' body tok v) = v\<lparr>cl_outbox := cl_outbox v @ [m]\<rparr>"
  shows "\<exists>k. w' = w\<lparr>cl_outbox := cl_outbox w @ replicate k m\<rparr> \<and> k \<le> max 1 n \<and> (es \<noteq> [] \<longrightarrow> 1 \<le> k)"
  using assms(1)
proof (induction n "mqttPublish' body" es w arbitrary: r w' rule: executeActivity.induct)
  case (1 n w)
  then show ?case by (intro exI [of _ 0]) simp
next
  case (2 n e es w)
  obtain q v where q: "mqttPublish' body e w = (q, v)" by fastforce
  then have v: "v = w\<lparr>cl_outbox := cl_outbox w @ [m]\<rparr>" using assms(2) [of e w] by simp
  show ?case
  proof (cases "(\<exists>a. q = Inr a) \<or> n \<le> 1")
    case True
    then have "w' = v" using "2.prems" q by (auto split: sum.splits if_splits)
    then show ?thesis using v by (intro exI [of _ 1]) simp
  next
    case False
    then obtain err where err: "q = Inl err" by (cases q) auto
    with False "2.prems" q have "executeActivity (n - 1) (mqttPublish' body) es v = (r, w')" by simp
    from "2.hyps" [OF q [unfolded err, symmetric] refl _ this] False
    have "\<exists>k. w' = v\<lparr>cl_outbox := cl_outbox v @ replicate k m\<rparr> \<and> k \<le> max 1 (n - 1)" by blast
    then obtain k where
      k: "w' = v\<lparr>cl_outbox := cl_outbox v @ replicate k m\<rparr>" "k \<le> max 1 (n - 1)" by blast
    then have "w' = w\<lparr>cl_outbox := cl_outbox w @ replicate (Suc k) m\<rparr>" using v by simp
    with k(2) False show ?thesis by (intro exI [of _ "Suc k"]) auto
  qed
qed

lemma SendOTACommand_trace:
  "executeActivity n (SendOTACommand ro rb spec) es w = (r, w') \<Longrightarrow>
    \<exists>k. w' = w\<lparr>cl_outbox := cl_outbox w @ replicate k (cmdOtaTopic rb, 1, otaCommandBody ro rb spec)\<rparr> \<and>
      k \<le> max 1 n \<and> (es \<noteq> [] \<longrightarrow> 1 \<le> k)"
  using executeActivity_publish [of n "\<lambda>_. SendOTACommand ro rb spec" "()"]
  by (simp add: SendOTACommand_def mqttPublish_def)

lemma SendRollbackCommand_trace:
  "executeActivity n (SendRollbackCommand ro rb reason) es w = (r, w') \<Longrightarrow>
    \<exists>k. w' = w\<lparr>cl_outbox := cl_outbox w @ replicate k (cmdOtaTopic rb, 1, rollbackCommandBody ro rb reason)\<rparr> \<and>
      k \<le> max 1 n \<and> (es \<noteq> [] \<longrightarrow> 1 \<le> k)"
  using executeActivity_publish [of n "\<lambda>_. SendRollbackCommand ro rb reason" "()"]
  by (simp add: SendRollbackCommand_def mqttPublish_def)

lemma dbActivity_outbox: "cl_outbox (snd (dbActivity stmt e w)) = cl_outbox w"
  by (simp add: dbActivity_def split: prod.split)

lemma executeActivity_frame:
  "(\<And>e v. P (snd (act e v)) = P v) \<Longrightarrow> P (snd (executeActivity n act es w)) = P w"
proof (induction n act es w rule: executeActivity.induct)
  case (2 n act e es w)
  obtain q v where q: "act e w = (q, v)" by fastforce
  then have v: "P v = P w" using 2(2) [of e w] by simp
  show ?case
  proof (cases q)
    case (Inl err)
    then show ?thesis using q v "2.IH" [OF q [symmetric] Inl] "2.prems" by (cases "n \<le> 1") simp_all
  next
    case (Inr a)
    then show ?thesis using q v by simp
  qed
qed simp

lemma rollbackRecord_outbox:
  "cl_outbox (snd (executeActivity n (actRecordRollbackOutcome ro rb st d) es w)) = cl_outbox w"
  by (rule executeActivity_frame) (simp add: actRecordRollbackOutcome_def dbActivity_outbox)

lemma robotRecord_outbox:
  "cl_outbox (snd (executeActivity n (actRecordRobotResult x res) es w)) = cl_outbox w"
  by (rule executeActivity_frame) (simp add: actRecordRobotResult_def dbActivity_outbox)

lemmas record_outbox = rollbackRecord_outbox robotRecord_outbox

definition forwardMessage :: "singleInput \<Rightarrow> message" where
  "forwardMessage inp = (cmdOtaTopic (si_RobotID inp), 1,
     otaCommandBody (si_RolloutID inp) (si_RobotID inp) (si_Spec inp))"

definition rollbackMessage :: "singleInput \<Rightarrow> string \<Rightarrow> message" where
  "rollbackMessage inp reason = (cmdOtaTopic (si_RobotID inp), 1,
     rollbackCommandBody (si_RolloutID inp) (si_RobotID inp) reason)"

lemma OTARollback_outbox:
  "\<exists>j. cl_outbox (snd (OTARollback e \<lparr>ri_RolloutID = si_RolloutID inp, ri_RobotID = si_RobotID inp,
       ri_Reason = reason\<rparr> w)) = cl_outbox w @ replicate j (rollbackMessage inp reason) \<and>
     j \<le> 5 \<and> (rv_send e \<noteq> [] \<longrightarrow> 1 \<le> j)"
proof -
  obtain r w1 where x: "executeActivity maxAttempts (SendRollbackCommand (si_RolloutID inp)
      (si_RobotID inp) reason) (rv_send e) w = (r, w1)" by fastforce
  from SendRollbackCommand_trace [OF x] obtain j where
    "cl_outbox w1 = cl_outbox w @ replicate j (rollbackMessage inp reason)" "j \<le> 5" "rv_send e \<noteq> [] \<longrightarrow> 1 \<le> j"
    by (auto simp: maxAttempts_def rollbackMessage_def)
  then show ?thesis
    using x by (intro exI [of _ j])
      (auto simp: OTARollback_def record_outbox Let_def split: sum.split rollbackAck.split)
qed

section \<open>The update of one robot, by outcome\<close>

text \<open>Which wait fails, and its error; nothing when all three succeed.\<close>

datatype waitsOutcome = AllAcked | WaitFailed string go_error

definition waitsOutcome :: "single_env \<Rightarrow> rolloutSpec \<Rightarrow> waitsOutcome" where
  "waitsOutcome e spec =
     (case waitForPhase ''PHASE_PULLED'' (PullTimeout spec) (sg_sent e) (sg_signals e) of
        (Some err, now1, sigs1) \<Rightarrow> WaitFailed ''pull timeout/error: '' err
      | (None, now1, sigs1) \<Rightarrow>
     (case waitForPhase ''PHASE_SWAPPED'' (SwapTimeout spec) now1 sigs1 of
        (Some err, now2, sigs2) \<Rightarrow> WaitFailed ''swap timeout/error: '' err
      | (None, now2, sigs2) \<Rightarrow>
     (case waitForPhase ''PHASE_HEALTHY'' (SmokeTimeout spec) now2 sigs2 of
        (Some err, now3, sigs3) \<Rightarrow> WaitFailed ''smoke check failed: '' err
      | (None, now3, sigs3) \<Rightarrow> AllAcked)))"

lemma OTASingleRobot_outcome:
  "OTASingleRobot e inp w =
     (let res = \<lparr>sr_RobotID = si_RobotID inp, sr_Phase = '''', sr_Detail = '''',
            sr_StartedAt = sg_started e, sr_EndedAt = 0\<rparr> in
      case executeActivity maxAttempts
             (SendOTACommand (si_RolloutID inp) (si_RobotID inp) (si_Spec inp)) (sg_send e) w of
        (Inl err, w1) \<Rightarrow>
          finishFailed e res (''send command failed: '' @ sg_errText e (error_text err)) w1
      | (Inr u, w1) \<Rightarrow>
         (case waitsOutcome e (si_Spec inp) of
            WaitFailed what err \<Rightarrow>
              finishRolledBack e res (error_text err)
                (snd (executeRollback e inp (what @ error_text err) w1))
          | AllAcked \<Rightarrow>
              (let res' = res\<lparr>sr_Phase := SingleOK, sr_EndedAt := sg_ended e\<rparr>
               in (res', snd (executeActivity maxAttempts
                    (actRecordRobotResult (si_RolloutID inp) res') (sg_record e) w1)))))"
  by (simp add: OTASingleRobot_def waitsOutcome_def Let_def split: prod.split sum.split option.split)

lemma waitsOutcome_AllAcked:
  "waitsOutcome e spec = AllAcked \<longleftrightarrow>
    (\<exists>p s h rest1 rest2 rest3.
       waitsFor ''PHASE_PULLED'' (sg_sent e + max 0 (PullTimeout spec)) (sg_signals e) p rest1 \<and>
       waitsFor ''PHASE_SWAPPED'' (takenAt (sg_sent e) p + max 0 (SwapTimeout spec)) rest1 s rest2 \<and>
       waitsFor ''PHASE_HEALTHY'' (takenAt (takenAt (sg_sent e) p) s + max 0 (SmokeTimeout spec)) rest2 h rest3)"
proof -
  let ?w1 = "waitForPhase ''PHASE_PULLED'' (PullTimeout spec) (sg_sent e) (sg_signals e)"
  have "waitsOutcome e spec = AllAcked \<longleftrightarrow>
      (\<exists>n1 r1 n2 r2 n3 r3. ?w1 = (None, n1, r1) \<and>
        waitForPhase ''PHASE_SWAPPED'' (SwapTimeout spec) n1 r1 = (None, n2, r2) \<and>
        waitForPhase ''PHASE_HEALTHY'' (SmokeTimeout spec) n2 r2 = (None, n3, r3))"
    by (auto simp: waitsOutcome_def split: prod.splits option.splits)
  then show ?thesis by (simp add: waitForPhase_None) blast
qed

text \<open>How the sending ended: whether any of the first five attempts was acknowledged.\<close>

fun sendAccepted :: "nat \<Rightarrow> token list \<Rightarrow> bool" where
  "sendAccepted n [] = False"
| "sendAccepted n (tok # toks) = (tok = Completed None \<or> (1 < n \<and> sendAccepted (n - 1) toks))"

lemma SendOTACommand_accepted:
  "(\<exists>u w'. executeActivity n (SendOTACommand ro rb spec) toks w = (Inr u, w')) \<longleftrightarrow> sendAccepted n toks"
proof (induction n toks arbitrary: w rule: sendAccepted.induct)
  case (1 n)
  then show ?case by simp
next
  case (2 n tok toks)
  show ?case
  proof (cases "tok = Completed None")
    case True
    then show ?thesis by (simp add: SendOTACommand_def mqttPublish_def)
  next
    case False
    then show ?thesis using "2.IH"
      by (auto simp: SendOTACommand_def mqttPublish_def split: token.splits option.splits)
  qed
qed

lemma single_phase:
  "sr_Phase (fst (OTASingleRobot e inp w)) =
     (if \<not> sendAccepted maxAttempts (sg_send e) then SingleFailed
      else if waitsOutcome e (si_Spec inp) = AllAcked then SingleOK else SingleRolledBack)"
  using SendOTACommand_accepted [of maxAttempts "si_RolloutID inp" "si_RobotID inp" "si_Spec inp" "sg_send e" w]
  by (auto simp: OTASingleRobot_outcome finishFailed_def finishRolledBack_def Let_def
      split: prod.splits sum.splits waitsOutcome.splits)

text \<open>
  C15: the per-robot workflow reports \<^verbatim>\<open>ok\<close> exactly when one of the five attempts to send was
  acknowledged and the acks PULLED, SWAPPED and HEALTHY arrive in that order, each within its
  timeout counted from the ack before, with no failure or rollback ack in between; early or repeated
  acks of other phases are skipped.
\<close>

theorem single_ok_iff:
  "sr_Phase (fst (OTASingleRobot e inp w)) = SingleOK \<longleftrightarrow>
     sendAccepted maxAttempts (sg_send e) \<and>
     (\<exists>p s h rest1 rest2 rest3.
       waitsFor ''PHASE_PULLED'' (sg_sent e + max 0 (PullTimeout (si_Spec inp))) (sg_signals e) p rest1 \<and>
       waitsFor ''PHASE_SWAPPED'' (takenAt (sg_sent e) p + max 0 (SwapTimeout (si_Spec inp))) rest1 s rest2 \<and>
       waitsFor ''PHASE_HEALTHY'' (takenAt (takenAt (sg_sent e) p) s + max 0 (SmokeTimeout (si_Spec inp))) rest2 h rest3)"
  unfolding single_phase waitsOutcome_AllAcked [symmetric] by (simp add: single_defs)

text \<open>The result does not depend on the database or on what other workflows have sent.\<close>

lemma OTASingleRobot_independent: "fst (OTASingleRobot e inp w) = fst (OTASingleRobot e inp w')"
proof -
  have "fst (executeActivity n (SendOTACommand ro rb spec) toks w) =
      fst (executeActivity n (SendOTACommand ro rb spec) toks w')" for n ro rb spec toks w w'
    by (induction n toks arbitrary: w w' rule: sendAccepted.induct)
      (auto simp: SendOTACommand_def mqttPublish_def split: token.splits option.splits)
  from this [of maxAttempts "si_RolloutID inp" "si_RobotID inp" "si_Spec inp" "sg_send e" w w']
  show ?thesis
    by (auto simp: OTASingleRobot_outcome finishFailed_def finishRolledBack_def Let_def
        split: prod.splits sum.splits waitsOutcome.splits)
qed

lemma OTASingleRobot_outbox:
  "\<exists>k j reason. cl_outbox (snd (OTASingleRobot e inp w)) =
      cl_outbox w @ replicate k (forwardMessage inp) @ replicate j (rollbackMessage inp reason) \<and>
    k \<le> 5 \<and> (sg_send e \<noteq> [] \<longrightarrow> 1 \<le> k) \<and> j \<le> 5 \<and>
    (if sr_Phase (fst (OTASingleRobot e inp w)) = SingleRolledBack
     then sg_rollbackStart e = None \<and> rv_send (sg_rollback e) \<noteq> [] \<longrightarrow> 1 \<le> j
     else j = 0)"
proof -
  obtain r w1 where x: "executeActivity maxAttempts (SendOTACommand (si_RolloutID inp) (si_RobotID inp)
      (si_Spec inp)) (sg_send e) w = (r, w1)" by fastforce
  from SendOTACommand_trace [OF x] obtain k where
    k: "cl_outbox w1 = cl_outbox w @ replicate k (forwardMessage inp)" "k \<le> 5"
      "sg_send e \<noteq> [] \<longrightarrow> 1 \<le> k"
    by (auto simp: maxAttempts_def forwardMessage_def)
  show ?thesis
  proof (cases "\<exists>what err u. r = Inr u \<and> waitsOutcome e (si_Spec inp) = WaitFailed what err")
    case False
    then have "cl_outbox (snd (OTASingleRobot e inp w)) = cl_outbox w1 \<and>
        sr_Phase (fst (OTASingleRobot e inp w)) \<noteq> SingleRolledBack"
      using x by (auto simp: OTASingleRobot_outcome finishFailed_def executeForever_def record_outbox
          Let_def single_defs split: sum.splits waitsOutcome.splits)
    then show ?thesis using k by (intro exI [of _ k] exI [of _ 0]) simp
  next
    case True
    then obtain what err u where wf: "r = Inr u" "waitsOutcome e (si_Spec inp) = WaitFailed what err" by blast
    let ?reason = "what @ error_text err"
    have out: "cl_outbox (snd (OTASingleRobot e inp w)) = cl_outbox (snd (executeRollback e inp ?reason w1))"
      "sr_Phase (fst (OTASingleRobot e inp w)) = SingleRolledBack"
      using x wf by (simp_all add: OTASingleRobot_outcome finishRolledBack_def executeForever_def
          record_outbox Let_def)
    obtain j where "cl_outbox (snd (executeRollback e inp ?reason w1)) =
        cl_outbox w1 @ replicate j (rollbackMessage inp ?reason)" "j \<le> 5"
      "sg_rollbackStart e = None \<and> rv_send (sg_rollback e) \<noteq> [] \<longrightarrow> 1 \<le> j"
      using OTARollback_outbox [of "sg_rollback e" inp ?reason w1]
      by (cases "sg_rollbackStart e") (auto simp: executeRollback_def)
    then show ?thesis using out k by (intro exI [of _ k] exI [of _ j] exI [of _ ?reason]) simp
  qed
qed

text \<open>
  The workflow of a robot sends messages to that robot only: one to five copies of the forward
  command, then, exactly when it reports \<^verbatim>\<open>rolled_back\<close>, up to five copies of one rollback
  command, at least one if the rollback child runs.
\<close>

theorem single_sends:
  "\<exists>k j reason. cl_outbox (snd (OTASingleRobot e inp w)) =
      cl_outbox w @ replicate k (forwardMessage inp) @ replicate j (rollbackMessage inp reason) \<and>
    k \<le> 5 \<and> (sg_send e \<noteq> [] \<longrightarrow> 1 \<le> k) \<and> j \<le> 5 \<and>
    (if sr_Phase (fst (OTASingleRobot e inp w)) = SingleRolledBack
     then sg_rollbackStart e = None \<and> rv_send (sg_rollback e) \<noteq> [] \<longrightarrow> 1 \<le> j
     else j = 0)"
  by (rule OTASingleRobot_outbox)

section \<open>Routing acks to workflows\<close>

lemma rollbackID_neq [simp]: "rollbackID ro r \<noteq> childID ro r" "childID ro r \<noteq> rollbackID ro r"
  by (auto simp: rollbackID_def)

definition ackMessage :: "string \<Rightarrow> otaAck \<Rightarrow> message" where
  "ackMessage robot a = (ackOtaTopic robot, 1, marshalAck a)"

definition ackSignalOf :: "otaAck \<Rightarrow> ackSignal" where
  "ackSignalOf a = \<lparr>sig_Phase = ack_Phase a, sig_Detail = ack_Detail a,
     sig_ImageDigest = ack_ImageDigest a, sig_PreviousImageDigest = ack_PreviousImageDigest a\<rparr>"

text \<open>
  An ack of a robot reaches the rollback child of that robot and rollout when it says
  ROLLED_BACK, and the update workflow of that robot and rollout otherwise, with its contents
  intact.
\<close>

theorem ack_reaches_workflow:
  assumes "slashFree robot"
  shows "onMessage (ackOtaTopic robot) (Some (marshalAck a)) =
    Some (if ack_Phase a = ''PHASE_ROLLED_BACK'' then rollbackID (ack_RolloutID a) robot
          else childID (ack_RolloutID a) robot, ackSignalOf a)"
  using assms
  by (simp add: onMessage_def parse_ack ack_decode targetWorkflowID_def rollbackID_def childID_def
      ackSignalOf_def)

lemma deliveries_child:
  assumes "slashFree robot" and "\<forall>a \<in> set as. ack_RolloutID a = ro"
  shows "deliveries (childID ro robot) (map (ackMessage robot) as) =
    map ackSignalOf (filter (\<lambda>a. ack_Phase a \<noteq> ''PHASE_ROLLED_BACK'') as)"
  using assms
  by (induction as)
    (auto simp: ackMessage_def onMessage_def parse_ack ack_decode targetWorkflowID_def childID_def
      ackSignalOf_def)

lemma deliveries_rollback:
  assumes "slashFree robot" and "\<forall>a \<in> set as. ack_RolloutID a = ro"
  shows "deliveries (rollbackID ro robot) (map (ackMessage robot) as) =
    map ackSignalOf (filter (\<lambda>a. ack_Phase a = ''PHASE_ROLLED_BACK'') as)"
  using assms
  by (induction as)
    (auto simp: ackMessage_def onMessage_def parse_ack ack_decode targetWorkflowID_def childID_def
      rollbackID_def ackSignalOf_def)

definition demoAck :: "string \<Rightarrow> otaAck" where
  "demoAck phase = \<lparr>ack_RolloutID = ''rollout-1'', ack_RobotID = ''r1'', ack_Phase = phase,
     ack_Detail = '''', ack_At = ''2026-01-01T00:00:00Z'', ack_ImageDigest = '''',
     ack_PreviousImageDigest = ''''\<rparr>"

theorem ack_reaches_workflow_witness:
  "onMessage (ackOtaTopic ''r1'') (Some (marshalAck (demoAck ''PHASE_PULLED''))) =
     Some (''rollout-1-robot-r1'', ackSignalOf (demoAck ''PHASE_PULLED''))"
proof -
  have 1: "slashFree ''r1''" by (simp add: slashFree_def)
  from ack_reaches_workflow [OF 1, of "demoAck ''PHASE_PULLED''"] show ?thesis
    by (simp add: demoAck_def childID_def)
qed

section \<open>Outcome of a rollback\<close>

text \<open>
  The first relevant signal of a rollback.  The bridge never sends it a failure: failures go to the
  update workflow.
\<close>

lemma rollbackLoop_routed:
  "(\<forall>(arr, sig) \<in> set sigs. sig_Phase sig = ''PHASE_ROLLED_BACK'') \<Longrightarrow>
     rollbackLoop deadline sigs =
       (case sigs of (arr, sig) # rest \<Rightarrow> (if arr \<le> deadline then AckRolledBack (sig_Detail sig) else NoAck)
        | [] \<Rightarrow> NoAck)"
  by (cases sigs) auto

text \<open>The record of a rollback when the first attempt of the statement succeeds.\<close>

lemma rollback_recorded:
  assumes "rv_record e = d # ds" and "dbe_fault d = None"
  shows "executeActivity maxAttempts (actRecordRollbackOutcome ro rb st det) (rv_record e) w =
    (Inr (), w\<lparr>cl_db := (cl_db w)\<lparr>ota_rollbacks := ota_rollbacks (cl_db w) @
       [\<lparr>rb_rollout_id = ro, rb_robot_id = rb, rb_status = st, rb_detail = det,
         rb_at = pgTime (dbe_now d)\<rparr>]\<rparr>\<rparr>)"
  using assms
  by (simp add: actRecordRollbackOutcome_def dbActivity_def RecordRollbackOutcome_def execStmt_def)

definition rollbackRow :: "rollbackInput \<Rightarrow> string \<Rightarrow> string \<Rightarrow> db_env \<Rightarrow> rollbackRow" where
  "rollbackRow inp st det d = \<lparr>rb_rollout_id = ri_RolloutID inp, rb_robot_id = ri_RobotID inp,
     rb_status = st, rb_detail = det, rb_at = pgTime (dbe_now d)\<rparr>"

lemma rollback_outcome_eq:
  assumes "\<forall>(arr, sig) \<in> set (rv_signals e). sig_Phase sig = ''PHASE_ROLLED_BACK''"
    and "rv_send e = Completed None # toks" and "rv_record e = d # ds" and "dbe_fault d = None"
  shows "let (err, w') = OTARollback e inp w; rows = ota_rollbacks (cl_db w) in
    (case rv_signals e of
       (arr, sig) # rest \<Rightarrow>
         if arr \<le> rv_sent e + 5 * minute
         then err = None \<and> ota_rollbacks (cl_db w') = rows @ [rollbackRow inp ''ok'' (sig_Detail sig) d]
         else err \<noteq> None \<and>
           ota_rollbacks (cl_db w') = rows @ [rollbackRow inp ''stuck'' ''no rollback ack within 5m'' d]
     | [] \<Rightarrow> err \<noteq> None \<and>
         ota_rollbacks (cl_db w') = rows @ [rollbackRow inp ''stuck'' ''no rollback ack within 5m'' d])"
proof -
  have send: "\<exists>w1. executeActivity maxAttempts (SendRollbackCommand ro rb reason) (rv_send e) w = (Inr (), w1) \<and>
      cl_db w1 = cl_db w" for ro rb reason
    using assms(2) by (simp add: SendRollbackCommand_def mqttPublish_def)
  from send [of "ri_RolloutID inp" "ri_RobotID inp" "ri_Reason inp"] obtain w1 where
    w1: "executeActivity maxAttempts (SendRollbackCommand (ri_RolloutID inp) (ri_RobotID inp) (ri_Reason inp))
      (rv_send e) w = (Inr (), w1)" "cl_db w1 = cl_db w" by blast
  show ?thesis
    using w1 assms(1)
    by (auto simp: OTARollback_def rollbackLoop_routed [OF assms(1)] rollback_recorded [OF assms(3,4)]
        rollbackRow_def Let_def split: list.split)
qed

text \<open>
  With the signals the bridge can deliver, a rollback workflow whose command was accepted ends
  in one of two ways: an ack within five minutes is recorded \<^verbatim>\<open>ok\<close> with the robot's detail,
  whatever the detail says, and the child returns no error; otherwise it is recorded \<^verbatim>\<open>stuck\<close>
  and the child fails.
\<close>

theorem rollback_outcome:
  assumes "\<forall>(arr, sig) \<in> set (rv_signals e). sig_Phase sig = ''PHASE_ROLLED_BACK''"
    and "rv_send e = Completed None # toks" and "rv_record e = d # ds" and "dbe_fault d = None"
  shows "let (err, w') = OTARollback e inp w; rows = ota_rollbacks (cl_db w) in
    (case rv_signals e of
       (arr, sig) # rest \<Rightarrow>
         if arr \<le> rv_sent e + 5 * minute
         then err = None \<and> ota_rollbacks (cl_db w') = rows @ [rollbackRow inp ''ok'' (sig_Detail sig) d]
         else err \<noteq> None \<and>
           ota_rollbacks (cl_db w') = rows @ [rollbackRow inp ''stuck'' ''no rollback ack within 5m'' d]
     | [] \<Rightarrow> err \<noteq> None \<and>
         ota_rollbacks (cl_db w') = rows @ [rollbackRow inp ''stuck'' ''no rollback ack within 5m'' d])"
  using rollback_outcome_eq [OF assms] .

definition demoRollbackEnv :: rollback_env where
  "demoRollbackEnv = \<lparr>rv_send = [Completed None], rv_sent = 0,
     rv_signals = [(second, \<lparr>sig_Phase = ''PHASE_ROLLED_BACK'', sig_Detail = ''rollback failed: x'',
        sig_ImageDigest = '''', sig_PreviousImageDigest = ''''\<rparr>)],
     rv_record = [demoDbEnv], rv_errText = (\<lambda>t. t)\<rparr>"

definition demoCloud :: cloud where
  "demoCloud = \<lparr>cl_outbox = [], cl_db = emptyDb\<rparr>"

theorem rollback_outcome_witness:
  "map rb_status (ota_rollbacks (cl_db (snd (OTARollback demoRollbackEnv
     \<lparr>ri_RolloutID = ''rollout-1'', ri_RobotID = ''r1'', ri_Reason = ''smoke''\<rparr> demoCloud)))) = [''ok'']"
proof -
  have 1: "\<forall>(arr, sig) \<in> set (rv_signals demoRollbackEnv). sig_Phase sig = ''PHASE_ROLLED_BACK''"
    by (simp add: demoRollbackEnv_def)
  have 2: "rv_send demoRollbackEnv = Completed None # []" "rv_record demoRollbackEnv = demoDbEnv # []"
    "dbe_fault demoDbEnv = None" by (simp_all add: demoRollbackEnv_def demoDbEnv_def)
  from rollback_outcome [OF 1 2, where w = demoCloud and
      inp = "\<lparr>ri_RolloutID = ''rollout-1'', ri_RobotID = ''r1'', ri_Reason = ''smoke''\<rparr>"]
  show ?thesis
    by (simp add: demoRollbackEnv_def demoCloud_def emptyDb_def rollbackRow_def case_prod_beta Let_def)
qed

text \<open>A robot that never answers: one forward command and one rollback command.\<close>

definition silentInput :: singleInput where
  "silentInput = \<lparr>si_RolloutID = ''rollout-1'', si_RobotID = ''r1'', si_Spec = demoSpec\<rparr>"

definition silentEnv :: single_env where
  "silentEnv = \<lparr>sg_started = 0, sg_send = [Completed None], sg_sent = 0, sg_signals = [],
     sg_rollbackStart = None, sg_rollback = demoRollbackEnv, sg_ended = 0,
     sg_record = [demoDbEnv], sg_errText = (\<lambda>t. t)\<rparr>"

theorem single_sends_witness:
  "\<exists>k j reason. 1 \<le> k \<and> k \<le> 5 \<and> 1 \<le> j \<and> j \<le> 5 \<and>
     cl_outbox (snd (OTASingleRobot silentEnv silentInput demoCloud)) =
       replicate k (forwardMessage silentInput) @ replicate j (rollbackMessage silentInput reason)"
proof -
  have 1: "sr_Phase (fst (OTASingleRobot silentEnv silentInput demoCloud)) = SingleRolledBack"
    by (simp add: OTASingleRobot_def silentEnv_def waitForPhase_def finishRolledBack_def Let_def
        SendOTACommand_def mqttPublish_def split: prod.split)
  have 2: "sg_send silentEnv \<noteq> []" "sg_rollbackStart silentEnv = None"
    "rv_send (sg_rollback silentEnv) \<noteq> []" "cl_outbox demoCloud = []"
    by (simp_all add: silentEnv_def demoRollbackEnv_def demoCloud_def)
  from single_sends [of silentEnv silentInput demoCloud] 1 2 show ?thesis by auto
qed

end
