(* ===== verification/Rollout.thy ===== *)
theory Rollout
  imports OtaWorkflow
begin

text \<open>
  The rollout workflow, \<^verbatim>\<open>cloud/internal/ota/workflow_rollout.go\<close>: a canary, a batch, the rest,
  with a failure budget.  The children of a batch run in parallel; they share only the broker and
  the database, and the result of each is independent of both
  (\<open>OTASingleRobot_independent\<close>), so the model lets them leave their traces one after the other;
  \<open>RolloutConcurrent\<close> shows that every other order agrees with this one.
\<close>

section \<open>Batches\<close>

definition minInt :: "int \<Rightarrow> int \<Rightarrow> int" where
  "minInt a b = (if a < b then a else b)"

definition maxInt :: "int \<Rightarrow> int \<Rightarrow> int" where
  "maxInt a b = (if a > b then a else b)"

definition failureCount :: "singleResult list \<Rightarrow> int" where
  "failureCount rs = int (length (filter (\<lambda>r. sr_Phase r \<noteq> SingleOK) rs))"

text \<open>
  What one child meets: the error of the server when it cannot be started (its ID is taken), or
  the surroundings of its run.
\<close>

record child_env =
  ch_error :: "go_error option"
  ch_single :: single_env

text \<open>
  What the rollout meets: its ID, the JSON text of its spec, the attempts of each activity, and
  the child of each batch and position.
\<close>

record rollout_env =
  ro_id :: string
  ro_specJSON :: "rolloutSpec \<Rightarrow> string"
  ro_start :: "db_env list"
  ro_cohort :: "(go_error + string list) list"
  ro_child :: "string \<Rightarrow> nat \<Rightarrow> child_env"
  ro_end :: "db_env list"
  ro_errText :: "string \<Rightarrow> string"

text \<open>A child that cannot be started counts as failed; \<^verbatim>\<open>runBatch\<close> itself never fails.\<close>

definition runChild ::
  "child_env \<Rightarrow> string \<Rightarrow> rolloutSpec \<Rightarrow> string \<Rightarrow> cloud \<Rightarrow> singleResult \<times> cloud" where
  "runChild ce rolloutID spec robot w =
     (case ch_error ce of
        Some err \<Rightarrow> (\<lparr>sr_RobotID = robot, sr_Phase = SingleFailed, sr_Detail = error_text err,
                       sr_StartedAt = 0, sr_EndedAt = 0\<rparr>, w)
      | None \<Rightarrow> OTASingleRobot (ch_single ce)
          \<lparr>si_RolloutID = rolloutID, si_RobotID = robot, si_Spec = spec\<rparr> w)"

fun runBatch ::
  "(nat \<Rightarrow> child_env) \<Rightarrow> nat \<Rightarrow> string \<Rightarrow> rolloutSpec \<Rightarrow> string list \<Rightarrow> cloud \<Rightarrow> singleResult list \<times> cloud" where
  "runBatch env i rolloutID spec [] w = ([], w)"
| "runBatch env i rolloutID spec (r # rs) w =
     (case runChild (env i) rolloutID spec r w of (res, w1) \<Rightarrow>
      (case runBatch env (Suc i) rolloutID spec rs w1 of (ress, w2) \<Rightarrow> (res # ress, w2)))"

text \<open>\<^verbatim>\<open>xs[:n]\<close>, which panics out of range.\<close>

definition sliceTo :: "int \<Rightarrow> 'a list \<Rightarrow> 'a list option" where
  "sliceTo n xs = (if 0 \<le> n \<and> n \<le> int (length xs) then Some (take (nat n) xs) else None)"

definition slicePanic :: string where
  "slicePanic = ''runtime error: slice bounds out of range''"

definition batchSizeOf :: "rolloutSpec \<Rightarrow> string list \<Rightarrow> int" where
  "batchSizeOf spec rest = maxInt 1 (quot (i64 (int (length rest) * BatchPercent spec)) 100)"

section \<open>The workflow\<close>

definition endRollout :: "rollout_env \<Rightarrow> string \<Rightarrow> string \<Rightarrow> cloud \<Rightarrow> cloud" where
  "endRollout e status detail w =
     snd (executeActivity maxAttempts (actRecordRolloutEnded (ro_id e) status detail) (ro_end e) w)"

text \<open>After the canary: the batch and the remainder.\<close>

definition runRest ::
  "rollout_env \<Rightarrow> rolloutSpec \<Rightarrow> string list \<Rightarrow> cloud \<Rightarrow> (string \<times> go_error option) go \<times> cloud" where
  "runRest e spec rest w =
     (if rest = [] then (Ok (StatusCompleted, None), endRollout e StatusCompleted '''' w)
      else
        let batchSize = batchSizeOf spec rest;
            n = minInt batchSize (int (length rest)) in
        case sliceTo n rest of None \<Rightarrow> (Panic slicePanic, w) | Some batchRobots \<Rightarrow>
        (case runBatch (ro_child e ''batch1'') 0 (ro_id e) spec batchRobots w of (batchResults, w1) \<Rightarrow>
          (if failureCount batchResults > FailureBudget spec then
             (Ok (StatusAborted, None), endRollout e StatusAborted
               (''batch1 failures '' @ showInt (failureCount batchResults) @ '' exceeded budget '' @
                showInt (FailureBudget spec)) w1)
           else
             let remainder = drop (nat n) rest in
             if remainder = [] then (Ok (StatusCompleted, None), endRollout e StatusCompleted '''' w1)
             else
               (case runBatch (ro_child e ''batch2'') 0 (ro_id e) spec remainder w1 of (remResults, w2) \<Rightarrow>
                 (if failureCount remResults > i64 (FailureBudget spec * 4) then
                    (Ok (StatusAborted, None), endRollout e StatusAborted
                      (''batch2 failures '' @ showInt (failureCount remResults) @ '' exceeded scaled budget'') w2)
                  else (Ok (StatusCompleted, None), endRollout e StatusCompleted '''' w2))))))"

definition OTARollout ::
  "rollout_env \<Rightarrow> rolloutSpec \<Rightarrow> cloud \<Rightarrow> (string \<times> go_error option) go \<times> cloud" where
  "OTARollout e spec0 w0 =
     (let spec = defaultsApplied spec0 in
      case executeActivity maxAttempts
             (actRecordRolloutStarted (ro_specJSON e) (ro_id e) spec) (ro_start e) w0 of
        (Inl err, w1) \<Rightarrow> (Ok ('''', Some err), w1)
      | (Inr u, w1) \<Rightarrow>
     (case executeActivity maxAttempts (ResolveCohort (CohortSelector spec)) (ro_cohort e) w1 of
        (Inl err, w2) \<Rightarrow>
          (Ok (StatusAborted, Some err),
           endRollout e StatusAborted (''resolve cohort failed: '' @ ro_errText e (error_text err)) w2)
      | (Inr cohort, w2) \<Rightarrow>
         (if cohort = [] then
            (Ok (StatusEmptyCohort, None), endRollout e StatusEmptyCohort ''no robots matched selector'' w2)
          else
            let canarySize = minInt (CanarySize spec) (int (length cohort)) in
            case sliceTo canarySize cohort of None \<Rightarrow> (Panic slicePanic, w2) | Some canaryRobots \<Rightarrow>
            (case runBatch (ro_child e ''canary'') 0 (ro_id e) spec canaryRobots w2 of (canaryResults, w3) \<Rightarrow>
              (if failureCount canaryResults > 0 then
                 (Ok (StatusCanaryFailed, None), endRollout e StatusCanaryFailed
                   (''canary failed on '' @ showInt (failureCount canaryResults) @ '' robot(s)'') w3)
               else runRest e spec (drop (nat canarySize) cohort) w3)))))"

section \<open>What batches leave\<close>

lemma failureCount_le: "failureCount rs \<le> int (length rs)"
  by (simp add: failureCount_def)

text \<open>A child that starts and attempts its first send.\<close>

definition childSends :: "child_env \<Rightarrow> bool" where
  "childSends ce \<longleftrightarrow> ch_error ce = None \<and> sg_send (ch_single ce) \<noteq> []"

definition forwardTo :: "string \<Rightarrow> rolloutSpec \<Rightarrow> string \<Rightarrow> message" where
  "forwardTo ro spec robot = forwardMessage \<lparr>si_RolloutID = ro, si_RobotID = robot, si_Spec = spec\<rparr>"

lemma runChild_sends:
  "\<exists>ms. cl_outbox (snd (runChild ce ro spec robot w)) = cl_outbox w @ ms \<and>
     fst ` set ms \<subseteq> {cmdOtaTopic robot} \<and>
     (childSends ce \<longrightarrow> forwardTo ro spec robot \<in> set ms)"
proof (cases "ch_error ce")
  case None
  obtain k j reason where "sg_send (ch_single ce) \<noteq> [] \<longrightarrow> 1 \<le> k" and "cl_outbox (snd (OTASingleRobot (ch_single ce)
      \<lparr>si_RolloutID = ro, si_RobotID = robot, si_Spec = spec\<rparr> w)) =
      cl_outbox w @ replicate k (forwardMessage \<lparr>si_RolloutID = ro, si_RobotID = robot, si_Spec = spec\<rparr>) @
        replicate j (rollbackMessage \<lparr>si_RolloutID = ro, si_RobotID = robot, si_Spec = spec\<rparr> reason)"
    using OTASingleRobot_outbox by blast
  with None show ?thesis
    by (auto simp: runChild_def childSends_def forwardTo_def forwardMessage_def rollbackMessage_def set_replicate_conv_if)
qed (simp add: runChild_def childSends_def)

lemma runBatch_sends:
  "\<exists>ms. cl_outbox (snd (runBatch env i ro spec robots w)) = cl_outbox w @ ms \<and>
     fst ` set ms \<subseteq> cmdOtaTopic ` set robots \<and>
     ((\<forall>k. childSends (env k)) \<longrightarrow> forwardTo ro spec ` set robots \<subseteq> set ms)"
proof (induction robots arbitrary: i w)
  case Nil
  then show ?case by simp
next
  case (Cons r rs)
  obtain res w1 where 1: "runChild (env i) ro spec r w = (res, w1)" by fastforce
  from runChild_sends [of "env i" ro spec r w] 1 obtain ms where
    ms: "cl_outbox w1 = cl_outbox w @ ms" "fst ` set ms \<subseteq> {cmdOtaTopic r}"
      "childSends (env i) \<longrightarrow> forwardTo ro spec r \<in> set ms" by auto
  from Cons.IH [of "Suc i" w1] obtain ns where
    ns: "cl_outbox (snd (runBatch env (Suc i) ro spec rs w1)) = cl_outbox w1 @ ns"
      "fst ` set ns \<subseteq> cmdOtaTopic ` set rs"
      "(\<forall>k. childSends (env k)) \<longrightarrow> forwardTo ro spec ` set rs \<subseteq> set ns" by blast
  show ?case using 1 ms ns by (intro exI [of _ "ms @ ns"]) (auto split: prod.split)
qed

lemma runBatch_results: "length (fst (runBatch env i ro spec robots w)) = length robots"
  by (induction robots arbitrary: i w) (auto split: prod.split, metis fst_conv)

lemma endRollout_outbox [simp]: "cl_outbox (endRollout e st d w) = cl_outbox w"
  unfolding endRollout_def
  by (rule executeActivity_frame) (simp add: actRecordRolloutEnded_def dbActivity_outbox)

lemma startRollout_outbox:
  "cl_outbox (snd (executeActivity n (actRecordRolloutStarted js i spec) es w)) = cl_outbox w"
  by (rule executeActivity_frame) (simp add: actRecordRolloutStarted_def dbActivity_outbox)

lemma ResolveCohort_state: "snd (executeActivity n (ResolveCohort sel) es w) = w"
  by (induction n "ResolveCohort sel" es w rule: executeActivity.induct)
    (auto simp: ResolveCohort_def split: sum.split)

section \<open>The decision a rollout makes\<close>

text \<open>The results of a batch depend on the children's surroundings only.\<close>

lemma runChild_independent: "fst (runChild ce ro spec robot w) = fst (runChild ce ro spec robot w')"
  using OTASingleRobot_independent by (simp add: runChild_def split: option.split)

lemma runBatch_independent:
  "fst (runBatch env i ro spec robots w) = fst (runBatch env i ro spec robots w')"
proof (induction robots arbitrary: i w w')
  case (Cons r rs)
  obtain res w1 where 1: "runChild (env i) ro spec r w = (res, w1)" by fastforce
  obtain res' w1' where 2: "runChild (env i) ro spec r w' = (res', w1')" by fastforce
  have "res = res'" using runChild_independent [of "env i" ro spec r w w'] 1 2 by simp
  with 1 2 Cons.IH [of "Suc i" w1 w1'] show ?case by (auto split: prod.split)
qed simp

definition quietCloud :: cloud where
  "quietCloud = \<lparr>cl_outbox = [], cl_db = emptyDb\<rparr>"

definition failuresOf :: "rollout_env \<Rightarrow> rolloutSpec \<Rightarrow> string \<Rightarrow> string list \<Rightarrow> int" where
  "failuresOf e spec name robots =
     failureCount (fst (runBatch (ro_child e name) 0 (ro_id e) spec robots quietCloud))"

lemma failuresOf_run:
  "runBatch (ro_child e name) 0 (ro_id e) spec robots w = (res, w') \<Longrightarrow>
     failureCount res = failuresOf e spec name robots"
  using runBatch_independent [of "ro_child e name" 0 "ro_id e" spec robots w quietCloud]
  by (simp add: failuresOf_def)

text \<open>The three parts of a cohort.\<close>

definition canaryOf :: "rolloutSpec \<Rightarrow> string list \<Rightarrow> string list" where
  "canaryOf spec cohort = take (nat (CanarySize spec)) cohort"

definition restOf :: "rolloutSpec \<Rightarrow> string list \<Rightarrow> string list" where
  "restOf spec cohort = drop (nat (CanarySize spec)) cohort"

definition batchOf :: "rolloutSpec \<Rightarrow> string list \<Rightarrow> string list" where
  "batchOf spec cohort = take (nat (batchSizeOf spec (restOf spec cohort))) (restOf spec cohort)"

definition remainderOf :: "rolloutSpec \<Rightarrow> string list \<Rightarrow> string list" where
  "remainderOf spec cohort = drop (nat (batchSizeOf spec (restOf spec cohort))) (restOf spec cohort)"

lemmas cohort_parts = canaryOf_def restOf_def batchOf_def remainderOf_def

lemma cohort_split: "canaryOf spec cohort @ batchOf spec cohort @ remainderOf spec cohort = cohort"
  unfolding cohort_parts by (simp only: append_take_drop_id)

lemma batchSizeOf_pos: "1 \<le> batchSizeOf spec rest"
  by (simp add: batchSizeOf_def maxInt_def)

lemma batch_nonempty: "restOf spec cohort \<noteq> [] \<Longrightarrow> batchOf spec cohort \<noteq> []"
  using batchSizeOf_pos [of spec "restOf spec cohort"] by (simp add: batchOf_def)

text \<open>Which batches pass, and what the rollout says.\<close>

definition canaryFails :: "rollout_env \<Rightarrow> rolloutSpec \<Rightarrow> string list \<Rightarrow> bool" where
  "canaryFails e spec cohort \<longleftrightarrow> 0 < failuresOf e spec ''canary'' (canaryOf spec cohort)"

definition batchFails :: "rollout_env \<Rightarrow> rolloutSpec \<Rightarrow> string list \<Rightarrow> bool" where
  "batchFails e spec cohort \<longleftrightarrow> restOf spec cohort \<noteq> [] \<and>
     FailureBudget spec < failuresOf e spec ''batch1'' (batchOf spec cohort)"

definition remainderFails :: "rollout_env \<Rightarrow> rolloutSpec \<Rightarrow> string list \<Rightarrow> bool" where
  "remainderFails e spec cohort \<longleftrightarrow> remainderOf spec cohort \<noteq> [] \<and>
     i64 (FailureBudget spec * 4) < failuresOf e spec ''batch2'' (remainderOf spec cohort)"

definition decide :: "rollout_env \<Rightarrow> rolloutSpec \<Rightarrow> string list \<Rightarrow> string" where
  "decide e spec cohort =
     (if cohort = [] then StatusEmptyCohort
      else if canaryFails e spec cohort then StatusCanaryFailed
      else if batchFails e spec cohort \<or> remainderFails e spec cohort then StatusAborted
      else StatusCompleted)"

definition contacted :: "rollout_env \<Rightarrow> rolloutSpec \<Rightarrow> string list \<Rightarrow> string list" where
  "contacted e spec cohort =
     canaryOf spec cohort @
     (if canaryFails e spec cohort then []
      else batchOf spec cohort @ (if batchFails e spec cohort then [] else remainderOf spec cohort))"

text \<open>What the body of the workflow does once the cohort is known.\<close>

definition rolloutBody :: "rollout_env \<Rightarrow> rolloutSpec \<Rightarrow> string list \<Rightarrow> cloud \<Rightarrow> (string \<times> go_error option) go \<times> cloud" where
  "rolloutBody e spec cohort w2 =
     (if cohort = [] then
        (Ok (StatusEmptyCohort, None), endRollout e StatusEmptyCohort ''no robots matched selector'' w2)
      else
        let canarySize = minInt (CanarySize spec) (int (length cohort)) in
        case sliceTo canarySize cohort of None \<Rightarrow> (Panic slicePanic, w2) | Some canaryRobots \<Rightarrow>
        (case runBatch (ro_child e ''canary'') 0 (ro_id e) spec canaryRobots w2 of (canaryResults, w3) \<Rightarrow>
          (if failureCount canaryResults > 0 then
             (Ok (StatusCanaryFailed, None), endRollout e StatusCanaryFailed
               (''canary failed on '' @ showInt (failureCount canaryResults) @ '' robot(s)'') w3)
           else runRest e spec (drop (nat canarySize) cohort) w3)))"

lemma OTARollout_body:
  "OTARollout e spec0 w0 =
     (case executeActivity maxAttempts
             (actRecordRolloutStarted (ro_specJSON e) (ro_id e) (defaultsApplied spec0)) (ro_start e) w0 of
        (Inl err, w1) \<Rightarrow> (Ok ('''', Some err), w1)
      | (Inr u, w1) \<Rightarrow>
     (case fst (executeActivity maxAttempts (ResolveCohort (CohortSelector (defaultsApplied spec0))) (ro_cohort e) w1) of
        Inl err \<Rightarrow>
          (Ok (StatusAborted, Some err),
           endRollout e StatusAborted (''resolve cohort failed: '' @ ro_errText e (error_text err)) w1)
      | Inr cohort \<Rightarrow> rolloutBody e (defaultsApplied spec0) cohort w1))"
proof -
  obtain r w1 where 1: "executeActivity maxAttempts
      (actRecordRolloutStarted (ro_specJSON e) (ro_id e) (defaultsApplied spec0)) (ro_start e) w0 = (r, w1)"
    by fastforce
  obtain q w2 where 2: "executeActivity maxAttempts (ResolveCohort (CohortSelector (defaultsApplied spec0)))
      (ro_cohort e) w1 = (q, w2)" by fastforce
  have "w2 = w1"
    using ResolveCohort_state [of maxAttempts "CohortSelector (defaultsApplied spec0)" "ro_cohort e" w1] 2
    by simp
  with 1 2 show ?thesis
    by (cases r; cases q) (simp_all only: OTARollout_def rolloutBody_def Let_def prod.case sum.case fst_conv)
qed

lemma slice_canary:
  "0 \<le> CanarySize spec \<Longrightarrow>
     sliceTo (minInt (CanarySize spec) (int (length cohort))) cohort = Some (canaryOf spec cohort) \<and>
     drop (nat (minInt (CanarySize spec) (int (length cohort)))) cohort = restOf spec cohort"
  by (auto simp: sliceTo_def minInt_def cohort_parts)

lemma slice_batch:
  "sliceTo (minInt (batchSizeOf spec rest) (int (length rest))) rest =
     Some (take (nat (batchSizeOf spec rest)) rest) \<and>
   drop (nat (minInt (batchSizeOf spec rest) (int (length rest)))) rest = drop (nat (batchSizeOf spec rest)) rest"
  using batchSizeOf_pos [of spec rest] by (auto simp: sliceTo_def minInt_def)

lemma dbActivity_rollouts:
  "(\<And>e t. ota_rollouts (snd (stmt e t)) = ota_rollouts t) \<Longrightarrow>
     ota_rollouts (cl_db (snd (dbActivity stmt e w))) = ota_rollouts (cl_db w)"
  by (simp add: dbActivity_def split: prod.split) (metis snd_conv)

lemma executeActivity_rollouts:
  "ota_rollouts (cl_db (snd (executeActivity n (SendOTACommand a b c) es w))) = ota_rollouts (cl_db w)"
  "ota_rollouts (cl_db (snd (executeActivity n (SendRollbackCommand a b d) es w))) = ota_rollouts (cl_db w)"
  "ota_rollouts (cl_db (snd (executeActivity n (actRecordRobotResult x res) ds w))) = ota_rollouts (cl_db w)"
  "ota_rollouts (cl_db (snd (executeActivity n (actRecordRollbackOutcome a b st d) ds w))) = ota_rollouts (cl_db w)"
  by (rule executeActivity_frame,
      simp add: SendOTACommand_def SendRollbackCommand_def mqttPublish_def actRecordRobotResult_def
        actRecordRollbackOutcome_def dbActivity_rollouts RecordRobotResult_def
        RecordRollbackOutcome_def execStmt_def split: option.split)+

lemma OTARollback_rollouts: "ota_rollouts (cl_db (snd (OTARollback e inp w))) = ota_rollouts (cl_db w)"
proof -
  obtain r w1 where x: "executeActivity maxAttempts (SendRollbackCommand (ri_RolloutID inp) (ri_RobotID inp)
      (ri_Reason inp)) (rv_send e) w = (r, w1)" by fastforce
  have "ota_rollouts (cl_db w1) = ota_rollouts (cl_db w)"
    using executeActivity_rollouts(2) [of maxAttempts "ri_RolloutID inp" "ri_RobotID inp" "ri_Reason inp"
        "rv_send e" w] x by simp
  then show ?thesis
    using x by (simp add: OTARollback_def Let_def executeActivity_rollouts split: sum.split rollbackAck.split)
qed

lemma OTASingleRobot_rollouts: "ota_rollouts (cl_db (snd (OTASingleRobot e inp w))) = ota_rollouts (cl_db w)"
proof -
  obtain r w1 where x: "executeActivity maxAttempts (SendOTACommand (si_RolloutID inp) (si_RobotID inp)
      (si_Spec inp)) (sg_send e) w = (r, w1)" by fastforce
  have w1: "ota_rollouts (cl_db w1) = ota_rollouts (cl_db w)"
    using executeActivity_rollouts(1) [of maxAttempts "si_RolloutID inp" "si_RobotID inp" "si_Spec inp"
        "sg_send e" w] x by simp
  have "ota_rollouts (cl_db (snd (executeRollback e inp reason w1))) = ota_rollouts (cl_db w1)" for reason
    by (simp add: executeRollback_def OTARollback_rollouts split: option.split)
  with w1 x show ?thesis
    by (simp add: OTASingleRobot_outcome finishFailed_def finishRolledBack_def executeForever_def Let_def
        executeActivity_rollouts split: sum.split waitsOutcome.split)
qed

lemma runBatch_rollouts:
  "ota_rollouts (cl_db (snd (runBatch env i ro spec robots w))) = ota_rollouts (cl_db w)"
proof (induction robots arbitrary: i w)
  case (Cons r rs)
  obtain res w1 where 1: "runChild (env i) ro spec r w = (res, w1)" by fastforce
  have "ota_rollouts (cl_db (snd (runChild (env i) ro spec r w))) = ota_rollouts (cl_db w)"
    by (simp add: runChild_def OTASingleRobot_rollouts split: option.split)
  with 1 Cons.IH [of "Suc i" w1] show ?case by (simp split: prod.split) (metis snd_conv)
qed simp

text \<open>One batch, seen from the rollout.\<close>

definition batchTrace :: "rollout_env \<Rightarrow> rolloutSpec \<Rightarrow> string list \<Rightarrow> cloud \<Rightarrow> cloud \<Rightarrow> bool" where
  "batchTrace e spec robots w w' \<longleftrightarrow> ota_rollouts (cl_db w') = ota_rollouts (cl_db w) \<and>
     (\<exists>ms. cl_outbox w' = cl_outbox w @ ms \<and> fst ` set ms \<subseteq> cmdOtaTopic ` set robots \<and>
       ((\<forall>name k. childSends (ro_child e name k)) \<longrightarrow> forwardTo (ro_id e) spec ` set robots \<subseteq> set ms))"

lemma batchTrace_refl: "batchTrace e spec [] w w"
  by (simp add: batchTrace_def)

lemma batchTrace_trans:
  assumes "batchTrace e spec xs w w1" and "batchTrace e spec ys w1 w2"
  shows "batchTrace e spec (xs @ ys) w w2"
proof -
  let ?all = "\<forall>name k. childSends (ro_child e name k)" and ?f = "forwardTo (ro_id e) spec"
  from assms(1) obtain ms where ms: "cl_outbox w1 = cl_outbox w @ ms"
    "fst ` set ms \<subseteq> cmdOtaTopic ` set xs" "?all \<longrightarrow> ?f ` set xs \<subseteq> set ms"
    unfolding batchTrace_def by (elim conjE exE)
  from assms(2) obtain ns where ns: "cl_outbox w2 = cl_outbox w1 @ ns"
    "fst ` set ns \<subseteq> cmdOtaTopic ` set ys" "?all \<longrightarrow> ?f ` set ys \<subseteq> set ns"
    unfolding batchTrace_def by (elim conjE exE)
  have "?all \<longrightarrow> ?f ` set (xs @ ys) \<subseteq> set (ms @ ns)" using ms(3) ns(3) by (simp add: image_Un le_supI1 le_supI2)
  moreover have "fst ` set (ms @ ns) \<subseteq> cmdOtaTopic ` set (xs @ ys)"
    using ms(2) ns(2) by (simp add: image_Un le_supI1 le_supI2)
  moreover have "cl_outbox w2 = cl_outbox w @ (ms @ ns)" using ms(1) ns(1) by simp
  moreover have "ota_rollouts (cl_db w2) = ota_rollouts (cl_db w)"
    using assms unfolding batchTrace_def by simp
  ultimately show ?thesis unfolding batchTrace_def by (intro conjI exI [of _ "ms @ ns"])
qed

lemma runBatch_trace:
  "runBatch (ro_child e name) i (ro_id e) spec robots w = (res, w') \<Longrightarrow> batchTrace e spec robots w w'"
proof -
  assume run: "runBatch (ro_child e name) i (ro_id e) spec robots w = (res, w')"
  obtain ms where "cl_outbox w' = cl_outbox w @ ms" "fst ` set ms \<subseteq> cmdOtaTopic ` set robots"
    "(\<forall>k. childSends (ro_child e name k)) \<longrightarrow> forwardTo (ro_id e) spec ` set robots \<subseteq> set ms"
    using runBatch_sends [of "ro_child e name" i "ro_id e" spec robots w] run by auto
  moreover have "ota_rollouts (cl_db w') = ota_rollouts (cl_db w)"
    using runBatch_rollouts [of "ro_child e name" i "ro_id e" spec robots w] run by simp
  ultimately show ?thesis unfolding batchTrace_def by (intro conjI exI [of _ ms]) simp_all
qed

definition restContacted :: "rollout_env \<Rightarrow> rolloutSpec \<Rightarrow> string list \<Rightarrow> string list" where
  "restContacted e spec cohort =
     batchOf spec cohort @ (if batchFails e spec cohort then [] else remainderOf spec cohort)"

definition restDecides :: "rollout_env \<Rightarrow> rolloutSpec \<Rightarrow> string list \<Rightarrow> string" where
  "restDecides e spec cohort =
     (if batchFails e spec cohort \<or> remainderFails e spec cohort then StatusAborted else StatusCompleted)"

lemma runRest_spec:
  "\<exists>v d. runRest e spec (restOf spec cohort) w =
      (Ok (restDecides e spec cohort, None), endRollout e (restDecides e spec cohort) d v) \<and>
    batchTrace e spec (restContacted e spec cohort) w v"
proof (cases "restOf spec cohort = []")
  case True
  then have "batchOf spec cohort = []" "remainderOf spec cohort = []" "\<not> batchFails e spec cohort"
      "\<not> remainderFails e spec cohort"
    by (simp_all add: batchOf_def remainderOf_def batchFails_def remainderFails_def)
  then show ?thesis using True batchTrace_refl
    by (auto simp: runRest_def restDecides_def restContacted_def)
next
  case False
  obtain bres w1 where b: "runBatch (ro_child e ''batch1'') 0 (ro_id e) spec (batchOf spec cohort) w = (bres, w1)"
    by fastforce
  obtain rres w2 where r: "runBatch (ro_child e ''batch2'') 0 (ro_id e) spec (remainderOf spec cohort) w1 = (rres, w2)"
    by fastforce
  note slices = slice_batch [of spec "restOf spec cohort", folded batchOf_def remainderOf_def]
  have run: "runRest e spec (restOf spec cohort) w =
     (if batchFails e spec cohort then
        (Ok (StatusAborted, None), endRollout e StatusAborted
           (''batch1 failures '' @ showInt (failureCount bres) @ '' exceeded budget '' @
            showInt (FailureBudget spec)) w1)
      else if remainderOf spec cohort = [] then (Ok (StatusCompleted, None), endRollout e StatusCompleted '''' w1)
      else if remainderFails e spec cohort then
        (Ok (StatusAborted, None), endRollout e StatusAborted
           (''batch2 failures '' @ showInt (failureCount rres) @ '' exceeded scaled budget'') w2)
      else (Ok (StatusCompleted, None), endRollout e StatusCompleted '''' w2))"
    using False slices b r
    by (simp add: runRest_def Let_def batchFails_def remainderFails_def
        failuresOf_run [OF b, symmetric] failuresOf_run [OF r, symmetric] del: append.simps)
  have 1: "batchTrace e spec (batchOf spec cohort) w w1" using b by (rule runBatch_trace)
  have 2: "batchTrace e spec (batchOf spec cohort @ remainderOf spec cohort) w w2"
    using 1 runBatch_trace [OF r] by (rule batchTrace_trans)
  show ?thesis
    unfolding run restDecides_def restContacted_def
    using 1 2 by (cases "batchFails e spec cohort"; cases "remainderOf spec cohort = []")
      (auto simp: remainderFails_def)
qed

lemma decide_canary:
  "cohort \<noteq> [] \<Longrightarrow> decide e spec cohort =
     (if canaryFails e spec cohort then StatusCanaryFailed else restDecides e spec cohort)"
  by (simp add: decide_def restDecides_def)

lemma contacted_canary:
  "contacted e spec cohort =
     canaryOf spec cohort @ (if canaryFails e spec cohort then [] else restContacted e spec cohort)"
  by (simp add: contacted_def restContacted_def)

lemma rolloutBody_spec:
  assumes "0 \<le> CanarySize spec"
  shows "\<exists>v d. rolloutBody e spec cohort w =
      (Ok (decide e spec cohort, None), endRollout e (decide e spec cohort) d v) \<and>
    batchTrace e spec (contacted e spec cohort) w v"
proof (cases "cohort = []")
  case True
  then have "contacted e spec cohort = []" by (simp add: contacted_def cohort_parts)
  then show ?thesis using True batchTrace_refl by (auto simp: rolloutBody_def decide_def)
next
  case False
  obtain cres w1 where c: "runBatch (ro_child e ''canary'') 0 (ro_id e) spec (canaryOf spec cohort) w = (cres, w1)"
    by fastforce
  have run: "rolloutBody e spec cohort w =
     (if canaryFails e spec cohort then
        (Ok (StatusCanaryFailed, None), endRollout e StatusCanaryFailed
           (''canary failed on '' @ showInt (failureCount cres) @ '' robot(s)'') w1)
      else runRest e spec (restOf spec cohort) w1)"
    using False c slice_canary [OF assms, of cohort]
    by (simp add: rolloutBody_def Let_def canaryFails_def failuresOf_run [OF c, symmetric] del: append.simps)
  have 1: "batchTrace e spec (canaryOf spec cohort) w w1" using c by (rule runBatch_trace)
  show ?thesis
  proof (cases "canaryFails e spec cohort")
    case True
    then show ?thesis unfolding run decide_canary [OF False] contacted_canary using 1 by auto
  next
    case passed: False
    obtain v d where rest: "runRest e spec (restOf spec cohort) w1 =
        (Ok (restDecides e spec cohort, None), endRollout e (restDecides e spec cohort) d v)"
      "batchTrace e spec (restContacted e spec cohort) w1 v"
      using runRest_spec by blast
    then show ?thesis
      unfolding run decide_canary [OF False] contacted_canary
      using passed batchTrace_trans [OF 1 rest(2)] by auto
  qed
qed

section \<open>Properties\<close>

text \<open>The start is recorded and the cohort known.\<close>

definition rolloutOpened :: "rollout_env \<Rightarrow> rolloutSpec \<Rightarrow> cloud \<Rightarrow> (go_error + unit) \<times> cloud" where
  "rolloutOpened e spec w = executeActivity maxAttempts
     (actRecordRolloutStarted (ro_specJSON e) (ro_id e) (defaultsApplied spec)) (ro_start e) w"

definition resolved :: "rollout_env \<Rightarrow> rolloutSpec \<Rightarrow> cloud \<Rightarrow> string list \<Rightarrow> bool" where
  "resolved e spec w cohort \<longleftrightarrow> fst (rolloutOpened e spec w) = Inr () \<and>
     fst (executeActivity maxAttempts (ResolveCohort (CohortSelector (defaultsApplied spec))) (ro_cohort e)
       (snd (rolloutOpened e spec w))) = Inr cohort"

lemma OTARollout_resolved:
  "resolved e spec w cohort \<Longrightarrow>
     OTARollout e spec w = rolloutBody e (defaultsApplied spec) cohort (snd (rolloutOpened e spec w))"
  by (cases "rolloutOpened e spec w") (auto simp: resolved_def OTARollout_body rolloutOpened_def)

lemma defaults_canary: "0 \<le> CanarySize spec \<Longrightarrow> 1 \<le> CanarySize (defaultsApplied spec)"
  by (simp add: defaultsApplied_def Let_def)

lemma OTARollout_spec:
  assumes "resolved e spec w cohort" and "0 \<le> CanarySize spec"
  shows "\<exists>v d. OTARollout e spec w = (Ok (decide e (defaultsApplied spec) cohort, None),
       endRollout e (decide e (defaultsApplied spec) cohort) d v) \<and>
    batchTrace e (defaultsApplied spec) (contacted e (defaultsApplied spec) cohort)
      (snd (rolloutOpened e spec w)) v"
  using rolloutBody_spec [of "defaultsApplied spec"] defaults_canary [OF assms(2)]
  by (simp add: OTARollout_resolved [OF assms(1)])

text \<open>
  C4: the workflow implements the decision: an empty cohort, a failed canary, too many failures in
  the first batch, then in the remainder, else completed; it never panics when the canary size is
  not negative.
\<close>

theorem rollout_implements_decision:
  assumes "resolved e spec w cohort" and "0 \<le> CanarySize spec"
  shows "fst (OTARollout e spec w) = Ok (decide e (defaultsApplied spec) cohort, None)"
  using OTARollout_spec [OF assms] by auto

text \<open>
  C31: a rollout that completed had no failure in the canary, at most the budget in the first batch
  and four times the budget in the remainder, so no more than five times the budget in all.
\<close>

theorem completed_within_budget:
  assumes "resolved e spec w cohort" and "0 \<le> CanarySize spec"
    and "0 \<le> FailureBudget spec" and "in_i64 (FailureBudget spec * 4)"
    and "fst (OTARollout e spec w) = Ok (StatusCompleted, None)"
  shows "failuresOf e (defaultsApplied spec) ''canary'' (canaryOf (defaultsApplied spec) cohort) = 0 \<and>
    failuresOf e (defaultsApplied spec) ''batch1'' (batchOf (defaultsApplied spec) cohort) +
    failuresOf e (defaultsApplied spec) ''batch2'' (remainderOf (defaultsApplied spec) cohort)
      \<le> 5 * FailureBudget spec"
proof -
  let ?s = "defaultsApplied spec"
  have fb: "FailureBudget ?s = FailureBudget spec" by (simp add: defaultsApplied_def Let_def)
  have none: "failuresOf e ?s name [] = 0" for name by (simp add: failuresOf_def failureCount_def)
  have "decide e ?s cohort = StatusCompleted"
    using OTARollout_spec [OF assms(1,2)] assms(5) by auto
  then have ok: "\<not> canaryFails e ?s cohort" "\<not> batchFails e ?s cohort" "\<not> remainderFails e ?s cohort"
    by (simp_all add: decide_def status_defs split: if_splits)
  have nonneg: "0 \<le> failuresOf e ?s ''canary'' (canaryOf ?s cohort)"
    by (simp add: failuresOf_def failureCount_def)
  have 1: "failuresOf e ?s ''batch1'' (batchOf ?s cohort) \<le> FailureBudget spec"
    using ok(2) none [of "''batch1''"] assms(3)
    by (cases "restOf ?s cohort = []") (auto simp: batchFails_def fb batchOf_def)
  have 2: "failuresOf e ?s ''batch2'' (remainderOf ?s cohort) \<le> FailureBudget spec * 4"
    using ok(3) none [of "''batch2''"] assms(3,4)
    by (cases "remainderOf ?s cohort = []") (auto simp: remainderFails_def fb)
  show ?thesis using ok(1) nonneg 1 2 by (simp add: canaryFails_def)
qed

text \<open>
  C7: the rollout sends messages only to the robots of the batches it reached: when the canary
  fails, to no robot outside the canary; when the first batch exceeds the budget, to none of the
  remainder.
\<close>

theorem rollout_blast_radius:
  assumes "resolved e spec w cohort" and "0 \<le> CanarySize spec"
  shows "\<exists>ms. cl_outbox (snd (OTARollout e spec w)) = cl_outbox w @ ms \<and>
    fst ` set ms \<subseteq> cmdOtaTopic ` set
      (if fst (OTARollout e spec w) = Ok (StatusCanaryFailed, None)
       then canaryOf (defaultsApplied spec) cohort
       else if batchFails e (defaultsApplied spec) cohort
       then canaryOf (defaultsApplied spec) cohort @ batchOf (defaultsApplied spec) cohort
       else cohort)"
proof -
  let ?s = "defaultsApplied spec"
  obtain v d where x: "OTARollout e spec w = (Ok (decide e ?s cohort, None), endRollout e (decide e ?s cohort) d v)"
    and tr: "batchTrace e ?s (contacted e ?s cohort) (snd (rolloutOpened e spec w)) v"
    using OTARollout_spec [OF assms] by blast
  have opened: "cl_outbox (snd (rolloutOpened e spec w)) = cl_outbox w"
    by (simp add: rolloutOpened_def startRollout_outbox)
  have canary: "decide e ?s cohort = StatusCanaryFailed \<Longrightarrow> canaryFails e ?s cohort"
    by (simp add: decide_def status_defs split: if_splits)
  have all: "set (contacted e ?s cohort) \<subseteq> set cohort"
    using arg_cong [OF cohort_split [of ?s cohort], of set] by (auto simp: contacted_def split: if_splits)
  let ?reach = "if fst (OTARollout e spec w) = Ok (StatusCanaryFailed, None) then canaryOf ?s cohort
       else if batchFails e ?s cohort then canaryOf ?s cohort @ batchOf ?s cohort else cohort"
  have "set (contacted e ?s cohort) \<subseteq> set ?reach"
    using all canary x by (auto simp: contacted_def)
  then have reach: "cmdOtaTopic ` set (contacted e ?s cohort) \<subseteq> cmdOtaTopic ` set ?reach"
    by (rule image_mono)
  from tr obtain ms where ms: "cl_outbox v = cl_outbox w @ ms"
      "fst ` set ms \<subseteq> cmdOtaTopic ` set (contacted e ?s cohort)"
    unfolding batchTrace_def opened by blast
  have "cl_outbox (snd (OTARollout e spec w)) = cl_outbox w @ ms" using x ms(1) by simp
  with subset_trans [OF ms(2) reach] show ?thesis by blast
qed

text \<open>
  C33: when every child starts, a rollout that completes has sent the forward command to every robot
  of the cohort.
\<close>

theorem completed_reaches_cohort:
  assumes "resolved e spec w cohort" and "0 \<le> CanarySize spec"
    and "\<forall>name k. childSends (ro_child e name k)"
    and "fst (OTARollout e spec w) = Ok (StatusCompleted, None)"
  shows "\<forall>robot \<in> set cohort. forwardTo (ro_id e) (defaultsApplied spec) robot
    \<in> set (cl_outbox (snd (OTARollout e spec w)))"
proof -
  let ?s = "defaultsApplied spec"
  obtain v d where x: "OTARollout e spec w = (Ok (decide e ?s cohort, None), endRollout e (decide e ?s cohort) d v)"
    and tr: "batchTrace e ?s (contacted e ?s cohort) (snd (rolloutOpened e spec w)) v"
    using OTARollout_spec [OF assms(1,2)] by blast
  have "decide e ?s cohort = StatusCompleted" using x assms(4) by simp
  then have "\<not> canaryFails e ?s cohort" "\<not> batchFails e ?s cohort"
    by (simp_all add: decide_def status_defs split: if_splits)
  then have "contacted e ?s cohort = cohort" by (simp add: contacted_def cohort_split)
  with tr assms(3) x show ?thesis unfolding batchTrace_def by auto
qed

lemma opened_status:
  "executeActivity n (actRecordRolloutStarted js i spec) es w = (Inr (), w') \<Longrightarrow>
     rolloutStatus (cl_db w') = (if rolloutStatus (cl_db w) i = None
       then (rolloutStatus (cl_db w))(i \<mapsto> ''pending'') else rolloutStatus (cl_db w))"
proof (induction n "actRecordRolloutStarted js i spec" es w arbitrary: w' rule: executeActivity.induct)
  case (2 n e es w)
  obtain err t where st: "RecordRolloutStarted e i (js spec) (cl_db w) = (err, t)" by fastforce
  have act: "actRecordRolloutStarted js i spec e w =
      ((case err of None \<Rightarrow> Inr () | Some er \<Rightarrow> Inl er), w\<lparr>cl_db := t\<rparr>)"
    using st by (simp add: actRecordRolloutStarted_def dbActivity_def)
  show ?case
  proof (cases err)
    case None
    then have "w' = w\<lparr>cl_db := t\<rparr>" using "2.prems" act by simp
    then show ?thesis using st None rollouts.open_ok [of e i "js spec" "cl_db w" t] by simp
  next
    case (Some er)
    have same: "rolloutStatus t = rolloutStatus (cl_db w)"
      using rollouts.open_error [of e i "js spec" "cl_db w" er t] st Some by simp
    show ?thesis
    proof (cases "n \<le> 1")
      case False
      then show ?thesis using "2.hyps" [of "Inl er" "w\<lparr>cl_db := t\<rparr>" er] "2.prems" act Some same by simp
    qed (use "2.prems" act Some in simp)
  qed
qed simp

text \<open>
  C32: a rollout whose end can be recorded leaves the status it returns in the table, and the states
  of all other rollouts as they were.
\<close>

theorem rollout_status_recorded:
  assumes "resolved e spec w cohort" and "0 \<le> CanarySize spec"
    and "ro_end e = d # ds" and "dbe_fault d = None"
  shows "rolloutStatus (cl_db (snd (OTARollout e spec w))) =
    (rolloutStatus (cl_db w))(ro_id e \<mapsto> decide e (defaultsApplied spec) cohort)"
proof -
  let ?s = "defaultsApplied spec" and ?w1 = "snd (rolloutOpened e spec w)"
  obtain v dt where x: "OTARollout e spec w = (Ok (decide e ?s cohort, None), endRollout e (decide e ?s cohort) dt v)"
    and tr: "batchTrace e ?s (contacted e ?s cohort) ?w1 v"
    using OTARollout_spec [OF assms(1,2)] by blast
  have "rolloutOpened e spec w = (Inr (), ?w1)" using assms(1) by (simp add: resolved_def prod_eq_iff)
  from opened_status [OF this [unfolded rolloutOpened_def]]
  have w1: "rolloutStatus (cl_db ?w1) = (if rolloutStatus (cl_db w) (ro_id e) = None
      then (rolloutStatus (cl_db w))(ro_id e \<mapsto> ''pending'') else rolloutStatus (cl_db w))"
    by (simp add: rolloutOpened_def)
  have v: "rolloutStatus (cl_db v) = rolloutStatus (cl_db ?w1)"
    using tr by (simp add: batchTrace_def rolloutStatus_def fun_eq_iff)
  obtain t where t: "RecordRolloutEnded d (ro_id e) (decide e ?s cohort) dt (cl_db v) = (None, t)"
    using assms(4) by (simp add: RecordRolloutEnded_def execStmt_def)
  have "cl_db (snd (OTARollout e spec w)) = t"
    using x t assms(3) by (simp add: endRollout_def actRecordRolloutEnded_def dbActivity_def)
  then show ?thesis using rollouts.close_ok [OF t] v w1 by (auto simp: fun_eq_iff)
qed

text \<open>
  A negative canary size makes the workflow panic for every cohort that is not empty, before any
  robot is contacted, and the rollout stays \<^verbatim>\<open>pending\<close> in the table.
\<close>

theorem negative_canary_panics:
  assumes "resolved e spec w cohort" and "cohort \<noteq> []" and "CanarySize spec < 0"
  shows "OTARollout e spec w = (Panic slicePanic, snd (rolloutOpened e spec w)) \<and>
    cl_outbox (snd (OTARollout e spec w)) = cl_outbox w \<and>
    (rolloutStatus (cl_db w) (ro_id e) = None \<longrightarrow>
     rolloutStatus (cl_db (snd (OTARollout e spec w))) (ro_id e) = Some ''pending'')"
proof -
  have w1: "rolloutOpened e spec w = (Inr (), snd (rolloutOpened e spec w))"
    using assms(1) by (simp add: resolved_def prod_eq_iff)
  have "CanarySize (defaultsApplied spec) < 0" using assms(3) by (simp add: defaultsApplied_def Let_def)
  then have "OTARollout e spec w = (Panic slicePanic, snd (rolloutOpened e spec w))"
    using assms(2) by (simp add: OTARollout_resolved [OF assms(1)] rolloutBody_def sliceTo_def minInt_def Let_def)
  then show ?thesis
    using opened_status [OF w1 [unfolded rolloutOpened_def]]
    by (simp add: rolloutOpened_def startRollout_outbox)
qed

section \<open>Witnesses\<close>

definition demoSignal :: "string \<Rightarrow> ackSignal" where
  "demoSignal phase = \<lparr>sig_Phase = phase, sig_Detail = '''', sig_ImageDigest = '''', sig_PreviousImageDigest = ''''\<rparr>"

definition demoChild :: "signals \<Rightarrow> child_env" where
  "demoChild sigs = \<lparr>ch_error = None, ch_single = \<lparr>sg_started = 0, sg_send = [Completed None], sg_sent = 0,
     sg_signals = sigs, sg_rollbackStart = None, sg_rollback = demoRollbackEnv, sg_ended = minute,
     sg_record = [demoDbEnv], sg_errText = (\<lambda>t. t)\<rparr>\<rparr>"

definition goodChild :: child_env where
  "goodChild = demoChild [(second, demoSignal ''PHASE_RECEIVED''), (2 * second, demoSignal ''PHASE_PULLED''),
     (3 * second, demoSignal ''PHASE_SWAPPED''), (4 * second, demoSignal ''PHASE_HEALTHY'')]"

definition badChild :: child_env where
  "badChild = demoChild [(second, demoSignal ''PHASE_RECEIVED''), (2 * second, demoSignal ''PHASE_FAILED'')]"

definition demoRollout :: "(string \<Rightarrow> nat \<Rightarrow> child_env) \<Rightarrow> rollout_env" where
  "demoRollout children = \<lparr>ro_id = ''rollout-1'', ro_specJSON = ImageRef, ro_start = [demoDbEnv],
     ro_cohort = [Inl canceled], ro_child = children, ro_end = [demoDbEnv], ro_errText = (\<lambda>t. t)\<rparr>"

definition goodRollout :: rollout_env where
  "goodRollout = demoRollout (\<lambda>name k. goodChild)"

definition badRollout :: rollout_env where
  "badRollout = demoRollout (\<lambda>name k. badChild)"

lemma demo_resolved: "resolved (demoRollout children) demoSpec demoCloud [''r1'', ''r2'', ''r3'']"
  by (simp add: resolved_def rolloutOpened_def demoRollout_def actRecordRolloutStarted_def dbActivity_def
      RecordRolloutStarted_def execStmt_def demoDbEnv_def maxAttempts_def demoSpec_def ResolveCohort_def
      defaultsApplied_def Let_def)

lemmas good_resolved = demo_resolved [of "\<lambda>name k. goodChild", folded goodRollout_def]
lemmas bad_resolved = demo_resolved [of "\<lambda>name k. badChild", folded badRollout_def]

lemma demo_canary: "0 \<le> CanarySize demoSpec"
  by code_simp

theorem rollout_implements_decision_witness:
  "fst (OTARollout badRollout demoSpec demoCloud) = Ok (''canary_failed'', None)"
proof -
  have "decide badRollout (defaultsApplied demoSpec) [''r1'', ''r2'', ''r3''] = ''canary_failed''"
    by code_simp
  then show ?thesis using rollout_implements_decision [OF bad_resolved demo_canary] by simp
qed

theorem completed_within_budget_witness:
  "failuresOf goodRollout (defaultsApplied demoSpec) ''canary'' (canaryOf (defaultsApplied demoSpec) [''r1'', ''r2'', ''r3'']) = 0 \<and>
   canaryOf (defaultsApplied demoSpec) [''r1'', ''r2'', ''r3''] = [''r1''] \<and>
   batchOf (defaultsApplied demoSpec) [''r1'', ''r2'', ''r3''] = [''r2'']"
proof -
  have 1: "0 \<le> FailureBudget demoSpec" "in_i64 (FailureBudget demoSpec * 4)" by code_simp+
  have 2: "fst (OTARollout goodRollout demoSpec demoCloud) = Ok (StatusCompleted, None)" by code_simp
  have 3: "canaryOf (defaultsApplied demoSpec) [''r1'', ''r2'', ''r3''] = [''r1'']"
    "batchOf (defaultsApplied demoSpec) [''r1'', ''r2'', ''r3''] = [''r2'']" by code_simp+
  from completed_within_budget [OF good_resolved demo_canary 1 2] 3 show ?thesis by blast
qed

theorem rollout_blast_radius_witness:
  "\<exists>ms. cl_outbox (snd (OTARollout badRollout demoSpec demoCloud)) = ms \<and> fst ` set ms \<subseteq> {''cmd/r1/ota''}"
proof -
  have 1: "fst (OTARollout badRollout demoSpec demoCloud) = Ok (StatusCanaryFailed, None)" by code_simp
  have 2: "cl_outbox demoCloud = []" "cmdOtaTopic ` set (canaryOf (defaultsApplied demoSpec) [''r1'', ''r2'', ''r3'']) = {''cmd/r1/ota''}"
    by code_simp+
  from rollout_blast_radius [OF bad_resolved demo_canary] show ?thesis unfolding 1 using 2 by simp
qed

theorem completed_reaches_cohort_witness:
  "forwardTo ''rollout-1'' (defaultsApplied demoSpec) ''r3''
     \<in> set (cl_outbox (snd (OTARollout goodRollout demoSpec demoCloud)))"
proof -
  have 1: "\<forall>name k. childSends (ro_child goodRollout name k)"
    by (simp add: goodRollout_def demoRollout_def childSends_def goodChild_def demoChild_def)
  have 2: "fst (OTARollout goodRollout demoSpec demoCloud) = Ok (StatusCompleted, None)" by code_simp
  have 3: "ro_id goodRollout = ''rollout-1''" by code_simp
  from completed_reaches_cohort [OF good_resolved demo_canary 1 2] 3 show ?thesis by simp
qed

theorem rollout_status_recorded_witness:
  "rolloutStatus (cl_db (snd (OTARollout goodRollout demoSpec demoCloud))) ''rollout-1'' = Some ''completed''"
proof -
  have 1: "ro_end goodRollout = demoDbEnv # []" "dbe_fault demoDbEnv = None"
    by (simp_all add: goodRollout_def demoRollout_def demoDbEnv_def)
  have 2: "decide goodRollout (defaultsApplied demoSpec) [''r1'', ''r2'', ''r3''] = ''completed''"
    "ro_id goodRollout = ''rollout-1''" by code_simp+
  from rollout_status_recorded [OF good_resolved demo_canary 1] 2 show ?thesis by simp
qed

theorem negative_canary_panics_witness:
  "fst (OTARollout goodRollout (demoSpec\<lparr>CanarySize := -1\<rparr>) demoCloud) = Panic slicePanic"
proof -
  have 1: "resolved goodRollout (demoSpec\<lparr>CanarySize := -1\<rparr>) demoCloud [''r1'', ''r2'', ''r3'']" by code_simp
  have 2: "[''r1'', ''r2'', ''r3''] \<noteq> []" "CanarySize (demoSpec\<lparr>CanarySize := -1\<rparr>) < 0" by simp_all
  from negative_canary_panics [OF 1 2] show ?thesis by simp
qed

end
