(* ===== verification/EndToEnd.thy ===== *)
theory EndToEnd
  imports AgentOta Rollout
begin

text \<open>
  The robot and the cloud together: a command of the cloud's activities, handled by the agent's
  executor, its acks carried by the bridge to the workflows of \<open>OtaWorkflow\<close>.
\<close>

section \<open>The acks of one command\<close>

text \<open>What an executor published since an earlier state, as acks of one command.\<close>

definition acksSince :: "'s executorConfig \<Rightarrow> command \<Rightarrow> 's executor \<Rightarrow> 's executor \<Rightarrow> otaAck list \<Rightarrow> bool" where
  "acksSince cfg cmd x y as \<longleftrightarrow>
     ex_published y = ex_published x @ map (ackMessage (ec_RobotID cfg)) as \<and>
     (\<forall>a \<in> set as. ack_RolloutID a = cmd_RolloutID cmd)"

lemma acksSince_refl: "acksSince cfg cmd x x []"
  by (simp add: acksSince_def)

lemma acksSince_publishAck:
  "acksSince cfg cmd x y as \<Longrightarrow> \<exists>as'. acksSince cfg cmd x (publishAck cfg cmd ph d y) as'"
  unfolding acksSince_def publishAck_def Let_def
  by (intro exI [of _ "as @ [\<lparr>ack_RolloutID = cmd_RolloutID cmd, ack_RobotID = ec_RobotID cfg, ack_Phase = ph,
        ack_Detail = d, ack_At = ec_clock cfg (length (ex_published y)), ack_ImageDigest = '''',
        ack_PreviousImageDigest = ''''\<rparr>]"]) (auto simp: ackMessage_def)

definition answered :: "'s executorConfig \<Rightarrow> command \<Rightarrow> 's executor \<Rightarrow> 's executor \<Rightarrow> bool" where
  "answered cfg cmd x y \<longleftrightarrow> (\<exists>as. acksSince cfg cmd x y as)"

lemma answered_refl: "answered cfg cmd x x"
  using acksSince_refl by (auto simp: answered_def)

lemma answered_publishAck: "answered cfg cmd x y \<Longrightarrow> answered cfg cmd x (publishAck cfg cmd ph d y)"
  using acksSince_publishAck by (auto simp: answered_def)

lemma answered_frame [simp]:
  "answered cfg cmd x (y\<lparr>ex_engine := s\<rparr>) = answered cfg cmd x y"
  "answered cfg cmd x (recordPrev d y) = answered cfg cmd x y"
  by (simp_all add: answered_def acksSince_def)

lemma runForward_answered: "answered cfg cmd x y \<Longrightarrow> answered cfg cmd x (runForward cfg cmd y)"
  by (auto simp: runForward_def Let_def answered_publishAck split: prod.split option.split)

lemma runRollback_answered: "answered cfg cmd x y \<Longrightarrow> answered cfg cmd x (runRollback cfg cmd y)"
  by (auto simp: runRollback_def answered_publishAck split: prod.split option.split)

lemma handle_answered: "unmarshalCommand body = Inr cmd \<Longrightarrow> answered cfg cmd x (handle cfg body x)"
  by (simp add: handle_def Let_def runForward_answered runRollback_answered answered_publishAck answered_refl)

lemma phaseOf_ackMessage [simp]: "phaseOf (ackMessage robot a) = ack_Phase a"
  by (simp add: ackMessage_def ack_decode)

lemma handle_acks:
  assumes "unmarshalCommand body = Inr cmd"
  shows "\<exists>as. acksSince cfg cmd x (handle cfg body x) as \<and> map ack_Phase as = map Phase_name
    (if cmd_Action cmd = CmdRollback then [PHASE_RECEIVED, PHASE_ROLLED_BACK]
     else PHASE_RECEIVED # outcomePhases (forwardOutcome cfg cmd (ex_engine x)))"
proof -
  from handle_answered [OF assms] obtain as where as: "acksSince cfg cmd x (handle cfg body x) as"
    by (auto simp: answered_def)
  then have "phasesOf (handle cfg body x) = phasesOf x @ map ack_Phase as"
    by (simp add: acksSince_def phasesOf_def comp_def)
  with handle_phases_eq [of cfg body x] assms as show ?thesis by auto
qed

text \<open>The messages of one command.\<close>

definition newMessages :: "'s executor \<Rightarrow> 's executor \<Rightarrow> message list" where
  "newMessages x y = drop (length (ex_published x)) (ex_published y)"

lemma acksSince_new: "acksSince cfg cmd x y as \<Longrightarrow> newMessages x y = map (ackMessage (ec_RobotID cfg)) as"
  by (simp add: acksSince_def newMessages_def)

section \<open>An update, end to end\<close>

text \<open>The phases the update workflow of a robot is signalled, by the outcome on the robot.\<close>

fun signalledPhases :: "forwardOutcome \<Rightarrow> string list" where
  "signalledPhases NoImage = [''PHASE_RECEIVED'', ''PHASE_FAILED'']"
| "signalledPhases PullFailed = [''PHASE_RECEIVED'', ''PHASE_FAILED'']"
| "signalledPhases SwapFailed = [''PHASE_RECEIVED'', ''PHASE_PULLED'', ''PHASE_FAILED'']"
| "signalledPhases SmokeFailed = [''PHASE_RECEIVED'', ''PHASE_PULLED'', ''PHASE_SWAPPED'', ''PHASE_FAILED'']"
| "signalledPhases Healthy = [''PHASE_RECEIVED'', ''PHASE_PULLED'', ''PHASE_SWAPPED'', ''PHASE_HEALTHY'']"

lemma signalledPhases_eq:
  "filter (\<lambda>p. p \<noteq> ''PHASE_ROLLED_BACK'') (map Phase_name (PHASE_RECEIVED # outcomePhases oc)) = signalledPhases oc"
  by (cases oc) simp_all

lemma forward_signals:
  assumes "slashFree (ec_RobotID cfg)" and "in_i64 (SmokeTimeout spec)"
  shows "map sig_Phase (deliveries (childID ro (ec_RobotID cfg))
      (newMessages x (handle cfg (Some (otaCommandBody ro (ec_RobotID cfg) spec)) x))) =
    signalledPhases (forwardOutcome cfg (forwardCommand ro (ec_RobotID cfg) spec) (ex_engine x))"
proof -
  let ?cmd = "forwardCommand ro (ec_RobotID cfg) spec"
  have act: "cmd_Action ?cmd \<noteq> CmdRollback" by (simp add: forwardCommand_def CmdRollback_def)
  obtain as where as: "acksSince cfg ?cmd x (handle cfg (Some (otaCommandBody ro (ec_RobotID cfg) spec)) x) as"
    and ph: "map ack_Phase as = map Phase_name (PHASE_RECEIVED # outcomePhases (forwardOutcome cfg ?cmd (ex_engine x)))"
    using handle_acks [OF forwardCommand_decodes [OF assms(2), of ro "ec_RobotID cfg"], where cfg = cfg and x = x] act by auto
  have "\<forall>a \<in> set as. ack_RolloutID a = ro" using as by (simp add: acksSince_def forwardCommand_def)
  from deliveries_child [OF assms(1) this] have
    "map sig_Phase (deliveries (childID ro (ec_RobotID cfg)) (map (ackMessage (ec_RobotID cfg)) as)) =
      filter (\<lambda>p. p \<noteq> ''PHASE_ROLLED_BACK'') (map ack_Phase as)"
    by (simp add: ackSignalOf_def comp_def filter_map)
  then show ?thesis unfolding acksSince_new [OF as] ph signalledPhases_eq .
qed

text \<open>Signals that come within a period no wait is shorter than.\<close>

definition timely :: "time \<Rightarrow> duration \<Rightarrow> rolloutSpec \<Rightarrow> time list \<Rightarrow> bool" where
  "timely sent period spec ts \<longleftrightarrow>
     (\<forall>t \<in> set ts. sent \<le> t \<and> t \<le> sent + period) \<and> period \<le> PullTimeout spec \<and>
     period \<le> SwapTimeout spec \<and> period \<le> SmokeTimeout spec"

lemma waits_by_outcome:
  assumes "map sig_Phase sigs = signalledPhases oc" and "length ts = length sigs"
    and "sg_signals e = zip ts sigs" and "timely (sg_sent e) period spec ts"
  shows "waitsOutcome e spec = AllAcked \<longleftrightarrow> oc = Healthy"
proof -
  show ?thesis
    using assms
    by (cases oc)
      (auto simp: map_eq_Cons_conv length_Suc_conv waitsOutcome_def waitForPhase_def timely_def max_def
        split: if_splits)
qed

section \<open>Properties\<close>

text \<open>
  C2: end to end, when the command reaches the robot and its acks come back within a period that no
  timeout is shorter than, the cloud reports \<^verbatim>\<open>ok\<close> exactly when the robot pulled, swapped and
  passed its smoke check, and \<^verbatim>\<open>rolled_back\<close> otherwise.
\<close>

theorem update_end_to_end:
  assumes "slashFree (ec_RobotID cfg)" and "in_i64 (SmokeTimeout (si_Spec inp))"
    and "si_RobotID inp = ec_RobotID cfg"
    and "sg_signals e = zip ts (deliveries (childID (si_RolloutID inp) (ec_RobotID cfg))
      (newMessages x (handle cfg (Some (otaCommandBody (si_RolloutID inp) (ec_RobotID cfg) (si_Spec inp))) x)))"
    and "length ts = length (deliveries (childID (si_RolloutID inp) (ec_RobotID cfg))
      (newMessages x (handle cfg (Some (otaCommandBody (si_RolloutID inp) (ec_RobotID cfg) (si_Spec inp))) x)))"
    and "timely (sg_sent e) period (si_Spec inp) ts" and "sendAccepted maxAttempts (sg_send e)"
  shows "sr_Phase (fst (OTASingleRobot e inp w)) =
    (if forwardOutcome cfg (forwardCommand (si_RolloutID inp) (ec_RobotID cfg) (si_Spec inp)) (ex_engine x) = Healthy
     then SingleOK else SingleRolledBack)"
  using waits_by_outcome [OF forward_signals [OF assms(1,2)] assms(5,4,6)] assms(7)
  by (simp add: single_phase)

text \<open>What the robot says of a rollback in its ack.\<close>

definition rollbackDetail :: "'s executorConfig \<Rightarrow> 's executor \<Rightarrow> string" where
  "rollbackDetail cfg x =
     (case fst (Rollback (ec_runner cfg) (ec_Docker cfg) (ex_lastSuccessDigest x) (ex_engine x)) of
        None \<Rightarrow> '''' | Some err \<Rightarrow> ''rollback failed: '' @ error_text err)"

lemma rollback_signals:
  assumes "slashFree (ec_RobotID cfg)"
  shows "\<exists>sig. deliveries (rollbackID ro (ec_RobotID cfg))
      (newMessages x (handle cfg (Some (rollbackCommandBody ro (ec_RobotID cfg) reason)) x)) = [sig] \<and>
    sig_Phase sig = ''PHASE_ROLLED_BACK'' \<and> sig_Detail sig = rollbackDetail cfg x"
proof -
  let ?cmd = "rollbackCommand ro (ec_RobotID cfg) reason"
  let ?ack = "\<lambda>n ph d. \<lparr>ack_RolloutID = ro, ack_RobotID = ec_RobotID cfg, ack_Phase = ph,
      ack_Detail = d, ack_At = ec_clock cfg n, ack_ImageDigest = '''', ack_PreviousImageDigest = ''''\<rparr>"
  let ?n = "length (ex_published x)"
  let ?as = "[?ack ?n ''PHASE_RECEIVED'' '''', ?ack (Suc ?n) ''PHASE_ROLLED_BACK'' (rollbackDetail cfg x)]"
  have act: "cmd_Action ?cmd = CmdRollback" by (simp add: rollbackCommand_def)
  have "newMessages x (handle cfg (Some (rollbackCommandBody ro (ec_RobotID cfg) reason)) x) =
      map (ackMessage (ec_RobotID cfg)) ?as"
    unfolding handle_rollback [OF rollbackCommand_decodes act]
    by (cases "Rollback (ec_runner cfg) (ec_Docker cfg) (ex_lastSuccessDigest x) (ex_engine x)")
      (simp add: runRollback_def newMessages_def publishAck_def rollbackCommand_def rollbackDetail_def
        ackMessage_def split: option.split)
  then show ?thesis
    using deliveries_rollback [OF assms, of ?as ro] by (simp add: ackSignalOf_def)
qed

text \<open>
  C35: a rollback command that reaches the robot and is answered within five minutes is recorded
  \<^verbatim>\<open>ok\<close>, and the rollback child returns no error, also when the rollback failed on the robot;
  only the detail tells the two apart.
\<close>

theorem rollback_end_to_end:
  assumes "slashFree (ec_RobotID cfg)" and "ri_RobotID inp = ec_RobotID cfg"
    and "rv_signals e = map (\<lambda>sig. (t, sig)) (deliveries (rollbackID (ri_RolloutID inp) (ec_RobotID cfg))
      (newMessages x (handle cfg (Some (rollbackCommandBody (ri_RolloutID inp) (ec_RobotID cfg) (ri_Reason inp))) x)))"
    and "t \<le> rv_sent e + 5 * minute" and "rv_send e = Completed None # toks"
    and "rv_record e = d # ds" and "dbe_fault d = None"
  shows "fst (OTARollback e inp w) = None \<and>
    ota_rollbacks (cl_db (snd (OTARollback e inp w))) =
      ota_rollbacks (cl_db w) @ [rollbackRow inp ''ok'' (rollbackDetail cfg x) d]"
proof -
  obtain sig where sig: "rv_signals e = [(t, sig)]" "sig_Phase sig = ''PHASE_ROLLED_BACK''"
      "sig_Detail sig = rollbackDetail cfg x"
    using rollback_signals [OF assms(1), of "ri_RolloutID inp" x "ri_Reason inp"] assms(3) by auto
  then have only: "\<forall>(arr, sig) \<in> set (rv_signals e). sig_Phase sig = ''PHASE_ROLLED_BACK''" by simp
  from rollback_outcome_eq [OF only assms(5,6,7), of inp w] sig assms(4) show ?thesis
    by (auto simp: case_prod_beta Let_def)
qed

section \<open>Witnesses\<close>

definition demoInput :: singleInput where
  "demoInput = \<lparr>si_RolloutID = ''rollout-1'', si_RobotID = ''r1'', si_Spec = demoSpec\<rparr>"

definition demoUpdate :: "message list" where
  "demoUpdate = newMessages demoStart
     (handle demoConfig (Some (otaCommandBody ''rollout-1'' ''r1'' demoSpec)) demoStart)"

definition demoUpdateEnv :: single_env where
  "demoUpdateEnv = \<lparr>sg_started = 0, sg_send = [Completed None], sg_sent = 0,
     sg_signals = zip [second, 2 * second, 3 * second, 4 * second]
       (deliveries (childID ''rollout-1'' ''r1'') demoUpdate),
     sg_rollbackStart = None, sg_rollback = demoRollbackEnv, sg_ended = minute,
     sg_record = [demoDbEnv], sg_errText = (\<lambda>t. t)\<rparr>"

theorem update_end_to_end_witness:
  "sr_Phase (fst (OTASingleRobot demoUpdateEnv demoInput demoCloud)) = ''ok''"
proof -
  let ?ts = "[second, 2 * second, 3 * second, 4 * second]"
  have rob: "ec_RobotID demoConfig = ''r1''" by (simp add: demoConfig_def)
  have 1: "slashFree (ec_RobotID demoConfig)" by (simp add: rob slashFree_def)
  have 2: "in_i64 (SmokeTimeout (si_Spec demoInput))" by code_simp
  have 3: "si_RobotID demoInput = ec_RobotID demoConfig" by (simp add: rob demoInput_def)
  have 4: "sg_signals demoUpdateEnv = zip ?ts (deliveries (childID (si_RolloutID demoInput) (ec_RobotID demoConfig))
      (newMessages demoStart (handle demoConfig (Some (otaCommandBody (si_RolloutID demoInput)
        (ec_RobotID demoConfig) (si_Spec demoInput))) demoStart)))"
    by (simp add: rob demoInput_def demoUpdateEnv_def demoUpdate_def)
  have 5: "length ?ts = length (deliveries (childID (si_RolloutID demoInput) (ec_RobotID demoConfig))
      (newMessages demoStart (handle demoConfig (Some (otaCommandBody (si_RolloutID demoInput)
        (ec_RobotID demoConfig) (si_Spec demoInput))) demoStart)))"
    by code_simp
  have 6: "timely (sg_sent demoUpdateEnv) minute (si_Spec demoInput) ?ts" by code_simp
  have 7: "sendAccepted maxAttempts (sg_send demoUpdateEnv)" by (simp add: demoUpdateEnv_def maxAttempts_def)
  have 8: "forwardOutcome demoConfig (forwardCommand (si_RolloutID demoInput) (ec_RobotID demoConfig)
      (si_Spec demoInput)) (ex_engine demoStart) = Healthy" by code_simp
  from update_end_to_end [OF 1 2 3 4 5 6 7, of demoCloud] show ?thesis by (simp add: 8 SingleOK_def)
qed

text \<open>A robot with no remembered image cannot roll back, and the cloud records it as done.\<close>

theorem rollback_end_to_end_witness:
  "rollbackDetail demoConfig demoStart = ''rollback failed: no previous digest to roll back to'' \<and>
   map rb_status (ota_rollbacks (cl_db (snd (OTARollback
     (demoRollbackEnv\<lparr>rv_signals := map (\<lambda>sig. (second, sig)) (deliveries (rollbackID ''rollout-1'' ''r1'')
        (newMessages demoStart (handle demoConfig (Some (rollbackCommandBody ''rollout-1'' ''r1'' ''smoke'')) demoStart)))\<rparr>)
     \<lparr>ri_RolloutID = ''rollout-1'', ri_RobotID = ''r1'', ri_Reason = ''smoke''\<rparr> demoCloud)))) = [''ok'']"
  (is "_ \<and> map rb_status (ota_rollbacks (cl_db (snd (OTARollback ?e ?inp demoCloud)))) = _")
proof -
  have rob: "ec_RobotID demoConfig = ''r1''" by (simp add: demoConfig_def)
  have 1: "slashFree (ec_RobotID demoConfig)" by (simp add: rob slashFree_def)
  have 2: "ri_RobotID ?inp = ec_RobotID demoConfig" by (simp add: rob)
  have 3: "rv_signals ?e = map (\<lambda>sig. (second, sig)) (deliveries (rollbackID (ri_RolloutID ?inp) (ec_RobotID demoConfig))
      (newMessages demoStart (handle demoConfig (Some (rollbackCommandBody (ri_RolloutID ?inp)
        (ec_RobotID demoConfig) (ri_Reason ?inp))) demoStart)))" by (simp add: rob)
  have 4: "second \<le> rv_sent ?e + 5 * minute" "rv_send ?e = Completed None # []"
    "rv_record ?e = demoDbEnv # []" "dbe_fault demoDbEnv = None"
    by (simp_all add: demoRollbackEnv_def demoDbEnv_def)
  have 5: "rollbackDetail demoConfig demoStart = ''rollback failed: no previous digest to roll back to''"
    by code_simp
  from rollback_end_to_end [OF 1 2 3 4, of demoCloud] 5 show ?thesis
    by (simp add: rollbackRow_def demoCloud_def emptyDb_def)
qed

end
