(* ===== verification/Races.thy ===== *)
theory Races
  imports EndToEnd AgentConcurrent "HOL-Library.Multiset"
begin

text \<open>
  The update, end to end, when things happen at the same time: two copies of one command on the
  robot (the cloud's activity sends up to five, QoS 1 may deliver one twice), and the acks of one
  command handled side by side by the bridge (its client is set up with
  \<^verbatim>\<open>SetOrderMatters(false)\<close>, so every message has its own goroutine).
\<close>

section \<open>A failure that is signalled too early\<close>

lemma phasesIn_map: "phasesIn sigs = set (map (sig_Phase \<circ> snd) sigs)"
  by (simp add: case_prod_beta comp_def)

lemma waitsFor_phases:
  assumes "waitsFor want deadline sigs taken rest"
  shows "\<exists>ps. map (sig_Phase \<circ> snd) sigs = ps @ want # map (sig_Phase \<circ> snd) rest \<and>
    set ps \<inter> insert want terminalPhases = {}"
proof -
  have sigs: "sigs = taken @ rest" and ne: "taken \<noteq> []" and want: "sig_Phase (snd (last taken)) = want"
    and no: "phasesIn (butlast taken) \<inter> insert want terminalPhases = {}"
    using assms by (simp_all add: waitsFor_def)
  have "map (sig_Phase \<circ> snd) taken = map (sig_Phase \<circ> snd) (butlast taken) @ [want]"
    using ne want by (cases taken rule: rev_cases) simp_all
  then have "map (sig_Phase \<circ> snd) sigs =
      map (sig_Phase \<circ> snd) (butlast taken) @ want # map (sig_Phase \<circ> snd) rest"
    by (simp only: sigs map_append append_assoc append_Cons append_Nil)
  then show ?thesis using no unfolding phasesIn_map by blast
qed

text \<open>The phases an update that reports ok was signalled, up to the last one it waited for.\<close>

definition okOrder :: "string list \<Rightarrow> bool" where
  "okOrder phs \<longleftrightarrow> (\<exists>ps qs rs tl. phs = ps @ ''PHASE_PULLED'' # qs @ ''PHASE_SWAPPED'' # rs @ ''PHASE_HEALTHY'' # tl \<and>
     set (ps @ qs @ rs) \<inter> terminalPhases = {})"

lemma AllAcked_order:
  assumes "waitsOutcome e spec = AllAcked"
  shows "okOrder (map (sig_Phase \<circ> snd) (sg_signals e))"
proof -
  from assms [unfolded waitsOutcome_AllAcked] obtain p s h r1 r2 r3 d1 d2 d3 where
    w: "waitsFor ''PHASE_PULLED'' d1 (sg_signals e) p r1" "waitsFor ''PHASE_SWAPPED'' d2 r1 s r2"
      "waitsFor ''PHASE_HEALTHY'' d3 r2 h r3" by blast
  from waitsFor_phases [OF w(1)] waitsFor_phases [OF w(2)] waitsFor_phases [OF w(3)]
  show ?thesis unfolding okOrder_def by fastforce
qed

lemma failed_first_not_ok:
  assumes "set ps \<inter> {''PHASE_SWAPPED''} = {}"
  shows "\<not> okOrder (ps @ ''PHASE_FAILED'' # rest)"
proof
  assume "okOrder (ps @ ''PHASE_FAILED'' # rest)"
  then obtain ps' qs' rs' tl' where eq: "ps @ ''PHASE_FAILED'' # rest =
      (ps' @ ''PHASE_PULLED'' # qs') @ ''PHASE_SWAPPED'' # rs' @ ''PHASE_HEALTHY'' # tl'"
    and none: "set (ps' @ qs' @ rs') \<inter> terminalPhases = {}"
    unfolding okOrder_def by auto
  define qs where "qs = ps' @ ''PHASE_PULLED'' # qs'"
  have no: "''PHASE_FAILED'' \<notin> set qs" using none by (auto simp: qs_def)
  from eq obtain ts where "ps @ ''PHASE_FAILED'' # rest = qs @ ''PHASE_SWAPPED'' # ts"
    unfolding qs_def [symmetric] by blast
  then have "(\<exists>us. qs = ps @ us \<and> us @ ''PHASE_SWAPPED'' # ts = ''PHASE_FAILED'' # rest) \<or>
      (\<exists>us. qs @ us = ps \<and> ''PHASE_SWAPPED'' # ts = us @ ''PHASE_FAILED'' # rest)"
    unfolding append_eq_append_conv2 by metis
  then obtain us where "qs = ps @ us \<and> us @ ''PHASE_SWAPPED'' # ts = ''PHASE_FAILED'' # rest \<or>
      qs @ us = ps \<and> ''PHASE_SWAPPED'' # ts = us @ ''PHASE_FAILED'' # rest"
    by blast
  then show False using no assms by (cases us) auto
qed

section \<open>The order of the acks decides\<close>

lemma waitsFor_exists:
  assumes "map (sig_Phase \<circ> snd) sigs = ps @ want # qs" and "set ps \<inter> terminalPhases = {}"
    and "want \<notin> terminalPhases" and "\<forall>(arr, sig) \<in> set sigs. arr \<le> deadline"
  shows "\<exists>taken rest bs. waitsFor want deadline sigs taken rest \<and>
    map (sig_Phase \<circ> snd) rest = bs @ qs \<and> set bs \<inter> terminalPhases = {}"
proof -
  have "want \<in> set (ps @ [want])" by simp
  from split_list_first [OF this] obtain as bs where
    first: "ps @ [want] = as @ want # bs" "want \<notin> set as" by blast
  have set: "set as \<union> set bs \<subseteq> insert want (set ps)"
    using arg_cong [OF first(1), of set] by auto
  have L: "map (sig_Phase \<circ> snd) sigs = (as @ [want]) @ (bs @ qs)"
    using assms(1) first(1) by simp
  from map_eq_append_conv [THEN iffD1, OF L] obtain taken rest where
    t: "sigs = taken @ rest" "map (sig_Phase \<circ> snd) taken = as @ [want]" "map (sig_Phase \<circ> snd) rest = bs @ qs"
    by metis
  have ne: "taken \<noteq> []" using t(2) by auto
  have last: "sig_Phase (snd (last taken)) = want"
    using arg_cong [OF t(2), of last] ne by (simp add: last_map)
  have "map (sig_Phase \<circ> snd) (butlast taken) = as"
    using arg_cong [OF t(2), of butlast] by (simp add: map_butlast)
  then have "phasesIn (butlast taken) = set as" by (metis phasesIn_map)
  then have "waitsFor want deadline sigs taken rest"
    unfolding waitsFor_def using t(1) ne last first(2) set assms(2-4) by auto
  then show ?thesis using t(3) set assms(2,3) by (intro exI [of _ taken] exI [of _ rest] exI [of _ bs]) auto
qed

lemma takenAt_ge: "now \<le> takenAt now sigs"
  by (induction sigs arbitrary: now) (auto simp: takenAt_def intro: order.trans [OF max.cobounded1])

lemma order_AllAcked:
  assumes "okOrder (map (sig_Phase \<circ> snd) (sg_signals e))"
    and "timely (sg_sent e) period spec (map fst (sg_signals e))"
  shows "waitsOutcome e spec = AllAcked"
proof -
  obtain ps qs rs tl where L: "map (sig_Phase \<circ> snd) (sg_signals e) =
      ps @ ''PHASE_PULLED'' # qs @ ''PHASE_SWAPPED'' # rs @ ''PHASE_HEALTHY'' # tl"
    and no: "set (ps @ qs @ rs) \<inter> terminalPhases = {}"
    using assms(1) unfolding okOrder_def by (elim exE conjE) (rule that)
  have intime: "\<forall>(arr, sig) \<in> set (sg_signals e). arr \<le> now + max 0 t"
    if "sg_sent e \<le> now" "t \<in> {PullTimeout spec, SwapTimeout spec, SmokeTimeout spec}" for now t
  proof clarify
    fix arr sig
    assume "(arr, sig) \<in> set (sg_signals e)"
    then have "arr \<in> set (map fst (sg_signals e))" by force
    then have "arr \<le> sg_sent e + period" using assms(2) unfolding timely_def by blast
    moreover have "period \<le> t" using assms(2) that(2) by (auto simp: timely_def)
    ultimately show "arr \<le> now + max 0 t" using that(1) by linarith
  qed
  from waitsFor_exists [OF L _ _ intime [of "sg_sent e" "PullTimeout spec"]] no obtain p r1 b1 where
    p: "waitsFor ''PHASE_PULLED'' (sg_sent e + max 0 (PullTimeout spec)) (sg_signals e) p r1"
      "map (sig_Phase \<circ> snd) r1 = (b1 @ qs) @ ''PHASE_SWAPPED'' # rs @ ''PHASE_HEALTHY'' # tl"
      "set (b1 @ qs) \<inter> terminalPhases = {}" by fastforce
  have s1: "sg_signals e = p @ r1" using p(1) by (simp add: waitsFor_def)
  let ?n1 = "takenAt (sg_sent e) p"
  have "\<forall>(arr, sig) \<in> set r1. arr \<le> ?n1 + max 0 (SwapTimeout spec)"
    using intime [of ?n1 "SwapTimeout spec"] takenAt_ge s1 by auto
  from waitsFor_exists [OF p(2,3) _ this] no obtain s r2 b2 where
    s: "waitsFor ''PHASE_SWAPPED'' (?n1 + max 0 (SwapTimeout spec)) r1 s r2"
      "map (sig_Phase \<circ> snd) r2 = (b2 @ rs) @ ''PHASE_HEALTHY'' # tl"
      "set (b2 @ rs) \<inter> terminalPhases = {}" by fastforce
  have s2: "r1 = s @ r2" using s(1) by (simp add: waitsFor_def)
  let ?n2 = "takenAt ?n1 s"
  have "sg_sent e \<le> ?n2" using takenAt_ge [of "sg_sent e" p] takenAt_ge [of ?n1 s] by linarith
  then have "\<forall>(arr, sig) \<in> set r2. arr \<le> ?n2 + max 0 (SmokeTimeout spec)"
    using intime [of ?n2 "SmokeTimeout spec"] s1 s2 by auto
  from waitsFor_exists [OF s(2,3) _ this] obtain h r3 where
    "waitsFor ''PHASE_HEALTHY'' (?n2 + max 0 (SmokeTimeout spec)) r2 h r3" by auto
  then show ?thesis unfolding waitsOutcome_AllAcked using p(1) s(1) by blast
qed

text \<open>
  For acks that come in time, the verdict of the per-robot workflow depends on their order
  alone: it is ok exactly when a PULLED, a later SWAPPED and a later HEALTHY are signalled with no
  failure or rollback among the acks up to the last.  So of the four acks of a healthy robot, any
  other order, which the bridge's concurrent handlers can produce, rolls the robot back.
\<close>

theorem timely_verdict_by_order:
  assumes "timely (sg_sent e) period (si_Spec inp) (map fst (sg_signals e))"
    and "sendAccepted maxAttempts (sg_send e)"
  shows "sr_Phase (fst (OTASingleRobot e inp w)) =
    (if okOrder (map (sig_Phase \<circ> snd) (sg_signals e)) then SingleOK else SingleRolledBack)"
  using AllAcked_order order_AllAcked [OF _ assms(1)] assms(2) by (auto simp: single_phase)

text \<open>A healthy robot, with its acks in order and with two of them the other way round.\<close>

definition demoSignal :: "string \<Rightarrow> ackSignal" where
  "demoSignal phase = \<lparr>sig_Phase = phase, sig_Detail = '''', sig_ImageDigest = '''', sig_PreviousImageDigest = ''''\<rparr>"

definition demoOrder :: "string list \<Rightarrow> single_env" where
  "demoOrder phs = demoUpdateEnv\<lparr>sg_signals := map (\<lambda>ph. (second, demoSignal ph)) phs\<rparr>"

lemma demoOrder_signals: "map (sig_Phase \<circ> snd) (sg_signals (demoOrder phs)) = phs"
  by (simp add: demoOrder_def demoSignal_def comp_def)

theorem timely_verdict_by_order_witness:
  "sr_Phase (fst (OTASingleRobot (demoOrder [''PHASE_PULLED'', ''PHASE_SWAPPED'', ''PHASE_HEALTHY'']) demoInput demoCloud)) = ''ok'' \<and>
   \<not> okOrder [''PHASE_SWAPPED'', ''PHASE_PULLED'', ''PHASE_FAILED'']"
proof -
  let ?e = "demoOrder [''PHASE_PULLED'', ''PHASE_SWAPPED'', ''PHASE_HEALTHY'']"
  have 1: "timely (sg_sent ?e) minute (si_Spec demoInput) (map fst (sg_signals ?e))" by code_simp
  have 2: "sendAccepted maxAttempts (sg_send ?e)"
    by (simp add: demoOrder_def demoUpdateEnv_def maxAttempts_def)
  have 3: "okOrder [''PHASE_PULLED'', ''PHASE_SWAPPED'', ''PHASE_HEALTHY'']"
    unfolding okOrder_def by (intro exI [of _ "[]"]) simp
  have 4: "\<not> okOrder [''PHASE_SWAPPED'', ''PHASE_PULLED'', ''PHASE_FAILED'']"
    by (auto simp: okOrder_def Cons_eq_append_conv)
  from timely_verdict_by_order [OF 1 2, of demoCloud] 3 4 show ?thesis
    by (simp add: demoOrder_signals SingleOK_def)
qed

section \<open>Concurrent handlers of the bridge\<close>

text \<open>
  One message as a task: what it parses is its own; its one step on what is shared is the signal it
  sends, here the end of the list of a workflow server's signals.
\<close>

definition bridgeTask :: "message \<Rightarrow> (string \<times> ackSignal) list task" where
  "bridgeTask m =
     (case m of (topic, qos, body) \<Rightarrow>
       (case onMessage topic (Some body) of
          None \<Rightarrow> Stop
        | Some d \<Rightarrow> Step (\<lambda>sent. (sent @ [d], Stop))))"

definition signalOf :: "message \<Rightarrow> (string \<times> ackSignal) list" where
  "signalOf m = (case m of (topic, qos, body) \<Rightarrow>
     (case onMessage topic (Some body) of None \<Rightarrow> [] | Some d \<Rightarrow> [d]))"

fun pending :: "(string \<times> ackSignal) list task \<Rightarrow> (string \<times> ackSignal) multiset" where
  "pending Stop = {#}"
| "pending (Step f) = mset (fst (f []))"

definition sender :: "(string \<times> ackSignal) list task \<Rightarrow> bool" where
  "sender t \<longleftrightarrow> t = Stop \<or> (\<exists>d. t = Step (\<lambda>sent. (sent @ [d], Stop)))"

lemma sender_bridgeTask: "sender (bridgeTask m)"
  by (auto simp: sender_def bridgeTask_def split: prod.split option.split)

lemma pending_bridgeTask: "pending (bridgeTask m) = mset (signalOf m)"
  by (auto simp: bridgeTask_def signalOf_def split: prod.split option.split)

abbreviation allPending :: "(string \<times> ackSignal) list task list \<Rightarrow> (string \<times> ackSignal) multiset" where
  "allPending ts \<equiv> sum_list (map pending ts)"

lemma allPending_update:
  "i < length ts \<Longrightarrow> allPending (ts[i := t]) + pending (ts ! i) = allPending ts + pending t"
  by (induction ts arbitrary: i) (auto simp: nth_Cons ac_simps split: nat.splits)

lemma senders_conserve:
  assumes "interleaved ts x steps us y" and "\<forall>t \<in> set ts. sender t"
  shows "(\<forall>t \<in> set us. sender t) \<and> mset y + allPending us = mset x + allPending ts"
  using assms(1)
proof (induction rule: interleaved.induct)
  case begun
  then show ?case using assms(2) by simp
next
  case (turn steps us y i f z t)
  then have "sender (Step f)" by (metis nth_mem)
  then obtain d where f: "f = (\<lambda>sent. (sent @ [d], Stop))" by (auto simp: sender_def)
  have zt: "z = y @ [d]" "t = Stop" using turn.hyps(4) by (simp_all add: f)
  have "allPending (us[i := Stop]) + {#d#} = allPending us"
    using allPending_update [OF turn.hyps(2), of Stop] turn.hyps(3) by (simp add: f)
  moreover have "\<forall>t \<in> set (us[i := Stop]). sender t"
    using turn.IH set_update_subset_insert [of us i Stop] by (auto simp: sender_def)
  moreover have "mset z + allPending (us[i := t]) = mset y + allPending us"
    unfolding zt calculation(1) [symmetric] by simp
  ultimately show ?case using turn.IH zt(2) by simp
qed

lemma pending_none: "allPending ts = {#} \<Longrightarrow> t \<in> set ts \<Longrightarrow> pending t = {#}"
  by (induction ts) auto

lemma pending_some: "d \<in># allPending ts \<Longrightarrow> \<exists>t \<in> set ts. d \<in># pending t"
  by (induction ts) auto

lemma senders_reach:
  assumes "\<forall>t \<in> set ts. sender t" and "allPending ts = mset ys"
  shows "reaches ts x (replicate (length ts) Stop) (x @ ys)"
  using assms
proof (induction ys arbitrary: ts x)
  case Nil
  have "t = Stop" if "t \<in> set ts" for t
  proof -
    have "pending t = {#}" using pending_none [of ts t] Nil(2) that by simp
    then show ?thesis using Nil(1) that by (auto simp: sender_def)
  qed
  then have "replicate (length ts) Stop = ts" by (metis replicate_length_same)
  then show ?case using reaches_refl [of ts x] by simp
next
  case (Cons d ys)
  have "d \<in># allPending ts" using Cons.prems(2) by simp
  then obtain i where i: "i < length ts" "d \<in># pending (ts ! i)"
    using pending_some by (metis in_set_conv_nth)
  have "sender (ts ! i)" using Cons.prems(1) i(1) by simp
  with i(2) have f: "ts ! i = Step (\<lambda>sent. (sent @ [d], Stop))" by (auto simp: sender_def)
  have "allPending (ts[i := Stop]) + {#d#} = allPending ts"
    using allPending_update [OF i(1), of Stop] by (simp add: f)
  then have left: "allPending (ts[i := Stop]) = mset ys" using Cons.prems(2) by simp
  have "\<forall>t \<in> set (ts[i := Stop]). sender t"
    using Cons.prems(1) set_update_subset_insert [of ts i Stop] by (auto simp: sender_def)
  then have "reaches (ts[i := Stop]) (x @ [d]) (replicate (length ts) Stop) (x @ d # ys)"
    using Cons.IH [OF _ left, of "x @ [d]"] by simp
  then show ?case using reaches_first [OF i(1) f, of x "x @ [d]" Stop] by simp
qed

lemma bridge_runs:
  "(\<exists>steps us. interleaved (map bridgeTask ms) [] steps us y \<and> list_all finished us) \<longleftrightarrow>
     mset y = mset (concat (map signalOf ms))"
proof -
  have ts: "\<forall>t \<in> set (map bridgeTask ms). sender t" using sender_bridgeTask by auto
  have all: "allPending (map bridgeTask ms) = mset (concat (map signalOf ms))"
    by (induction ms) (simp_all add: pending_bridgeTask)
  show ?thesis
  proof
    assume "\<exists>steps us. interleaved (map bridgeTask ms) [] steps us y \<and> list_all finished us"
    then obtain steps us where run: "interleaved (map bridgeTask ms) [] steps us y" "list_all finished us" by blast
    have "allPending us = {#}" using run(2) by (induction us) (auto simp: finished_Stop)
    then show "mset y = mset (concat (map signalOf ms))" using senders_conserve [OF run(1) ts] all by simp
  next
    assume "mset y = mset (concat (map signalOf ms))"
    with senders_reach [OF ts, of y "[]"] all
    obtain steps where "interleaved (map bridgeTask ms) [] steps (replicate (length ms) Stop) y"
      by (auto simp: reaches_def)
    then show "\<exists>steps us. interleaved (map bridgeTask ms) [] steps us y \<and> list_all finished us"
      by (intro exI conjI) (auto simp: list_all_iff)
  qed
qed

text \<open>
  The handlers of any messages, run side by side, signal each ack exactly once and in any order
  whatever: the orders of the finished runs are all the permutations of the messages' signals.
\<close>

theorem bridge_reorders:
  "(\<exists>steps us. interleaved (map bridgeTask ms) [] steps us y \<and> list_all finished us) \<longleftrightarrow>
     mset y = mset (concat (map signalOf ms))"
  by (rule bridge_runs)

text \<open>What the workflow of one ID is signalled, of all the signals sent.\<close>

definition signalsTo :: "string \<Rightarrow> (string \<times> ackSignal) list \<Rightarrow> ackSignal list" where
  "signalsTo wfID sent = map snd (filter (\<lambda>d. fst d = wfID) sent)"

lemma signalsTo_deliveries: "deliveries wfID ms = signalsTo wfID (concat (map signalOf ms))"
  by (induction ms) (auto simp: signalsTo_def signalOf_def split: prod.splits option.splits)

lemma signalOf_ack:
  assumes "slashFree robot" and "ack_Phase a \<noteq> ''PHASE_ROLLED_BACK''"
  shows "signalOf (ackMessage robot a) = [(childID (ack_RolloutID a) robot, ackSignalOf a)]"
  using assms
  by (simp add: signalOf_def ackMessage_def onMessage_def parse_ack ack_decode targetWorkflowID_def
      childID_def ackSignalOf_def)

lemma not_ok_rolls_back:
  assumes "\<not> okOrder (map sig_Phase (map snd (sg_signals e)))" and "sendAccepted maxAttempts (sg_send e)"
  shows "sr_Phase (fst (OTASingleRobot e inp w)) = SingleRolledBack"
  using assms AllAcked_order [of e "si_Spec inp"] by (auto simp: single_phase)

section \<open>Updates that succeed on the robot and are rolled back\<close>

definition deliveredTo :: "single_env \<Rightarrow> string \<Rightarrow> (string \<times> ackSignal) list \<Rightarrow> bool" where
  "deliveredTo e wfID sent \<longleftrightarrow>
     map snd (sg_signals e) = signalsTo wfID sent \<and> sendAccepted maxAttempts (sg_send e)"

text \<open>
  C19: a robot carries out an update without any failure, and the handlers of its four acks can run
  in such an order that the cloud, whenever the signals arrive, rolls it back.
\<close>

theorem healthy_update_rolled_back:
  assumes "slashFree (ec_RobotID cfg)" and "in_i64 (SmokeTimeout spec)"
    and "forwardOutcome cfg (forwardCommand ro (ec_RobotID cfg) spec) (ex_engine x) = Healthy"
  shows "\<exists>steps us sent.
    interleaved (map bridgeTask (newMessages x (handle cfg (Some (otaCommandBody ro (ec_RobotID cfg) spec)) x)))
      [] steps us sent \<and> list_all finished us \<and>
    (\<forall>e inp w. deliveredTo e (childID ro (ec_RobotID cfg)) sent \<longrightarrow>
       sr_Phase (fst (OTASingleRobot e inp w)) = SingleRolledBack)"
proof -
  let ?r = "ec_RobotID cfg" and ?cmd = "forwardCommand ro (ec_RobotID cfg) spec"
  let ?y = "handle cfg (Some (otaCommandBody ro ?r spec)) x"
  have act: "cmd_Action ?cmd \<noteq> CmdRollback" by (simp add: forwardCommand_def CmdRollback_def)
  obtain as where as: "acksSince cfg ?cmd x ?y as"
    and ph: "map ack_Phase as = map Phase_name (PHASE_RECEIVED # outcomePhases Healthy)"
    using handle_acks [OF forwardCommand_decodes [OF assms(2), of ro ?r], where cfg = cfg and x = x] act assms(3)
    by auto
  then obtain a1 a2 a3 a4 where as4: "as = [a1, a2, a3, a4]"
    and phs: "ack_Phase a1 = ''PHASE_RECEIVED''" "ack_Phase a2 = ''PHASE_PULLED''"
      "ack_Phase a3 = ''PHASE_SWAPPED''" "ack_Phase a4 = ''PHASE_HEALTHY''"
    by (auto simp: map_eq_Cons_conv)
  have ro: "ack_RolloutID a = ro" if "a \<in> set as" for a
    using as that by (simp add: acksSince_def forwardCommand_def)
  let ?sig = "\<lambda>a. (childID ro ?r, ackSignalOf a)"
  have sig: "signalOf (ackMessage ?r a) = [?sig a]" if "a \<in> set as" for a
    using signalOf_ack [OF assms(1), of a] ro [OF that] that phs as4 by auto
  have "concat (map signalOf (newMessages x ?y)) = [?sig a1, ?sig a2, ?sig a3, ?sig a4]"
    using sig unfolding acksSince_new [OF as] by (simp add: as4)
  then have "mset [?sig a1, ?sig a3, ?sig a2, ?sig a4] = mset (concat (map signalOf (newMessages x ?y)))" by simp
  then obtain steps us where run: "interleaved (map bridgeTask (newMessages x ?y)) [] steps us
      [?sig a1, ?sig a3, ?sig a2, ?sig a4]" "list_all finished us"
    unfolding bridge_runs [symmetric] by blast
  have "\<not> okOrder [''PHASE_RECEIVED'', ''PHASE_SWAPPED'', ''PHASE_PULLED'', ''PHASE_HEALTHY'']"
    by (auto simp: okOrder_def Cons_eq_append_conv)
  then have "sr_Phase (fst (OTASingleRobot e inp w)) = SingleRolledBack"
    if "deliveredTo e (childID ro ?r) [?sig a1, ?sig a3, ?sig a2, ?sig a4]" for e inp w
    using that phs not_ok_rolls_back [of e inp w]
    by (simp add: deliveredTo_def signalsTo_def ackSignalOf_def)
  with run show ?thesis by blast
qed

text \<open>Messages published in a run of goroutines that all carry out one command.\<close>

lemma answered_trans: "answered cfg cmd x y \<Longrightarrow> answered cfg cmd y z \<Longrightarrow> answered cfg cmd x z"
  unfolding answered_def acksSince_def by (metis (no_types, lifting) append.assoc map_append set_append Un_iff)

interpretation answered: guarantee "answered cfg cmd"
  by unfold_locales (auto intro: answered_refl answered_trans)

lemma handleSteps_answered:
  assumes "unmarshalCommand body = Inr cmd"
  shows "keeps (answered cfg cmd) (handleSteps cfg body)"
proof (rule handleSteps_keeps)
  show "commandsKeep cfg (answered cfg cmd)"
    by (simp add: commandsKeep_def commandKeeps_def Let_def answered_refl)
qed (use assms in \<open>auto intro: answered_refl answered_publishAck\<close>)

lemma copies_answered:
  assumes "unmarshalCommand body = Inr cmd"
    and "interleaved (handleAllSteps cfg (replicate n body)) x steps us y"
  shows "answered cfg cmd x y"
  using answered.kept [OF assms(2), of cfg cmd] handleSteps_answered [OF assms(1)]
  by (auto simp: handleAllSteps_def)

lemma signals_of_acks:
  assumes "slashFree robot" and "acksSince cfg cmd x y as" and "ec_RobotID cfg = robot" and "cmd_RolloutID cmd = ro"
  shows "map sig_Phase (signalsTo (childID ro robot) (concat (map signalOf (newMessages x y)))) =
    filter (\<lambda>p. p \<noteq> ''PHASE_ROLLED_BACK'') (map ack_Phase as)"
proof -
  have "\<forall>a \<in> set as. ack_RolloutID a = ro" using assms(2,4) by (simp add: acksSince_def)
  from deliveries_child [OF assms(1) this] show ?thesis
    unfolding signalsTo_deliveries [symmetric] acksSince_new [OF assms(2)] assms(3)
    by (simp add: ackSignalOf_def comp_def filter_map)
qed

text \<open>The first steps of a forward command: it has pulled and started the new container.\<close>

lemma forward_until_run:
  fixes cfg :: "'s executorConfig"
  assumes body: "unmarshalCommand body = Inr cmd" "cmd_Action cmd \<noteq> CmdRollback" and img: "cmd_ImageRef cmd \<noteq> ''''"
    and pull: "Pull (ec_runner cfg) (ec_Docker cfg) (cmd_ImageRef cmd) (ex_engine x) = (None, s1)"
    and cur: "CurrentDigest (ec_runner cfg) (ec_Docker cfg) s1 = (cur, s2)"
    and run: "runCmd (ec_runner cfg) None (d_bin (ec_Docker cfg))
      (runArgs (ec_Docker cfg) (tmpName (ec_Docker cfg)) (cmd_ImageRef cmd)) s2 = (None, s3)"
  shows "\<exists>t y. reaches [handleSteps cfg body, u] x [t, u] y \<and> ex_engine y = s3 \<and>
    phasesOf y = phasesOf x @ [''PHASE_RECEIVED'', ''PHASE_PULLED'']"
proof -
  define kR where "kR = (\<lambda>(prev, e). case e of
      Some err \<Rightarrow> ackStep cfg cmd ''PHASE_FAILED'' (''swap: '' @ error_text err) Stop
    | None \<Rightarrow> recordPrevStep prev (ackStep cfg cmd ''PHASE_SWAPPED'' ''''
        (engineStep (Exec (ec_runner cfg) (smokeLimit cmd) (ec_Docker cfg) (cmd_SmokeCommand cmd)) (\<lambda>r. case r of
          Some err \<Rightarrow> RollbackSteps (ec_runner cfg) (ec_Docker cfg) prev (\<lambda>_.
            ackStep cfg cmd ''PHASE_FAILED'' (''smoke: '' @ error_text err)
            (ackStep cfg cmd ''PHASE_ROLLED_BACK'' ''self-rollback after smoke failure'' Stop))
        | None \<Rightarrow> ackStep cfg cmd ''PHASE_HEALTHY'' '''' Stop))))"
  let ?x1 = "publishAck cfg cmd ''PHASE_RECEIVED'' '''' x"
  let ?x3 = "publishAck cfg cmd ''PHASE_PULLED'' '''' (?x1\<lparr>ex_engine := s1\<rparr>)"
  let ?y = "?x3\<lparr>ex_engine := s3\<rparr>"
  let ?swap = "SwapSteps (ec_runner cfg) (ec_Docker cfg) (cmd_ImageRef cmd) kR"
  obtain t where "reaches [?swap, u] ?x3 [t, u] ?y"
  proof -
    obtain k1 k2 where k: "?swap = engineStep (CurrentDigest (ec_runner cfg) (ec_Docker cfg)) k1"
      "k1 cur = engineStep (runCmd (ec_runner cfg) None (d_bin (ec_Docker cfg))
        (runArgs (ec_Docker cfg) (tmpName (ec_Docker cfg)) (cmd_ImageRef cmd))) k2"
      unfolding SwapSteps_def Let_def by blast
    have "reaches [k1 cur, u] (?x3\<lparr>ex_engine := s2\<rparr>) [k2 None, u] ?y"
      using reaches_engineStep [of 0 "[k1 cur, u]" _ k2 "?x3\<lparr>ex_engine := s2\<rparr>" None s3 "[k2 None, u]" ?y] k(2) run
        reaches_refl [of "[k2 None, u]" ?y] by simp
    then have "reaches [?swap, u] ?x3 [k2 None, u] ?y"
      using reaches_engineStep [of 0 "[?swap, u]" _ k1 ?x3 cur s2 "[k2 None, u]" ?y] k(1) cur by simp
    then show thesis by (rule that)
  qed
  moreover obtain k0 where k0: "runForwardSteps cfg cmd = engineStep (Pull (ec_runner cfg) (ec_Docker cfg) (cmd_ImageRef cmd)) k0"
      "k0 None = ackStep cfg cmd ''PHASE_PULLED'' '''' ?swap"
    unfolding runForwardSteps_def Let_def kR_def using img by simp
  ultimately have "reaches [k0 None, u] (?x1\<lparr>ex_engine := s1\<rparr>) [t, u] ?y"
    using reaches_ackStep [of 0 "[k0 None, u]" cfg cmd "''PHASE_PULLED''" "''''" ?swap "?x1\<lparr>ex_engine := s1\<rparr>" "[t, u]" ?y] by simp
  then have "reaches [runForwardSteps cfg cmd, u] ?x1 [t, u] ?y"
    using reaches_engineStep [of 0 "[runForwardSteps cfg cmd, u]" _ k0 ?x1 None s1 "[t, u]" ?y] k0(1) pull by simp
  moreover have "handleSteps cfg body = ackStep cfg cmd ''PHASE_RECEIVED'' '''' (runForwardSteps cfg cmd)"
    using body by (simp add: handleSteps_def)
  ultimately have "reaches [handleSteps cfg body, u] x [t, u] ?y"
    using reaches_ackStep [of 0 "[handleSteps cfg body, u]" cfg cmd "''PHASE_RECEIVED''" "''''"
      "runForwardSteps cfg cmd" x "[t, u]" ?y] by simp
  then show ?thesis by (intro exI [of _ t] exI [of _ ?y]) simp
qed

lemma acksSince_phases: "acksSince cfg cmd x y as \<Longrightarrow> phasesOf y = phasesOf x @ map ack_Phase as"
  by (simp add: acksSince_def phasesOf_def comp_def)

lemma duplicate_fails:
  assumes "agent_laws resolve view cfg" and "in_i64 (SmokeTimeout spec)"
    and "ImageRef spec \<noteq> ''''"
    and "Pull (ec_runner cfg) (ec_Docker cfg) (ImageRef spec) (ex_engine x) = (None, s1)"
    and "CurrentDigest (ec_runner cfg) (ec_Docker cfg) s1 = (cur, s2)"
    and "runCmd (ec_runner cfg) None (d_bin (ec_Docker cfg))
      (runArgs (ec_Docker cfg) (tmpName (ec_Docker cfg)) (ImageRef spec)) s2 = (None, s3)"
  shows "\<exists>steps y as ps rest.
    interleaved (handleAllSteps cfg (replicate 2 (Some (otaCommandBody ro (ec_RobotID cfg) spec)))) x steps [Stop, Stop] y \<and>
    acksSince cfg (forwardCommand ro (ec_RobotID cfg) spec) x y as \<and>
    map ack_Phase as = [''PHASE_RECEIVED'', ''PHASE_PULLED''] @ ps @ ''PHASE_FAILED'' # rest \<and>
    set ps \<subseteq> {''PHASE_RECEIVED'', ''PHASE_PULLED''}"
proof -
  let ?r = "ec_RobotID cfg" and ?cmd = "forwardCommand ro (ec_RobotID cfg) spec"
  let ?b = "Some (otaCommandBody ro ?r spec)"
  let ?h = "handleSteps cfg ?b"
  have dec: "unmarshalCommand ?b = Inr ?cmd" by (rule forwardCommand_decodes [OF assms(2)])
  have cmd: "cmd_Action ?cmd \<noteq> CmdRollback" "cmd_ImageRef ?cmd = ImageRef spec" "cmd_RolloutID ?cmd = ro"
    by (simp_all add: forwardCommand_def CmdRollback_def)
  from forward_until_run [OF dec cmd(1), unfolded cmd(2), OF assms(3-6), of ?h] obtain t y1 where
    y1: "reaches [?h, ?h] x [t, ?h] y1" "ex_engine y1 = s3"
      "phasesOf y1 = phasesOf x @ [''PHASE_RECEIVED'', ''PHASE_PULLED'']" by blast
  have "view s3 (tmpName (ec_Docker cfg)) \<noteq> None" using run_ok [OF assms(1,6)] by simp
  then have tmp: "view (ex_engine y1) (tmpName (ec_Docker cfg)) \<noteq> None" by (simp add: y1(2))
  have fwd: "isForward ?b" by (simp add: isForward_def dec cmd(1))
  from busy_swap_fails [OF assms(1) _ _ tmp fwd, of 1 "[t, ?h]"] obtain y2 ps where
    y2: "reaches [t, ?h] y1 [t, Stop] y2" "phasesOf y2 = phasesOf y1 @ ps @ [''PHASE_FAILED'']"
      "set ps \<subseteq> {''PHASE_RECEIVED'', ''PHASE_PULLED''}" by auto
  let ?y = "runAlone t y2"
  have last: "reaches [t, Stop] y2 [Stop, Stop] ?y" using reaches_alone [of 0 "[t, Stop]" y2] by simp
  have copies: "handleAllSteps cfg (replicate 2 ?b) = [?h, ?h]"
    by (simp add: handleAllSteps_def numeral_2_eq_2)
  have to2: "reaches [?h, ?h] x [t, Stop] y2" by (rule reaches_trans [OF y1(1) y2(1)])
  then obtain st2 where st2: "interleaved [?h, ?h] x st2 [t, Stop] y2" by (auto simp: reaches_def)
  from reaches_trans [OF to2 last] obtain st where st: "interleaved [?h, ?h] x st [Stop, Stop] ?y"
    by (auto simp: reaches_def)
  from last obtain st3 where st3: "interleaved [t, Stop] y2 st3 [Stop, Stop] ?y" by (auto simp: reaches_def)
  have keep: "\<forall>u \<in> set [t, Stop]. keeps (answered cfg ?cmd) u"
    using answered.kept [OF st2, of cfg ?cmd] handleSteps_answered [OF dec, of cfg] by simp
  from answered.kept [OF st3 keep] obtain as3 where as3: "acksSince cfg ?cmd y2 ?y as3"
    by (auto simp: answered_def)
  from copies_answered [OF dec, of cfg 2 x st "[Stop, Stop]" ?y] st copies obtain as where
    as: "acksSince cfg ?cmd x ?y as" by (auto simp: answered_def)
  have "map ack_Phase as = [''PHASE_RECEIVED'', ''PHASE_PULLED''] @ ps @ ''PHASE_FAILED'' # map ack_Phase as3"
    using acksSince_phases [OF as] acksSince_phases [OF as3] y1(3) y2(2) by simp
  with st as y2(3) show ?thesis unfolding copies by blast
qed

text \<open>A failure is acknowledged before any success of a swap.\<close>

definition failedFirst :: "string list \<Rightarrow> bool" where
  "failedFirst phs \<longleftrightarrow> ''PHASE_FAILED'' \<in> set phs \<and>
     ''PHASE_SWAPPED'' \<notin> set (takeWhile (\<lambda>p. p \<noteq> ''PHASE_FAILED'') phs)"

lemma takeWhile_before: "a \<notin> set ps \<Longrightarrow> takeWhile (\<lambda>p. p \<noteq> a) (ps @ a # rest) = ps"
  by (induction ps) auto

lemma failedFirst_split:
  "failedFirst phs \<Longrightarrow> \<exists>ps rest. phs = ps @ ''PHASE_FAILED'' # rest \<and> ''PHASE_SWAPPED'' \<notin> set ps"
  unfolding failedFirst_def using split_list_first [of "''PHASE_FAILED''" phs] takeWhile_before by metis

lemma failedFirst_append:
  "''PHASE_FAILED'' \<notin> set ps \<Longrightarrow> ''PHASE_SWAPPED'' \<notin> set ps \<Longrightarrow> failedFirst (ps @ ''PHASE_FAILED'' # rest)"
  by (simp add: failedFirst_def takeWhile_before)

lemma newPhases_acks: "acksSince cfg cmd x y as \<Longrightarrow> newPhases x y = map ack_Phase as"
  by (simp add: newPhases_def acksSince_phases)

lemma failedFirst_rolls_back:
  assumes "slashFree (ec_RobotID cfg)" and "acksSince cfg cmd x y as" and "failedFirst (newPhases x y)"
    and "deliveredTo e (childID (cmd_RolloutID cmd) (ec_RobotID cfg)) (concat (map signalOf (newMessages x y)))"
  shows "sr_Phase (fst (OTASingleRobot e inp w)) = SingleRolledBack"
proof -
  obtain ps rest where ph: "map ack_Phase as = ps @ ''PHASE_FAILED'' # rest" "''PHASE_SWAPPED'' \<notin> set ps"
    using failedFirst_split [OF assms(3)] unfolding newPhases_acks [OF assms(2)] by blast
  let ?qs = "filter (\<lambda>p. p \<noteq> ''PHASE_ROLLED_BACK'') ps"
  obtain rest' where q: "map sig_Phase (signalsTo (childID (cmd_RolloutID cmd) (ec_RobotID cfg))
      (concat (map signalOf (newMessages x y)))) = ?qs @ ''PHASE_FAILED'' # rest'"
    using signals_of_acks [OF assms(1,2) HOL.refl HOL.refl, unfolded ph(1)] by simp
  have "set ?qs \<inter> {''PHASE_SWAPPED''} = {}" using ph(2) by auto
  then have "\<not> okOrder (?qs @ ''PHASE_FAILED'' # rest')" by (rule failed_first_not_ok)
  then show ?thesis using assms(4) not_ok_rolls_back [of e inp w] unfolding deliveredTo_def q [symmetric] by metis
qed

text \<open>
  C8: copies of a forward command, which the cloud's retries and QoS 1 both can produce, run side by
  side on the robot.  Two of them can interleave so that a failure is acknowledged before any SWAPPED:
  the second meets the temporary container of the first.  And in every interleaving of any number of
  copies in which a failure is acknowledged before any SWAPPED, the cloud rolls the robot back,
  whenever the signals arrive and however the other copies end.
\<close>

theorem duplicate_command_rolls_back:
  assumes "agent_laws resolve view cfg" and "slashFree (ec_RobotID cfg)" and "in_i64 (SmokeTimeout spec)"
    and "ImageRef spec \<noteq> ''''"
    and "Pull (ec_runner cfg) (ec_Docker cfg) (ImageRef spec) (ex_engine x) = (None, s1)"
    and "CurrentDigest (ec_runner cfg) (ec_Docker cfg) s1 = (cur, s2)"
    and "runCmd (ec_runner cfg) None (d_bin (ec_Docker cfg))
      (runArgs (ec_Docker cfg) (tmpName (ec_Docker cfg)) (ImageRef spec)) s2 = (None, s3)"
  shows "(\<exists>steps y. interleaved (handleAllSteps cfg
        (replicate 2 (Some (otaCommandBody ro (ec_RobotID cfg) spec)))) x steps [Stop, Stop] y \<and>
      failedFirst (newPhases x y)) \<and>
    (\<forall>n steps us y e inp w. interleaved (handleAllSteps cfg
        (replicate n (Some (otaCommandBody ro (ec_RobotID cfg) spec)))) x steps us y \<and>
      failedFirst (newPhases x y) \<and>
      deliveredTo e (childID ro (ec_RobotID cfg)) (concat (map signalOf (newMessages x y))) \<longrightarrow>
       sr_Phase (fst (OTASingleRobot e inp w)) = SingleRolledBack)"
proof -
  let ?r = "ec_RobotID cfg" and ?cmd = "forwardCommand ro (ec_RobotID cfg) spec"
  let ?b = "Some (otaCommandBody ro ?r spec)"
  have ro: "cmd_RolloutID ?cmd = ro" by (simp add: forwardCommand_def)
  obtain st y as ps rest where st: "interleaved (handleAllSteps cfg (replicate 2 ?b)) x st [Stop, Stop] y"
    and as: "acksSince cfg ?cmd x y as"
    and ph: "map ack_Phase as = [''PHASE_RECEIVED'', ''PHASE_PULLED''] @ ps @ ''PHASE_FAILED'' # rest"
    and ps: "set ps \<subseteq> {''PHASE_RECEIVED'', ''PHASE_PULLED''}"
    using duplicate_fails [OF assms(1,3-7), of ro] by blast
  have "failedFirst (newPhases x y)"
    using failedFirst_append [of "[''PHASE_RECEIVED'', ''PHASE_PULLED''] @ ps" rest] ps
    by (auto simp: newPhases_acks [OF as] ph)
  moreover have "sr_Phase (fst (OTASingleRobot e inp w)) = SingleRolledBack"
    if "interleaved (handleAllSteps cfg (replicate n ?b)) x steps us z" "failedFirst (newPhases x z)"
      "deliveredTo e (childID ro ?r) (concat (map signalOf (newMessages x z)))" for n steps us z e inp w
    using copies_answered [OF forwardCommand_decodes [OF assms(3)] that(1)] that(2,3)
      failedFirst_rolls_back [OF assms(2), of ?cmd x z _ e inp w, unfolded ro]
    by (auto simp: answered_def)
  ultimately show ?thesis using st by blast
qed

section \<open>Witnesses\<close>

definition envWith :: "(string \<times> ackSignal) list \<Rightarrow> single_env" where
  "envWith sent = demoUpdateEnv\<lparr>sg_signals := map (\<lambda>s. (second, s)) (signalsTo (childID ''rollout-1'' ''r1'') sent)\<rparr>"

lemma envWith_delivered: "deliveredTo (envWith sent) (childID ''rollout-1'' ''r1'') sent"
  by (simp add: deliveredTo_def envWith_def demoUpdateEnv_def maxAttempts_def comp_def)

lemma demo_robot: "ec_RobotID demoConfig = ''r1''" "slashFree (ec_RobotID demoConfig)"
  by (simp_all add: demoConfig_def slashFree_def)

theorem healthy_update_rolled_back_witness:
  "forwardOutcome demoConfig (forwardCommand ''rollout-1'' ''r1'' demoSpec) (ex_engine demoStart) = Healthy \<and>
   (\<exists>steps us sent. interleaved (map bridgeTask demoUpdate) [] steps us sent \<and> list_all finished us \<and>
      sr_Phase (fst (OTASingleRobot (envWith sent) demoInput demoCloud)) = ''rolled_back'')"
proof -
  have 1: "in_i64 (SmokeTimeout demoSpec)" by code_simp
  have 2: "forwardOutcome demoConfig (forwardCommand ''rollout-1'' ''r1'' demoSpec) (ex_engine demoStart) = Healthy"
    by code_simp
  from healthy_update_rolled_back [OF demo_robot(2) 1, unfolded demo_robot(1), OF 2] 2 show ?thesis
    using envWith_delivered unfolding demoUpdate_def SingleRolledBack_def by blast
qed

theorem duplicate_command_rolls_back_witness:
  "\<exists>steps y. interleaved (handleAllSteps demoConfig
      (replicate 2 (Some (otaCommandBody ''rollout-1'' ''r1'' demoSpec)))) demoStart steps [Stop, Stop] y \<and>
    failedFirst (newPhases demoStart y) \<and>
    sr_Phase (fst (OTASingleRobot (envWith (concat (map signalOf (newMessages demoStart y)))) demoInput demoCloud)) =
      ''rolled_back''"
proof -
  let ?rn = "ec_runner demoConfig" and ?d = "ec_Docker demoConfig" and ?ref = "ImageRef demoSpec"
  let ?s1 = "snd (Pull ?rn ?d ?ref (ex_engine demoStart))"
  let ?s2 = "snd (CurrentDigest ?rn ?d ?s1)"
  let ?run = "runCmd ?rn None (d_bin ?d) (runArgs ?d (tmpName ?d) ?ref) ?s2"
  have 1: "in_i64 (SmokeTimeout demoSpec)" by code_simp
  have 2: "?ref \<noteq> ''''" by code_simp
  have 3: "fst (Pull ?rn ?d ?ref (ex_engine demoStart)) = None" by code_simp
  have 4: "fst ?run = None" by code_simp
  have 5: "Pull ?rn ?d ?ref (ex_engine demoStart) = (None, ?s1)" "?run = (None, snd ?run)"
    "CurrentDigest ?rn ?d ?s1 = (fst (CurrentDigest ?rn ?d ?s1), ?s2)"
    using 3 4 by (metis prod.collapse)+
  from duplicate_command_rolls_back [OF demo_laws demo_robot(2) 1 2 5(1,3,2), of "''rollout-1''", unfolded demo_robot(1)]
  show ?thesis using envWith_delivered unfolding SingleRolledBack_def by blast
qed

text \<open>
  In such a run the first copy may well succeed: the robot runs the new image and says HEALTHY,
  after the failure of the second.
\<close>

definition demoDuplicate where
  "demoDuplicate = runSchedule ([0, 0, 0, 0, 0] @ replicate 15 1 @ replicate 15 0)
     (handleAllSteps demoConfig (replicate 2 (Some (otaCommandBody ''rollout-1'' ''r1'' demoSpec)))) demoStart"

lemma demoDuplicate_run:
  "case demoDuplicate of (turns, us, y) \<Rightarrow> list_all finished us \<and>
     phasesOf y = [''PHASE_RECEIVED'', ''PHASE_PULLED'', ''PHASE_RECEIVED'', ''PHASE_PULLED'',
       ''PHASE_FAILED'', ''PHASE_SWAPPED'', ''PHASE_HEALTHY''] \<and>
     ex_engine y ''robot-app'' = Some ''app:2''"
  by code_simp

section \<open>Every ack becomes a signal\<close>

text \<open>A message that the bridge turns into a signal of an update or rollback workflow of a robot, with a known phase.\<close>

definition wellTyped :: "string \<Rightarrow> message \<Rightarrow> bool" where
  "wellTyped robot m = (case m of (topic, qos, body) \<Rightarrow> qos = 1 \<and>
     (case onMessage topic (Some body) of
        None \<Rightarrow> False
      | Some (target, sig) \<Rightarrow> Phase_value (sig_Phase sig) \<noteq> None \<and>
          (case unmarshalBridgeAck (Some body) of Inl err \<Rightarrow> False
           | Inr a \<Rightarrow> target = (if sig_Phase sig = ''PHASE_ROLLED_BACK'' then rollbackID (ba_RolloutID a) robot
               else childID (ba_RolloutID a) robot))))"

definition publishesTyped :: "'s executorConfig \<Rightarrow> 's executor \<Rightarrow> 's executor \<Rightarrow> bool" where
  "publishesTyped cfg x y \<longleftrightarrow> (\<exists>ms. ex_published y = ex_published x @ ms \<and> list_all (wellTyped (ec_RobotID cfg)) ms)"

lemma publishesTyped_refl: "publishesTyped cfg x x"
  by (simp add: publishesTyped_def)

lemma publishesTyped_trans: "publishesTyped cfg x y \<Longrightarrow> publishesTyped cfg y z \<Longrightarrow> publishesTyped cfg x z"
  unfolding publishesTyped_def by (metis append.assoc list_all_append)

interpretation typed: guarantee "publishesTyped cfg"
  by unfold_locales (auto intro: publishesTyped_refl publishesTyped_trans)

lemma recordPrev_typed: "publishesTyped cfg x (recordPrev d x)"
  by (simp add: publishesTyped_def)

lemma publishAck_typed:
  assumes "slashFree (ec_RobotID cfg)" and "ph \<in> range Phase_name"
  shows "publishesTyped cfg x (publishAck cfg cmd ph dt x)"
proof -
  obtain y where y: "Phase_value ph = Some y" using assms(2) by auto
  then show ?thesis
    using assms(1)
    by (auto simp: publishesTyped_def publishAck_def Let_def wellTyped_def onMessage_def parse_ack ack_decode
        targetWorkflowID_def rollbackID_def childID_def)
qed

lemma handleSteps_typed:
  assumes "slashFree (ec_RobotID cfg)"
  shows "keeps (publishesTyped cfg) (handleSteps cfg body)"
proof (rule handleSteps_keeps)
  show "commandsKeep cfg (publishesTyped cfg)"
    by (simp add: commandsKeep_def commandKeeps_def Let_def publishesTyped_def)
qed (use assms in \<open>auto intro: publishAck_typed publishesTyped_refl simp: recordPrev_typed\<close>)

text \<open>
  C25: whatever commands arrive and however their goroutines interleave, every message the robot
  publishes is one the cloud's bridge accepts: an ack with a phase of the enumeration, at QoS 1,
  routed to a workflow of this robot.
\<close>

theorem acks_well_typed:
  assumes "slashFree (ec_RobotID cfg)" and "interleaved (handleAllSteps cfg bodies) x steps us y"
  shows "list_all (wellTyped (ec_RobotID cfg)) (newMessages x y)"
  using typed.kept [OF assms(2), of cfg] handleSteps_typed [OF assms(1)]
  by (auto simp: handleAllSteps_def publishesTyped_def newMessages_def)

theorem acks_well_typed_witness:
  "list_all (wellTyped ''r1'') (newMessages demoStart (snd (snd demoRun))) \<and>
   length (newMessages demoStart (snd (snd demoRun))) = 6"
proof -
  have "length (newMessages demoStart (snd (snd demoRun))) = 6" by code_simp
  with acks_well_typed [OF demo_robot(2) demoRun_interleaved, unfolded demo_robot(1)] show ?thesis by blast
qed

end
