(* ===== verification/Buffer.thy ===== *)
theory Buffer
  imports Prelude Interfaces
begin

text \<open>
  The robot's local telemetry buffer, package \<^verbatim>\<open>agent/internal/buffer\<close>: one SQLite table of
  samples and the four operations on it.  Each SQL statement of the source is a function on the
  table; a transaction works on a copy that only a successful \<^verbatim>\<open>Commit\<close> installs.  Whether a
  database call fails is not in the sources, so every operation takes the failures as an argument.
  The theory shows that the table implements a bounded first-in first-out queue that drops its
  oldest samples, and states the interface the publish loop relies on as a locale.
\<close>

section \<open>The table\<close>

record sample =
  s_ID :: int
  s_RobotID :: string
  s_Stream :: string
  s_CapturedAt :: int
  s_Payload :: bytes
  s_Schema :: string

text \<open>
  The rows of table \<^verbatim>\<open>samples\<close> and the largest row id ever given out, which SQLite keeps for a
  column declared \<^verbatim>\<open>INTEGER PRIMARY KEY AUTOINCREMENT\<close>.
\<close>

record db =
  db_rows :: "sample list"
  db_seq :: int

record buffer =
  b_db :: db
  maxSamples :: int

definition max_rowid :: int where
  "max_rowid = 9223372036854775807"

definition disk_full :: go_error where
  "disk_full = GoError ''database or disk is full''"

text \<open>The statements, in the order of the source file.\<close>

definition sql_create :: "db option \<Rightarrow> db" where
  "sql_create existing = (case existing of None \<Rightarrow> \<lparr>db_rows = [], db_seq = 0\<rparr> | Some d \<Rightarrow> d)"

definition sql_insert :: "sample \<Rightarrow> db \<Rightarrow> go_error + db" where
  "sql_insert s d =
     (if max_rowid \<le> db_seq d then Inl disk_full
      else Inr (d\<lparr>db_rows := db_rows d @ [s\<lparr>s_ID := db_seq d + 1\<rparr>], db_seq := db_seq d + 1\<rparr>))"

definition order_by_id :: "db \<Rightarrow> sample list" where
  "order_by_id d = sort_key s_ID (db_rows d)"

definition sql_evict :: "int \<Rightarrow> db \<Rightarrow> db" where
  "sql_evict cap d =
     (let excess = max 0 (int (length (db_rows d)) - cap);
          victims = map s_ID (take (nat excess) (order_by_id d))
      in d\<lparr>db_rows := filter (\<lambda>s. s_ID s \<notin> set victims) (db_rows d)\<rparr>)"

text \<open>A negative \<^verbatim>\<open>LIMIT\<close> is no limit.\<close>

definition sql_select :: "int \<Rightarrow> db \<Rightarrow> sample list" where
  "sql_select n d = (if n < 0 then order_by_id d else take (nat n) (order_by_id d))"

definition sql_delete :: "int \<Rightarrow> db \<Rightarrow> db" where
  "sql_delete i d = d\<lparr>db_rows := filter (\<lambda>s. s_ID s \<noteq> i) (db_rows d)\<rparr>"

definition sql_count :: "db \<Rightarrow> int" where
  "sql_count d = int (length (db_rows d))"

section \<open>Operations\<close>

text \<open>
  Failures of one transaction: of \<^verbatim>\<open>Begin\<close>, of \<^verbatim>\<open>Prepare\<close>, of its n-th statement, of
  \<^verbatim>\<open>Commit\<close>.  The deferred \<^verbatim>\<open>Rollback\<close> makes every failing path leave the table as it was.
\<close>

record tx_env =
  tx_begin :: "go_error option"
  tx_prepare :: "go_error option"
  tx_exec :: "nat \<Rightarrow> go_error option"
  tx_commit :: "go_error option"

definition tx_fine :: tx_env where
  "tx_fine = \<lparr>tx_begin = None, tx_prepare = None, tx_exec = (\<lambda>_. None), tx_commit = None\<rparr>"

definition Append :: "tx_env \<Rightarrow> sample \<Rightarrow> buffer \<Rightarrow> go_error option \<times> buffer" where
  "Append e s b =
     (case tx_begin e of Some err \<Rightarrow> (Some err, b) | None \<Rightarrow>
      (case tx_exec e 0 of Some err \<Rightarrow> (Some err, b) | None \<Rightarrow>
       (case sql_insert s (b_db b) of Inl err \<Rightarrow> (Some err, b) | Inr d \<Rightarrow>
        (case tx_exec e 1 of Some err \<Rightarrow> (Some err, b) | None \<Rightarrow>
         (let d' = sql_evict (maxSamples b) d in
          (case tx_commit e of Some err \<Rightarrow> (Some err, b) | None \<Rightarrow> (None, b\<lparr>b_db := d'\<rparr>)))))))"

text \<open>\<^verbatim>\<open>make([]Sample, 0, n)\<close> panics for a negative \<open>n\<close>.\<close>

definition Peek :: "query_env \<Rightarrow> int \<Rightarrow> buffer \<Rightarrow> sample list go" where
  "Peek e n b =
     (case q_query e of Some err \<Rightarrow> Err err | None \<Rightarrow>
      (if n < 0 then Panic ''makeslice: cap out of range''
       else (case scanRows (q_scan e) 0 (sql_select n (b_db b)) of Inl err \<Rightarrow> Err err | Inr out \<Rightarrow>
             (case q_rows e of Some err \<Rightarrow> Err err | None \<Rightarrow> Ok out))))"

fun ackLoop :: "(nat \<Rightarrow> go_error option) \<Rightarrow> nat \<Rightarrow> int list \<Rightarrow> db \<Rightarrow> go_error + db" where
  "ackLoop fault k [] d = Inr d"
| "ackLoop fault k (i # ids) d =
     (case fault k of Some err \<Rightarrow> Inl err | None \<Rightarrow> ackLoop fault (Suc k) ids (sql_delete i d))"

definition Ack :: "tx_env \<Rightarrow> int list \<Rightarrow> buffer \<Rightarrow> go_error option \<times> buffer" where
  "Ack e ids b =
     (if ids = [] then (None, b) else
      (case tx_begin e of Some err \<Rightarrow> (Some err, b) | None \<Rightarrow>
       (case tx_prepare e of Some err \<Rightarrow> (Some err, b) | None \<Rightarrow>
        (case ackLoop (tx_exec e) 0 ids (b_db b) of Inl err \<Rightarrow> (Some err, b) | Inr d \<Rightarrow>
         (case tx_commit e of Some err \<Rightarrow> (Some err, b) | None \<Rightarrow> (None, b\<lparr>b_db := d\<rparr>))))))"

text \<open>The count is 0 when the query fails, the zero value of \<^verbatim>\<open>n\<close>.\<close>

definition Count :: "go_error option \<Rightarrow> buffer \<Rightarrow> int \<times> go_error option" where
  "Count fault b = (case fault of Some err \<Rightarrow> (0, Some err) | None \<Rightarrow> (sql_count (b_db b), None))"

text \<open>
  \<^verbatim>\<open>Open\<close>.  The directory part of the path and the outcome of \<^verbatim>\<open>os.MkdirAll\<close> are arguments;
  \<open>existing\<close> is the table a database file already holds.  No caller of \<^verbatim>\<open>mkdirAll\<close> can get
  the sentinel \<^verbatim>\<open>errExists\<close>, since \<^verbatim>\<open>mkdirAll\<close> returns what \<^verbatim>\<open>os.MkdirAll\<close> returned.
\<close>

definition mkdirAll :: "(string \<Rightarrow> go_error option) \<Rightarrow> string \<Rightarrow> go_error option" where
  "mkdirAll os_mkdir p = (case os_mkdir p of Some err \<Rightarrow> Some err | None \<Rightarrow> None)"

definition ensureDir :: "(string \<Rightarrow> go_error option) \<Rightarrow> string \<Rightarrow> go_error option" where
  "ensureDir os_mkdir dir = (if dir = '''' \<or> dir = ''.'' then None else mkdirAll os_mkdir dir)"

definition Open ::
  "(string \<Rightarrow> go_error option) \<Rightarrow> string \<Rightarrow> go_error option \<Rightarrow> go_error option \<Rightarrow> db option \<Rightarrow>
     go_error + buffer" where
  "Open os_mkdir dir open_err schema_err existing =
     (case ensureDir os_mkdir dir of Some err \<Rightarrow> Inl err | None \<Rightarrow>
      (case open_err of Some err \<Rightarrow> Inl (errorf ''open sqlite'' err) | None \<Rightarrow>
       (case schema_err of Some err \<Rightarrow> Inl (errorf ''init schema'' err) | None \<Rightarrow>
        Inr \<lparr>b_db = sql_create existing, maxSamples = 100000\<rparr>)))"

section \<open>Invariant\<close>

text \<open>
  The row ids ascend in insertion order and never pass the largest id given out, so an id is
  never used for two samples.
\<close>

definition db_inv :: "db \<Rightarrow> bool" where
  "db_inv d \<longleftrightarrow>
     sorted_wrt (<) (map s_ID (db_rows d)) \<and>
     (\<forall>s \<in> set (db_rows d). 0 < s_ID s \<and> s_ID s \<le> db_seq d) \<and> 0 \<le> db_seq d"

definition buf_inv :: "buffer \<Rightarrow> bool" where
  "buf_inv b \<longleftrightarrow> db_inv (b_db b)"

lemma db_inv_distinct: "db_inv d \<Longrightarrow> distinct (map s_ID (db_rows d))"
  by (simp add: db_inv_def strict_sorted_iff)

lemma order_by_id_inv [simp]: "db_inv d \<Longrightarrow> order_by_id d = db_rows d"
  by (simp add: order_by_id_def db_inv_def sorted_strict_sort_key)

lemma sorted_wrt_map_filter:
  "sorted_wrt (<) (map f xs) \<Longrightarrow> sorted_wrt (<) (map f (filter P xs))"
  by (induction xs) auto

lemma db_inv_filter: "db_inv d \<Longrightarrow> db_inv (d\<lparr>db_rows := filter P (db_rows d)\<rparr>)"
  by (simp add: db_inv_def sorted_wrt_map_filter)

lemma sql_create_inv: "(\<And>d. existing = Some d \<Longrightarrow> db_inv d) \<Longrightarrow> db_inv (sql_create existing)"
  by (cases existing) (auto simp: sql_create_def db_inv_def)

lemma sql_insert_inv: "db_inv d \<Longrightarrow> sql_insert s d = Inr d' \<Longrightarrow> db_inv d'"
  by (fastforce simp: sql_insert_def db_inv_def sorted_wrt_append split: if_splits)

lemma sql_evict_inv: "db_inv d \<Longrightarrow> db_inv (sql_evict cap d)"
  by (simp add: sql_evict_def Let_def db_inv_filter)

lemma sql_delete_inv: "db_inv d \<Longrightarrow> db_inv (sql_delete i d)"
  by (simp add: sql_delete_def db_inv_filter)

lemma sql_evict_rows:
  assumes "db_inv d"
  shows "db_rows (sql_evict cap d) = drop (length (db_rows d) - nat cap) (db_rows d)"
proof -
  let ?n = "nat (max 0 (int (length (db_rows d)) - cap))"
  have rows: "db_rows (sql_evict cap d) = drop ?n (db_rows d)"
    using filter_notin_take [OF db_inv_distinct [OF assms], of ?n] assms
    by (simp add: sql_evict_def Let_def)
  show ?thesis
  proof (cases "0 \<le> cap")
    case True
    then have "?n = length (db_rows d) - nat cap" by linarith
    with rows show ?thesis by simp
  next
    case False
    then have "length (db_rows d) \<le> ?n" by linarith
    with rows False show ?thesis by simp
  qed
qed

lemma sql_evict_seq [simp]: "db_seq (sql_evict cap d) = db_seq d"
  by (simp add: sql_evict_def Let_def)

lemma ackLoop_rows:
  "ackLoop fault k ids d = Inr d' \<Longrightarrow>
     d' = d\<lparr>db_rows := filter (\<lambda>s. s_ID s \<notin> set ids) (db_rows d)\<rparr>"
proof (induction fault k ids d rule: ackLoop.induct)
  case (1 fault k d)
  then show ?case by simp
next
  case (2 fault k i ids d)
  then show ?case
    by (auto simp: sql_delete_def split: option.splits intro!: filter_cong)
qed

lemma ackLoop_fine: "(\<And>n. fault n = None) \<Longrightarrow> \<exists>d'. ackLoop fault k ids d = Inr d'"
  by (induction fault k ids d rule: ackLoop.induct) simp_all

section \<open>What each operation does\<close>

text \<open>A failing \<^verbatim>\<open>Append\<close> or \<^verbatim>\<open>Ack\<close> leaves the buffer as it was.\<close>

lemma Append_error: "Append e s b = (Some err, b') \<Longrightarrow> b' = b"
  by (auto simp: Append_def Let_def split: option.splits sum.splits)

lemma Ack_error: "Ack e ids b = (Some err, b') \<Longrightarrow> b' = b"
  by (auto simp: Ack_def split: option.splits sum.splits if_splits)

lemma Append_ok:
  assumes "buf_inv b" and "Append e s b = (None, b')"
  shows "buf_inv b' \<and> maxSamples b' = maxSamples b \<and> db_seq (b_db b') = db_seq (b_db b) + 1 \<and>
    db_rows (b_db b') = (let rs = db_rows (b_db b) @ [s\<lparr>s_ID := db_seq (b_db b) + 1\<rparr>]
       in drop (length rs - nat (maxSamples b)) rs)"
proof -
  from assms(2) obtain d where ins: "sql_insert s (b_db b) = Inr d"
    and b': "b' = b\<lparr>b_db := sql_evict (maxSamples b) d\<rparr>"
    by (auto simp: Append_def Let_def split: option.splits sum.splits)
  have inv: "db_inv d" using assms(1) ins by (auto simp: buf_inv_def intro: sql_insert_inv)
  have d: "db_rows d = db_rows (b_db b) @ [s\<lparr>s_ID := db_seq (b_db b) + 1\<rparr>]"
    "db_seq d = db_seq (b_db b) + 1"
    using ins by (auto simp: sql_insert_def split: if_splits)
  show ?thesis
    using inv b' d by (simp add: buf_inv_def sql_evict_inv sql_evict_rows Let_def)
qed

lemma Append_fine:
  assumes "tx_begin e = None" and "tx_exec e 0 = None" and "tx_exec e 1 = None"
    and "tx_commit e = None" and "db_seq (b_db b) < max_rowid"
  shows "\<exists>b'. Append e s b = (None, b')"
  using assms by (simp add: Append_def sql_insert_def Let_def)

lemma Ack_ok:
  assumes "Ack e ids b = (None, b')"
  shows "b' = b\<lparr>b_db := (b_db b)\<lparr>db_rows := filter (\<lambda>s. s_ID s \<notin> set ids) (db_rows (b_db b))\<rparr>\<rparr>"
  using assms
  by (auto simp: Ack_def split: option.splits sum.splits if_splits dest!: ackLoop_rows)

lemma Ack_ok_inv: "buf_inv b \<Longrightarrow> Ack e ids b = (None, b') \<Longrightarrow> buf_inv b'"
  by (auto dest!: Ack_ok simp: buf_inv_def db_inv_filter)

lemma Ack_fine: "\<exists>b'. Ack tx_fine ids b = (None, b')"
  using ackLoop_fine [of "tx_exec tx_fine" 0 ids "b_db b"]
  by (auto simp: Ack_def tx_fine_def)

lemma Peek_Ok:
  assumes "buf_inv b" and "Peek e n b = Ok ss"
  shows "ss = take (nat n) (db_rows (b_db b))"
  using assms
  by (auto simp: Peek_def buf_inv_def sql_select_def
      split: option.splits sum.splits if_splits dest!: scanRows_Inr)

lemma Peek_fine:
  "buf_inv b \<Longrightarrow> 0 \<le> n \<Longrightarrow> Peek query_fine n b = Ok (take (nat n) (db_rows (b_db b)))"
  by (simp add: Peek_def buf_inv_def query_fine_def sql_select_def scanRows_fine)

lemmas append_defs = Append_def sql_insert_def sql_evict_def Let_def
lemmas ack_defs = Ack_def sql_delete_def

section \<open>The abstract queue\<close>

text \<open>
  Forgetting the row ids, the buffer is a list of samples, oldest first.  \<open>fifo_push\<close> is the
  whole specification of \<^verbatim>\<open>Append\<close>: add at the end, drop from the front to fit the capacity.
\<close>

definition unkeyed :: "sample \<Rightarrow> sample" where
  "unkeyed s = s\<lparr>s_ID := 0\<rparr>"

definition contents :: "buffer \<Rightarrow> sample list" where
  "contents b = map unkeyed (db_rows (b_db b))"

definition fifo_push :: "int \<Rightarrow> sample \<Rightarrow> sample list \<Rightarrow> sample list" where
  "fifo_push cap s q = drop (Suc (length q) - nat cap) (q @ [unkeyed s])"

lemma Append_contents:
  "buf_inv b \<Longrightarrow> Append e s b = (None, b') \<Longrightarrow>
     contents b' = fifo_push (maxSamples b) s (contents b)"
  by (drule (1) Append_ok)
    (simp add: contents_def fifo_push_def Let_def unkeyed_def drop_map [symmetric])

lemma fifo_push_length: "length (fifo_push cap s q) \<le> nat cap"
  by (simp add: fifo_push_def)

lemma fifo_push_room: "int (length q) < cap \<Longrightarrow> fifo_push cap s q = q @ [unkeyed s]"
  by (simp add: fifo_push_def)

lemma fifo_push_full:
  "q = x # q' \<Longrightarrow> int (length q) = cap \<Longrightarrow> fifo_push cap s q = q' @ [unkeyed s]"
proof -
  assume q: "q = x # q'" and "int (length q) = cap"
  then have "nat cap = Suc (length q')" by simp
  with q show ?thesis by (simp add: fifo_push_def)
qed

lemma drop_keep_append:
  assumes "k = length xs - n"
  shows "drop (length (drop k xs) + length ys - n) (drop k xs @ ys) =
    drop (length xs + length ys - n) (xs @ ys)"
proof (cases "length xs \<le> n")
  case True
  with assms show ?thesis by simp
next
  case False
  with assms have "length xs + length ys - n = length ys + k"
    and "length (drop k xs) + length ys - n = length ys" by auto
  moreover have "drop (length ys + k) (xs @ ys) = drop (length ys) (drop k xs @ ys)"
  proof -
    have "drop k xs @ ys = drop k (xs @ ys)" using assms by simp
    then show ?thesis by (simp only: drop_drop)
  qed
  ultimately show ?thesis by (simp only:)
qed

text \<open>A run of successful appends keeps the newest samples, in order.\<close>

fun appendAll :: "sample list \<Rightarrow> buffer \<Rightarrow> buffer" where
  "appendAll [] b = b"
| "appendAll (s # ss) b = appendAll ss (snd (Append tx_fine s b))"

lemma fold_fifo_push:
  "length q \<le> nat cap \<Longrightarrow>
     fold (fifo_push cap) ss q = drop (length q + length ss - nat cap) (q @ map unkeyed ss)"
proof (induction ss arbitrary: q)
  case Nil
  then show ?case by simp
next
  case (Cons s ss)
  have "fold (fifo_push cap) (s # ss) q =
      drop (length (fifo_push cap s q) + length ss - nat cap) (fifo_push cap s q @ map unkeyed ss)"
    using Cons.IH [OF fifo_push_length] by simp
  also have "\<dots> = drop (length q + length (s # ss) - nat cap) (q @ map unkeyed (s # ss))"
    using drop_keep_append [of "Suc (length q) - nat cap" "q @ [unkeyed s]" "nat cap" "map unkeyed ss"]
    by (simp add: fifo_push_def)
  finally show ?case .
qed

lemma appendAll_contents:
  "buf_inv b \<Longrightarrow> db_seq (b_db b) + int (length ss) \<le> max_rowid \<Longrightarrow>
     buf_inv (appendAll ss b) \<and> contents (appendAll ss b) = fold (fifo_push (maxSamples b)) ss (contents b)"
proof (induction ss arbitrary: b)
  case Nil
  then show ?case by simp
next
  case (Cons s ss)
  obtain b' where b': "Append tx_fine s b = (None, b')"
    using Append_fine [of tx_fine b s] Cons.prems by (auto simp: tx_fine_def)
  then show ?case
    using Append_ok [OF Cons.prems(1) b'] Append_contents [OF Cons.prems(1) b']
      Cons.IH [of b'] Cons.prems(2) by simp
qed

section \<open>The buffer as a sample store\<close>

lemma Append_store_cases:
  assumes "buf_inv b"
  shows "snd (Append e s b) = b \<or>
    (\<exists>s' n. s_ID s' = db_seq (b_db b) + 1 \<and>
      db_rows (b_db (snd (Append e s b))) = drop n (db_rows (b_db b) @ [s']) \<and>
      db_seq (b_db (snd (Append e s b))) = db_seq (b_db b) + 1)"
proof (cases "Append e s b")
  case (Pair err b')
  show ?thesis
  proof (cases err)
    case None
    have "s_ID (s\<lparr>s_ID := db_seq (b_db b) + 1\<rparr>) = db_seq (b_db b) + 1" by simp
    with None Pair Append_ok [OF assms, of e s b'] show ?thesis
      unfolding Let_def by (metis snd_conv)
  next
    case (Some er)
    with Pair show ?thesis by (auto dest: Append_error)
  qed
qed

lemma Append_inv: "buf_inv b \<Longrightarrow> buf_inv (snd (Append e s b))"
  by (cases "Append e s b"; cases "fst (Append e s b)") (auto dest: Append_error Append_ok)

lemma Ack_store_cases:
  "snd (Ack e ids b) = b \<or>
    (db_rows (b_db (snd (Ack e ids b))) = filter (\<lambda>x. s_ID x \<notin> set ids) (db_rows (b_db b)) \<and>
     db_seq (b_db (snd (Ack e ids b))) = db_seq (b_db b))"
  by (cases "Ack e ids b"; cases "fst (Ack e ids b)") (auto dest: Ack_error Ack_ok)

lemma Ack_inv: "buf_inv b \<Longrightarrow> buf_inv (snd (Ack e ids b))"
  by (cases "Ack e ids b"; cases "fst (Ack e ids b)") (auto dest: Ack_error Ack_ok_inv)

interpretation bufstore: sample_store buf_inv "\<lambda>b. db_rows (b_db b)" s_ID "\<lambda>b. db_seq (b_db b)"
  "\<lambda>e s b. snd (Append e s b)" "\<lambda>e ids b. snd (Ack e ids b)"
proof unfold_locales
  fix b :: buffer and x e s and ids :: "int list"
  assume inv: "buf_inv b"
  show "sorted_wrt (<) (map s_ID (db_rows (b_db b)))"
    using inv by (simp add: buf_inv_def db_inv_def)
  show "x \<in> set (db_rows (b_db b)) \<Longrightarrow> s_ID x \<le> db_seq (b_db b)"
    using inv by (simp add: buf_inv_def db_inv_def)
  show "buf_inv (snd (Append e s b))" using inv by (rule Append_inv)
  show "buf_inv (snd (Ack e ids b))" using inv by (rule Ack_inv)
  show "snd (Append e s b) = b \<or>
    (\<exists>s' n. s_ID s' = db_seq (b_db b) + 1 \<and>
      db_rows (b_db (snd (Append e s b))) = drop n (db_rows (b_db b) @ [s']) \<and>
      db_seq (b_db (snd (Append e s b))) = db_seq (b_db b) + 1)"
    using inv by (rule Append_store_cases)
qed (rule Ack_store_cases)

section \<open>Properties\<close>

text \<open>
  C16: an append adds the sample at the end of the queue and drops the oldest ones above the
  capacity, or fails and changes nothing.
\<close>

theorem Append_refines_push:
  assumes "buf_inv b"
  shows "case Append e s b of
      (None, b') \<Rightarrow> buf_inv b' \<and> contents b' = fifo_push (maxSamples b) s (contents b) \<and>
        length (contents b') \<le> nat (maxSamples b)
    | (Some err, b') \<Rightarrow> b' = b"
proof (cases "Append e s b")
  case (Pair r b')
  show ?thesis
  proof (cases r)
    case None
    with Pair Append_ok [OF assms, of e s b'] Append_contents [OF assms, of e s b']
    show ?thesis by (simp add: fifo_push_length)
  next
    case (Some err)
    with Pair Append_error [of e s b err b'] show ?thesis by simp
  qed
qed

text \<open>A buffer of capacity 2 with two rows, the third sample on its way in.\<close>

definition demoSample :: "int \<Rightarrow> string \<Rightarrow> sample" where
  "demoSample i p = \<lparr>s_ID = i, s_RobotID = ''r1'', s_Stream = ''odom'', s_CapturedAt = 7,
     s_Payload = p, s_Schema = ''json''\<rparr>"

definition demoBuffer :: buffer where
  "demoBuffer = \<lparr>b_db = \<lparr>db_rows = [demoSample 1 ''a'', demoSample 2 ''b''], db_seq = 2\<rparr>, maxSamples = 2\<rparr>"

lemma demoBuffer_inv: "buf_inv demoBuffer"
  by (simp add: buf_inv_def db_inv_def demoBuffer_def demoSample_def)

theorem Append_refines_push_witness:
  "case Append tx_fine (demoSample 0 ''c'') demoBuffer of
      (None, b') \<Rightarrow> buf_inv b' \<and> contents b' = [demoSample 0 ''b'', demoSample 0 ''c'']
    | (Some err, b') \<Rightarrow> False"
proof -
  have 1: "fst (Append tx_fine (demoSample 0 ''c'') demoBuffer) = None" by code_simp
  have 2: "fifo_push (maxSamples demoBuffer) (demoSample 0 ''c'') (contents demoBuffer) =
      [demoSample 0 ''b'', demoSample 0 ''c'']" by code_simp
  from Append_refines_push [OF demoBuffer_inv, where e = tx_fine and s = "demoSample 0 ''c''"] 1 show ?thesis
    unfolding 2 by (auto split: prod.splits option.splits)
qed

text \<open>
  However long the agent is offline, the buffer holds exactly the newest samples, as many as
  its capacity, in the order they arrived.
\<close>

theorem appends_keep_newest:
  assumes "buf_inv b" and "length (contents b) \<le> nat (maxSamples b)"
    and "db_seq (b_db b) + int (length ss) \<le> max_rowid"
  shows "contents (appendAll ss b) =
    drop (length (contents b) + length ss - nat (maxSamples b)) (contents b @ map unkeyed ss)"
  using appendAll_contents [OF assms(1,3)] fold_fifo_push [OF assms(2)] by simp

theorem appends_keep_newest_witness:
  "contents (appendAll [demoSample 0 ''c'', demoSample 0 ''d'', demoSample 0 ''e''] demoBuffer) =
     [demoSample 0 ''d'', demoSample 0 ''e'']"
proof -
  have 1: "length (contents demoBuffer) \<le> nat (maxSamples demoBuffer)" by code_simp
  have 2: "db_seq (b_db demoBuffer) + int (length [demoSample 0 ''c'', demoSample 0 ''d'', demoSample 0 ''e'']) \<le> max_rowid"
    by code_simp
  show ?thesis unfolding appends_keep_newest [OF demoBuffer_inv 1 2] by code_simp
qed

text \<open>
  Acknowledging a peeked batch after any number of appends by the ingest loop removes only
  samples that were peeked: nothing that arrived in between is lost.
\<close>

theorem ack_removes_only_peeked:
  assumes "buf_inv b" and "Peek q n b = Ok ss"
    and "x \<in> set (db_rows (b_db (fold (\<lambda>(e, s) c. snd (Append e s c)) es b)))"
    and "x \<notin> set (db_rows (b_db (snd (Ack f (map s_ID ss) (fold (\<lambda>(e, s) c. snd (Append e s c)) es b)))))"
  shows "x \<in> set ss"
proof -
  have ss: "ss = take (nat n) (db_rows (b_db b))" using assms(1,2) by (rule Peek_Ok)
  then have sub: "set (map s_ID ss) \<subseteq> s_ID ` set (db_rows (b_db b))" by (auto dest: in_set_takeD)
  from bufstore.remove_after_adds [OF assms(1) sub, of x es f] assms(3,4)
  obtain y where y: "y \<in> set ss" "s_ID x = s_ID y" and x: "x \<in> set (db_rows (b_db b))" by auto
  have "inj_on s_ID (set (db_rows (b_db b)))"
    using assms(1) db_inv_distinct by (simp add: buf_inv_def distinct_map)
  moreover have "y \<in> set (db_rows (b_db b))" using y(1) ss by (auto dest: in_set_takeD)
  ultimately show ?thesis using x y inj_onD by fastforce
qed

text \<open>Both rows are peeked; the third append evicts the first one; the ack then removes the second.\<close>

theorem ack_removes_only_peeked_witness:
  "demoSample 2 ''b'' \<in> set [demoSample 1 ''a'', demoSample 2 ''b'']"
proof -
  let ?b = "fold (\<lambda>(e, s) c. snd (Append e s c)) [(tx_fine, demoSample 0 ''c'')] demoBuffer"
  have 1: "Peek query_fine 64 demoBuffer = Ok [demoSample 1 ''a'', demoSample 2 ''b'']"
    using Peek_fine [OF demoBuffer_inv, of 64] by (simp add: demoBuffer_def)
  have 2: "demoSample 2 ''b'' \<in> set (db_rows (b_db ?b))" by code_simp
  have 3: "demoSample 2 ''b'' \<notin> set (db_rows (b_db (snd (Ack tx_fine
      (map s_ID [demoSample 1 ''a'', demoSample 2 ''b'']) ?b))))" by code_simp
  from ack_removes_only_peeked [OF demoBuffer_inv 1 2 3] show ?thesis .
qed

end
