(* ===== verification/BridgeClient.thy ===== *)
theory BridgeClient
  imports Prelude Interfaces
begin

text \<open>
  The agent's client of the on-robot ROS bridge, \<^verbatim>\<open>agent/internal/bridge/client.go\<close>, with the
  messages it reads (\<^verbatim>\<open>agent/internal/bridge/pb\<close>): one session copies stream messages to a
  channel of bounded capacity without ever blocking on it, and an outer loop reconnects with capped
  exponential backoff.  The gRPC stream, the context and the protobuf timestamp conversion are
  libraries and enter as arguments.
\<close>

section \<open>Messages\<close>

record topicEvent =
  te_Stream :: string
  te_CapturedAt :: "(int \<times> int) option"
  te_Payload :: bytes
  te_PayloadSchema :: string
  te_Labels :: "(string \<times> string) list"

text \<open>The generated getters accept a nil message.\<close>

definition GetStream :: "topicEvent option \<Rightarrow> string" where
  "GetStream x = (case x of Some m \<Rightarrow> te_Stream m | None \<Rightarrow> '''')"

definition GetCapturedAt :: "topicEvent option \<Rightarrow> (int \<times> int) option" where
  "GetCapturedAt x = (case x of Some m \<Rightarrow> te_CapturedAt m | None \<Rightarrow> None)"

definition GetPayload :: "topicEvent option \<Rightarrow> bytes" where
  "GetPayload x = (case x of Some m \<Rightarrow> te_Payload m | None \<Rightarrow> [])"

definition GetPayloadSchema :: "topicEvent option \<Rightarrow> string" where
  "GetPayloadSchema x = (case x of Some m \<Rightarrow> te_PayloadSchema m | None \<Rightarrow> '''')"

text \<open>The agent-facing event; a \<^verbatim>\<open>time.Time\<close> is its nanoseconds since the Unix epoch.\<close>

record event =
  ev_Stream :: string
  ev_CapturedAt :: time
  ev_Payload :: bytes
  ev_Schema :: string

definition toEvent :: "((int \<times> int) option \<Rightarrow> time) \<Rightarrow> topicEvent option \<Rightarrow> event" where
  "toEvent asTime m = \<lparr>ev_Stream = GetStream m, ev_CapturedAt = asTime (GetCapturedAt m),
     ev_Payload = GetPayload m, ev_Schema = GetPayloadSchema m\<rparr>"

section \<open>One session\<close>

text \<open>
  What happens to a session, in order: a message arrives (with whether the context is done at that
  moment, and which ready case the \<^verbatim>\<open>select\<close> takes when both are), the stream fails (with
  whether the error is \<^verbatim>\<open>context.Canceled\<close> or \<^verbatim>\<open>context.DeadlineExceeded\<close>), or the
  consumer takes an event off the channel.
\<close>

datatype stream_step =
    Received topicEvent (ctx_done: bool) (pick_send: bool)
  | RecvFailed go_error (cancellation: bool)
  | Consumed

record chan_state =
  ch_queue :: "event list"
  ch_taken :: "event list"
  ch_dropped :: "event list"

definition chanCapacity :: nat where
  "chanCapacity = 256"

definition emptyChan :: chan_state where
  "emptyChan = \<lparr>ch_queue = [], ch_taken = [], ch_dropped = []\<rparr>"

datatype session_result = Streaming | Returned "go_error option"

fun recvLoop ::
  "((int \<times> int) option \<Rightarrow> time) \<Rightarrow> stream_step list \<Rightarrow> chan_state \<Rightarrow> session_result \<times> chan_state" where
  "recvLoop asTime [] c = (Streaming, c)"
| "recvLoop asTime (Consumed # es) c =
     (case ch_queue c of
        [] \<Rightarrow> recvLoop asTime es c
      | x # xs \<Rightarrow> recvLoop asTime es (c\<lparr>ch_queue := xs, ch_taken := ch_taken c @ [x]\<rparr>))"
| "recvLoop asTime (RecvFailed err cancel # es) c =
     (Returned (if cancel then None else Some err), c)"
| "recvLoop asTime (Received m over send # es) c =
     (let ev = toEvent asTime (Some m); room = length (ch_queue c) < chanCapacity in
      if room \<and> (send \<or> \<not> over) then recvLoop asTime es (c\<lparr>ch_queue := ch_queue c @ [ev]\<rparr>)
      else if over then (Returned None, c)
      else recvLoop asTime es (c\<lparr>ch_dropped := ch_dropped c @ [ev]\<rparr>))"

text \<open>
  \<^verbatim>\<open>dial\<close> supports \<^verbatim>\<open>unix://\<close> and TCP addresses: the target handed to gRPC and the socket
  path its dialer opens.  Its outcome and that of the \<^verbatim>\<open>Subscribe\<close> call are arguments.
\<close>

definition dialTarget :: "string \<Rightarrow> string \<times> string option" where
  "dialTarget addr =
     (if hasPrefix addr ''unix://''
      then (''passthrough:///'' @ trimPrefix addr ''unix://'', Some (trimPrefix addr ''unix://''))
      else (addr, None))"

definition runOnce ::
  "((int \<times> int) option \<Rightarrow> time) \<Rightarrow> string \<Rightarrow> go_error option \<Rightarrow> go_error option \<Rightarrow>
     stream_step list \<Rightarrow> chan_state \<Rightarrow> session_result \<times> chan_state" where
  "runOnce asTime addr dial_err subscribe_err es c =
     (case dial_err of Some err \<Rightarrow> (Returned (Some (errorf (''dial '' @ addr) err)), c) | None \<Rightarrow>
      (case subscribe_err of Some err \<Rightarrow> (Returned (Some (errorf ''Subscribe RPC'' err)), c) | None \<Rightarrow>
       recvLoop asTime es c))"

section \<open>Reconnecting\<close>

definition minDuration :: "duration \<Rightarrow> duration \<Rightarrow> duration" where
  "minDuration a b = (if a < b then a else b)"

record client =
  c_addr :: string
  BackoffInitial :: duration
  BackoffMax :: duration

definition New :: "string \<Rightarrow> client" where
  "New addr = \<lparr>c_addr = addr, BackoffInitial = 500 * millisecond, BackoffMax = 10 * second\<rparr>"

definition growBackoff :: "client \<Rightarrow> duration \<Rightarrow> duration" where
  "growBackoff c backoff = minDuration (i64 (backoff * 2)) (BackoffMax c)"

text \<open>
  One round of the outer loop: whether the context is done before the session, what the session
  returned, whether the context is done after it, and whether it is done before the delay ends.
  The result is the delays waited so far and the backoff the loop holds, or that it returned.
\<close>

record round =
  r_doneBefore :: bool
  r_result :: "go_error option"
  r_doneAfter :: bool
  r_doneWaiting :: bool

datatype loop_state = Looping duration | Stopped

fun run :: "client \<Rightarrow> duration \<Rightarrow> round list \<Rightarrow> duration list \<times> loop_state" where
  "run c backoff [] = ([], Looping backoff)"
| "run c backoff (r # rs) =
     (if r_doneBefore r then ([], Stopped)
      else if r_result r \<noteq> None \<and> \<not> r_doneAfter r then
        (if r_doneWaiting r then ([], Stopped)
         else (case run c (growBackoff c backoff) rs of (ds, st) \<Rightarrow> (backoff # ds, st)))
      else run c (BackoffInitial c) rs)"

section \<open>Properties\<close>

interpretation reconnect: backoff_policy "growBackoff (New addr)" "BackoffInitial (New addr)"
  "BackoffMax (New addr)"
  by unfold_locales (auto simp: New_def growBackoff_def minDuration_def in_i64_def)

text \<open>Nothing is reordered, duplicated or lost except on a full channel.\<close>

definition sentEvents :: "((int \<times> int) option \<Rightarrow> time) \<Rightarrow> stream_step list \<Rightarrow> event list" where
  "sentEvents asTime es =
     concat (map (\<lambda>e. case e of Received m _ _ \<Rightarrow> [toEvent asTime (Some m)] | _ \<Rightarrow> []) es)"

lemma recvLoop_bound:
  "length (ch_queue c) \<le> chanCapacity \<Longrightarrow> recvLoop asTime es c = (r, c') \<Longrightarrow>
     length (ch_queue c') \<le> chanCapacity"
  by (induction asTime es c arbitrary: r c' rule: recvLoop.induct)
    (auto simp: Let_def split: if_splits list.splits)

lemma recvLoop_partition:
  "recvLoop asTime es c = (Streaming, c') \<Longrightarrow>
     \<exists>kept lost. ch_taken c' @ ch_queue c' = ch_taken c @ ch_queue c @ kept \<and>
       ch_dropped c' = ch_dropped c @ lost \<and> sentEvents asTime es \<in> shuffles kept lost"
proof (induction asTime es c arbitrary: c' rule: recvLoop.induct)
  case (1 asTime c)
  then show ?case by (auto simp: sentEvents_def)
next
  case (2 asTime es c)
  show ?case
  proof (cases "ch_queue c")
    case Nil
    with "2.prems" "2.IH"(1) [OF Nil] show ?thesis by (simp add: sentEvents_def)
  next
    case (Cons x xs)
    with "2.prems" "2.IH"(2) [OF Cons] show ?thesis by (simp add: sentEvents_def)
  qed
next
  case (3 asTime err cancel es c)
  then show ?case by simp
next
  case (4 asTime m over send es c)
  let ?ev = "toEvent asTime (Some m)"
  let ?room = "length (ch_queue c) < chanCapacity"
  have sent: "sentEvents asTime (Received m over send # es) = ?ev # sentEvents asTime es"
    by (simp add: sentEvents_def)
  show ?case
  proof (cases "?room \<and> (send \<or> \<not> over)")
    case True
    with "4.prems" "4.IH"(1) [of ?ev ?room] obtain kept lost where
      "ch_taken c' @ ch_queue c' = ch_taken c @ ch_queue c @ (?ev # kept)"
      "ch_dropped c' = ch_dropped c @ lost" "sentEvents asTime es \<in> shuffles kept lost"
      by auto
    with sent show ?thesis by (metis Cons_in_shuffles_leftI)
  next
    case False
    with "4.prems" have nd: "\<not> over" by (auto simp: Let_def split: if_splits)
    with False "4.prems" "4.IH"(2) [of ?ev ?room] obtain kept lost where
      "ch_taken c' @ ch_queue c' = ch_taken c @ ch_queue c @ kept"
      "ch_dropped c' = ch_dropped c @ (?ev # lost)" "sentEvents asTime es \<in> shuffles kept lost"
      by auto
    with sent show ?thesis by (metis Cons_in_shuffles_rightI)
  qed
qed

text \<open>A burst that fits the free capacity loses nothing, whatever the consumer does.\<close>

lemma recvLoop_burst:
  "recvLoop asTime es c = (r, c') \<Longrightarrow>
     length (ch_queue c) + length (sentEvents asTime es) \<le> chanCapacity \<Longrightarrow>
     ch_dropped c' = ch_dropped c"
  by (induction asTime es c arbitrary: r c' rule: recvLoop.induct)
    (auto simp: Let_def sentEvents_def split: if_splits list.splits)

text \<open>A session ends without an error only when the context is done or the call was cancelled.\<close>

lemma recvLoop_nil:
  "recvLoop asTime es c = (Returned None, c') \<Longrightarrow>
     \<exists>e \<in> set es. (\<exists>m send. e = Received m True send) \<or> (\<exists>err. e = RecvFailed err True)"
  by (induction asTime es c arbitrary: c' rule: recvLoop.induct)
    (auto simp: Let_def split: if_splits list.splits)

lemma runOnce_nil:
  "runOnce asTime addr dial_err subscribe_err es c = (Returned None, c') \<Longrightarrow>
     \<exists>e \<in> set es. (\<exists>m send. e = Received m True send) \<or> (\<exists>err. e = RecvFailed err True)"
  by (auto simp: runOnce_def split: option.splits dest!: recvLoop_nil)

text \<open>
  Rounds that fail outright or after any number of delivered events are alike: the k-th of them
  waits the k-th power of the growth, so only a cancelled session resets the backoff.
\<close>

definition failing :: "round \<Rightarrow> bool" where
  "failing r \<longleftrightarrow> \<not> r_doneBefore r \<and> r_result r \<noteq> None \<and> \<not> r_doneAfter r \<and> \<not> r_doneWaiting r"

lemma run_failing:
  "\<forall>r \<in> set rs. failing r \<Longrightarrow>
     run c d rs = (map (\<lambda>k. (growBackoff c ^^ k) d) [0..<length rs],
       Looping ((growBackoff c ^^ length rs) d))"
proof (induction rs arbitrary: d)
  case Nil
  then show ?case by simp
next
  case (Cons r rs)
  have "map (\<lambda>k. (growBackoff c ^^ k) d) [0..<length (r # rs)] =
      d # map (\<lambda>k. (growBackoff c ^^ k) (growBackoff c d)) [0..<length rs]"
    by (simp add: upt_conv_Cons map_Suc_upt [symmetric] funpow_swap1 del: upt_Suc)
  with Cons show ?case by (simp add: failing_def funpow_swap1)
qed

section \<open>Claims\<close>

text \<open>
  C36: while a session lasts, what the consumer took and what waits in the channel are, in order,
  the events the bridge sent less those dropped, the channel never holds more than its capacity,
  and a burst that fits is not dropped.
\<close>

theorem session_delivers_in_order:
  assumes "recvLoop asTime es emptyChan = (Streaming, c)"
  shows "length (ch_queue c) \<le> chanCapacity \<and>
    sentEvents asTime es \<in> shuffles (ch_taken c @ ch_queue c) (ch_dropped c) \<and>
    (length (sentEvents asTime es) \<le> chanCapacity \<longrightarrow> ch_dropped c = [])"
  using recvLoop_bound [OF _ assms] recvLoop_partition [OF assms] recvLoop_burst [OF assms]
  by (auto simp: emptyChan_def)

definition demoEvent :: "string \<Rightarrow> topicEvent" where
  "demoEvent p = \<lparr>te_Stream = ''odom'', te_CapturedAt = Some (1, 5), te_Payload = p, te_PayloadSchema = ''json'', te_Labels = []\<rparr>"

definition demoTime :: "(int \<times> int) option \<Rightarrow> time" where
  "demoTime t = (case t of None \<Rightarrow> 0 | Some (sec, ns) \<Rightarrow> sec * second + ns)"

theorem session_delivers_in_order_witness:
  "ch_dropped (snd (recvLoop demoTime [Received (demoEvent ''a'') False True, Consumed,
     Received (demoEvent ''b'') False True] emptyChan)) = []"
proof -
  let ?es = "[Received (demoEvent ''a'') False True, Consumed, Received (demoEvent ''b'') False True]"
  have 1: "recvLoop demoTime ?es emptyChan = (Streaming, snd (recvLoop demoTime ?es emptyChan))"
    by code_simp
  have 2: "length (sentEvents demoTime ?es) \<le> chanCapacity" by code_simp
  from session_delivers_in_order [OF 1] 2 show ?thesis by blast
qed

text \<open>
  The k-th delay of a run of failing sessions is 500 ms doubled k times and capped at 10 s; a
  session that delivered events before it failed counts as failing too.
\<close>

theorem reconnect_delays:
  assumes "\<forall>r \<in> set rs. failing r"
  shows "fst (run (New addr) (BackoffInitial (New addr)) rs) =
    map (\<lambda>k. min (500 * millisecond * 2 ^ k) (10 * second)) [0..<length rs]"
  unfolding run_failing [OF assms] fst_conv reconnect.grow_power
  by (simp add: New_def)

definition demoRound :: round where
  "demoRound = \<lparr>r_doneBefore = False, r_result = Some (GoError ''EOF''), r_doneAfter = False,
     r_doneWaiting = False\<rparr>"

theorem reconnect_delays_witness:
  "fst (run (New ''unix:///run/bridge.sock'') (BackoffInitial (New ''unix:///run/bridge.sock''))
     (replicate 7 demoRound)) =
   map (\<lambda>n. n * millisecond) [500, 1000, 2000, 4000, 8000, 10000, 10000]"
proof -
  have "\<forall>r \<in> set (replicate 7 demoRound). failing r" by (simp add: failing_def demoRound_def)
  from reconnect_delays [OF this, of "''unix:///run/bridge.sock''"] show ?thesis
    by (simp add: upt_rec numeral_eq_Suc)
qed

end
