(* ===== verification/Pump.thy ===== *)
theory Pump
  imports Buffer BridgeClient Mqttx Topics
begin

text \<open>
  The agent's data plane, \<^verbatim>\<open>agent/internal/telemetry/pump.go\<close>: the ingest loop appends bridge
  events to the buffer, the publish loop drains it to MQTT, the heartbeat loop reports its size.
  One round of the publish loop is a function; because the ingest loop runs beside it, the rounds
  are also split into atomic steps, interleaved with appends, in the relation \<open>pump_step\<close>.
\<close>

section \<open>Ingest\<close>

text \<open>The wall clock is an argument.  A capture time that is not positive is replaced by it.\<close>

definition ingestSample :: "string \<Rightarrow> time \<Rightarrow> event \<Rightarrow> sample" where
  "ingestSample robotID now ev =
     (let captured = i64 (ev_CapturedAt ev);
          capturedNanos = (if captured \<le> 0 then i64 now else captured)
      in \<lparr>s_ID = 0, s_RobotID = robotID, s_Stream = ev_Stream ev, s_CapturedAt = capturedNanos,
          s_Payload = ev_Payload ev, s_Schema = ev_Schema ev\<rparr>)"

text \<open>A failing append is logged and the loop goes on.\<close>

definition ingestStep :: "string \<Rightarrow> time \<Rightarrow> tx_env \<Rightarrow> event \<Rightarrow> buffer \<Rightarrow> buffer" where
  "ingestStep robotID now e ev b = snd (Append e (ingestSample robotID now ev) b)"

fun runIngest :: "string \<Rightarrow> (time \<times> tx_env \<times> event) list \<Rightarrow> buffer \<Rightarrow> buffer" where
  "runIngest robotID [] b = b"
| "runIngest robotID ((now, e, ev) # evs) b = runIngest robotID evs (ingestStep robotID now e ev b)"

section \<open>Publish\<close>

definition publishBatch :: int where "publishBatch = 64"
definition publishTimeout :: duration where "publishTimeout = 5 * second"
definition backoffMin :: duration where "backoffMin = 100 * millisecond"
definition backoffMax :: duration where "backoffMax = 10 * second"

definition growPublish :: "duration \<Rightarrow> duration" where
  "growPublish backoff = min (i64 (backoff * 2)) backoffMax"

definition sampleTopic :: "sample \<Rightarrow> string" where
  "sampleTopic s = tlmTopic (s_RobotID s) (s_Stream s)"

text \<open>
  The loop over the peeked samples: the n-th call of \<^verbatim>\<open>Publish\<close> meets the client in state
  \<open>env n\<close>, and the loop stops at the first that fails.  The result is the published samples.
\<close>

fun publishLoop :: "(nat \<Rightarrow> client_env) \<Rightarrow> nat \<Rightarrow> sample list \<Rightarrow> sample list" where
  "publishLoop env k [] = []"
| "publishLoop env k (s # ss) =
     (case Publish (env k) publishTimeout of
        Some err \<Rightarrow> []
      | None \<Rightarrow> s # publishLoop env (Suc k) ss)"

text \<open>What one round meets, and what it leaves: buffer, backoff, published messages, sleeps.\<close>

record round_env =
  re_client :: client_env
  re_peek :: query_env
  re_publish :: "nat \<Rightarrow> client_env"
  re_ack :: tx_env

record publisher_state =
  ps_buf :: buffer
  ps_backoff :: duration
  ps_wire :: "sample list"
  ps_slept :: "duration list"

definition backOff :: "publisher_state \<Rightarrow> publisher_state" where
  "backOff st = st\<lparr>ps_slept := ps_slept st @ [ps_backoff st], ps_backoff := growPublish (ps_backoff st)\<rparr>"

definition publishRound :: "round_env \<Rightarrow> publisher_state \<Rightarrow> publisher_state" where
  "publishRound e st =
     (if \<not> IsConnected (re_client e) then backOff st
      else case Peek (re_peek e) publishBatch (ps_buf st) of
        Err err \<Rightarrow> st
      | Panic msg \<Rightarrow> st
      | Ok samples \<Rightarrow>
          (if samples = [] then st\<lparr>ps_backoff := backoffMin\<rparr>
           else
             let published = publishLoop (re_publish e) 0 samples;
                 acked = map s_ID published;
                 st' = st\<lparr>ps_wire := ps_wire st @ published\<rparr>
             in if acked \<noteq> []
                then st'\<lparr>ps_buf := snd (Ack (re_ack e) acked (ps_buf st)), ps_backoff := backoffMin\<rparr>
                else backOff st'))"

fun runPublish :: "round_env list \<Rightarrow> publisher_state \<Rightarrow> publisher_state" where
  "runPublish [] st = st"
| "runPublish (e # es) st = runPublish es (publishRound e st)"

section \<open>Heartbeat\<close>

text \<open>The payload; the time stamp's RFC 3339 text is an argument.\<close>

definition heartbeatPayload :: "string \<Rightarrow> int \<Rightarrow> string \<Rightarrow> bytes" where
  "heartbeatPayload robotID n emittedAt =
     [CHR ''{''] @ quoteGo ''robot_id'' @ '':'' @ quoteGo robotID @ '','' @
     quoteGo ''buffered'' @ '':'' @ showInt n @ '','' @
     quoteGo ''emitted_at'' @ '':'' @ quoteGo emittedAt @ '','' @
     quoteGo ''status'' @ '':'' @ quoteGo ''ok'' @ [CHR ''}'']"

definition heartbeatTick ::
  "string \<Rightarrow> string \<Rightarrow> go_error option \<Rightarrow> client_env \<Rightarrow> buffer \<Rightarrow> (string \<times> bytes) \<times> go_error option" where
  "heartbeatTick robotID emittedAt countErr ce b =
     (let n = fst (Count countErr b)
      in ((hbTopic robotID, heartbeatPayload robotID n emittedAt), Publish ce publishTimeout))"

section \<open>Backoff and publish lemmas\<close>

interpretation publish_backoff: backoff_policy growPublish backoffMin backoffMax
  by unfold_locales (auto simp: growPublish_def backoffMin_def backoffMax_def in_i64_def)

lemma publishLoop_prefix: "\<exists>n. publishLoop env k ss = take n ss"
proof (induction env k ss rule: publishLoop.induct)
  case (1 env k)
  then show ?case by simp
next
  case (2 env k s ss)
  show ?case
  proof (cases "Publish (env k) publishTimeout")
    case None
    with 2 obtain n where "publishLoop env (Suc k) ss = take n ss" by auto
    with None have "publishLoop env k (s # ss) = take (Suc n) (s # ss)" by simp
    then show ?thesis by blast
  next
    case (Some err)
    then have "publishLoop env k (s # ss) = take 0 (s # ss)" by simp
    then show ?thesis by blast
  qed
qed

lemma publishLoop_all:
  "(\<And>n. Publish (env n) publishTimeout = None) \<Longrightarrow> publishLoop env k ss = ss"
  by (induction env k ss rule: publishLoop.induct) simp_all

lemma publishLoop_stops:
  "Publish (env k) publishTimeout = Some err \<Longrightarrow> publishLoop env k ss = []"
  by (cases ss) simp_all

definition backoff_ok :: "publisher_state \<Rightarrow> bool" where
  "backoff_ok st \<longleftrightarrow> backoffMin \<le> ps_backoff st \<and> ps_backoff st \<le> backoffMax \<and>
     (\<forall>d \<in> set (ps_slept st). backoffMin \<le> d \<and> d \<le> backoffMax)"

lemma backOff_ok: "backoff_ok st \<Longrightarrow> backoff_ok (backOff st)"
  using publish_backoff.grow_bounds [of "ps_backoff st"] by (auto simp: backoff_ok_def backOff_def)

lemma publishRound_backoff_ok: "backoff_ok st \<Longrightarrow> backoff_ok (publishRound e st)"
proof -
  assume st: "backoff_ok st"
  have "backoff_ok (backOff (st\<lparr>ps_wire := w\<rparr>))" for w
    by (rule backOff_ok) (use st in \<open>simp add: backoff_ok_def\<close>)
  with st backOff_ok [OF st] show ?thesis
    using publish_backoff.initial_cap
    by (auto simp: publishRound_def Let_def backoff_ok_def split: go.splits)
qed

lemma Peek_no_panic: "Peek e publishBatch b \<noteq> Panic msg"
  by (auto simp: Peek_def publishBatch_def split: option.splits sum.splits)

section \<open>Draining after a reconnect\<close>

text \<open>A round in which the client is connected and nothing fails.\<close>

definition onlineRound :: round_env where
  "onlineRound = \<lparr>re_client = acknowledged, re_peek = query_fine, re_publish = (\<lambda>_. acknowledged),
     re_ack = tx_fine\<rparr>"

definition onBuffer :: "(sample list \<Rightarrow> sample list) \<Rightarrow> buffer \<Rightarrow> buffer" where
  "onBuffer f b = b\<lparr>b_db := (b_db b)\<lparr>db_rows := f (db_rows (b_db b))\<rparr>\<rparr>"

lemma Ack_take:
  assumes "buf_inv b"
  shows "Ack tx_fine (map s_ID (take n (db_rows (b_db b)))) b = (None, onBuffer (drop n) b)"
proof -
  let ?rs = "db_rows (b_db b)"
  obtain b' where b': "Ack tx_fine (map s_ID (take n ?rs)) b = (None, b')" using Ack_fine by blast
  have "filter (\<lambda>s. s_ID s \<notin> s_ID ` set (take n ?rs)) ?rs = drop n ?rs"
    using assms by (intro filter_notin_take db_inv_distinct) (simp add: buf_inv_def)
  with Ack_ok [OF b'] b' show ?thesis by (simp add: onBuffer_def)
qed

lemma onlineRound_step:
  assumes "buf_inv (ps_buf st)"
  shows "publishRound onlineRound st =
    st\<lparr>ps_buf := onBuffer (drop 64) (ps_buf st), ps_backoff := backoffMin,
       ps_wire := ps_wire st @ take 64 (db_rows (b_db (ps_buf st)))\<rparr>"
proof -
  let ?rs = "db_rows (b_db (ps_buf st))"
  have all: "publishLoop (\<lambda>_. acknowledged) k ss = ss" for k ss
    by (rule publishLoop_all) simp
  show ?thesis
    using Ack_take [OF assms, of 64] all
    by (cases ?rs)
      (simp_all add: publishRound_def onlineRound_def IsConnected_def acknowledged_def [symmetric]
        Peek_fine [OF assms] publishBatch_def Let_def onBuffer_def,
       simp_all add: acknowledged_def)
qed

lemma onBuffer_inv: "buf_inv b \<Longrightarrow> buf_inv (onBuffer (drop n) b)"
  using Ack_ok_inv [OF _ Ack_take] by blast

lemma onBuffer_rows [simp]: "db_rows (b_db (onBuffer f b)) = f (db_rows (b_db b))"
  by (simp add: onBuffer_def)

lemma onlineRounds:
  assumes "buf_inv (ps_buf st)"
  shows "db_rows (b_db (ps_buf (runPublish (replicate n onlineRound) st))) =
      drop (64 * n) (db_rows (b_db (ps_buf st))) \<and>
    ps_wire (runPublish (replicate n onlineRound) st) =
      ps_wire st @ take (64 * n) (db_rows (b_db (ps_buf st)))"
  using assms
proof (induction n arbitrary: st)
  case 0
  then show ?case by simp
next
  case (Suc n)
  let ?st = "publishRound onlineRound st"
  have "buf_inv (ps_buf ?st)"
    using Suc.prems by (simp add: onlineRound_step onBuffer_inv)
  with Suc.IH [of ?st] show ?case
    using Suc.prems take_add [of 64 "64 * n" "db_rows (b_db (ps_buf st))"]
    by (simp add: onlineRound_step add.commute [of 64])
qed

section \<open>The publish loop beside the ingest loop\<close>

text \<open>
  Between the peek and the acknowledgement of a round the ingest loop may append, and an append may
  evict.  \<open>Draining\<close> holds the peeked samples not yet tried and those already published.  The
  sets \<open>pu_log\<close> and \<open>pu_evicted\<close> record every row ever stored and every row evicted.
\<close>

datatype pump_pc = Idle | Draining "sample list" "sample list"

record pump =
  pu_pub :: publisher_state
  pu_pc :: pump_pc
  pu_log :: "sample set"
  pu_evicted :: "sample set"

abbreviation pump_buf :: "pump \<Rightarrow> buffer" where
  "pump_buf p \<equiv> ps_buf (pu_pub p)"

abbreviation pump_rows :: "pump \<Rightarrow> sample list" where
  "pump_rows p \<equiv> db_rows (b_db (pump_buf p))"

definition storedBy :: "tx_env \<Rightarrow> sample \<Rightarrow> buffer \<Rightarrow> sample set" where
  "storedBy e s b =
     (if fst (Append e s b) = None then {s\<lparr>s_ID := db_seq (b_db b) + 1\<rparr>} else {})"

definition evictedBy :: "tx_env \<Rightarrow> sample \<Rightarrow> buffer \<Rightarrow> sample set" where
  "evictedBy e s b =
     (set (db_rows (b_db b)) \<union> storedBy e s b) - set (db_rows (b_db (snd (Append e s b))))"

inductive pump_step :: "pump \<Rightarrow> pump \<Rightarrow> bool" where
  ingest: "pump_step p (p\<lparr>pu_pub := (pu_pub p)\<lparr>ps_buf := snd (Append e s (pump_buf p))\<rparr>,
     pu_log := pu_log p \<union> storedBy e s (pump_buf p),
     pu_evicted := pu_evicted p \<union> evictedBy e s (pump_buf p)\<rparr>)"
| offline: "pu_pc p = Idle \<Longrightarrow> \<not> IsConnected ce \<Longrightarrow>
     pump_step p (p\<lparr>pu_pub := backOff (pu_pub p)\<rparr>)"
| peek_empty: "pu_pc p = Idle \<Longrightarrow> Peek q publishBatch (pump_buf p) = Ok [] \<Longrightarrow>
     pump_step p (p\<lparr>pu_pub := (pu_pub p)\<lparr>ps_backoff := backoffMin\<rparr>\<rparr>)"
| peek: "pu_pc p = Idle \<Longrightarrow> Peek q publishBatch (pump_buf p) = Ok samples \<Longrightarrow> samples \<noteq> [] \<Longrightarrow>
     pump_step p (p\<lparr>pu_pc := Draining samples []\<rparr>)"
| publish_ok: "pu_pc p = Draining (s # rest) published \<Longrightarrow> Publish ce publishTimeout = None \<Longrightarrow>
     pump_step p (p\<lparr>pu_pub := (pu_pub p)\<lparr>ps_wire := ps_wire (pu_pub p) @ [s]\<rparr>,
       pu_pc := Draining rest (published @ [s])\<rparr>)"
| publish_fail: "pu_pc p = Draining (s # rest) published \<Longrightarrow> Publish ce publishTimeout = Some err \<Longrightarrow>
     pump_step p (p\<lparr>pu_pc := Draining [] published\<rparr>)"
| ack: "pu_pc p = Draining [] published \<Longrightarrow> published \<noteq> [] \<Longrightarrow>
     pump_step p (p\<lparr>pu_pub := (pu_pub p)\<lparr>ps_buf := snd (Ack e (map s_ID published) (pump_buf p)),
       ps_backoff := backoffMin\<rparr>, pu_pc := Idle\<rparr>)"
| give_up: "pu_pc p = Draining [] [] \<Longrightarrow>
     pump_step p (p\<lparr>pu_pub := backOff (pu_pub p), pu_pc := Idle\<rparr>)"

definition pump_start :: "buffer \<Rightarrow> pump" where
  "pump_start b = \<lparr>pu_pub = \<lparr>ps_buf = b, ps_backoff = backoffMin, ps_wire = [], ps_slept = []\<rparr>,
     pu_pc = Idle, pu_log = set (db_rows (b_db b)), pu_evicted = {}\<rparr>"

inductive pump_reach :: "buffer \<Rightarrow> pump \<Rightarrow> bool" for b where
  start: "pump_reach b (pump_start b)"
| step: "pump_reach b p \<Longrightarrow> pump_step p p' \<Longrightarrow> pump_reach b p'"

text \<open>
  The invariant: the buffer is well formed; the samples a round works on have ids already given out
  and are the only rows with those ids; a published sample is on the wire; and every stored row is
  in the buffer, on the wire or evicted.
\<close>

definition own_rows :: "pump \<Rightarrow> sample set \<Rightarrow> bool" where
  "own_rows p S \<longleftrightarrow>
     (\<forall>x \<in> S. s_ID x \<le> db_seq (b_db (pump_buf p)) \<and> (\<forall>y \<in> set (pump_rows p). s_ID y = s_ID x \<longrightarrow> y = x))"

definition pc_inv :: "pump \<Rightarrow> bool" where
  "pc_inv p = (case pu_pc p of Idle \<Rightarrow> True
     | Draining rest published \<Rightarrow>
         own_rows p (set rest \<union> set published) \<and> set published \<subseteq> set (ps_wire (pu_pub p)))"

definition accounted :: "pump \<Rightarrow> bool" where
  "accounted p \<longleftrightarrow>
     pu_log p \<subseteq> set (pump_rows p) \<union> set (ps_wire (pu_pub p)) \<union> pu_evicted p \<and>
     set (pump_rows p) \<subseteq> pu_log p \<and> finite (pu_log p)"

definition pump_inv :: "pump \<Rightarrow> bool" where
  "pump_inv p \<longleftrightarrow> buf_inv (pump_buf p) \<and> backoff_ok (pu_pub p) \<and> pc_inv p \<and> accounted p"

lemma own_rows_Append:
  assumes "buf_inv (pump_buf p)" and "own_rows p S"
  shows "own_rows (p\<lparr>pu_pub := (pu_pub p)\<lparr>ps_buf := snd (Append e s (pump_buf p))\<rparr>,
    pu_log := l, pu_evicted := v\<rparr>) S"
  using assms(2) bufstore.mark_add [OF assms(1), of e s] bufstore.add_items [OF assms(1), of _ e s]
  unfolding own_rows_def by simp fastforce

lemma own_rows_rows:
  "buf_inv (pump_buf p) \<Longrightarrow> S \<subseteq> set (pump_rows p) \<Longrightarrow> own_rows p S"
  using bufstore.items_mark [of "pump_buf p"] db_inv_distinct [of "b_db (pump_buf p)"]
  by (auto simp: own_rows_def buf_inv_def distinct_map inj_on_def)

lemma ack_kept:
  assumes "own_rows p (set published)"
  shows "set (pump_rows p) \<subseteq>
    set (db_rows (b_db (snd (Ack e (map s_ID published) (pump_buf p))))) \<union> set published"
proof
  fix y
  assume y: "y \<in> set (pump_rows p)"
  have "y \<in> set published" if "s_ID y \<in> s_ID ` set published"
    using that assms y unfolding own_rows_def by fastforce
  with y show "y \<in> set (db_rows (b_db (snd (Ack e (map s_ID published) (pump_buf p))))) \<union> set published"
    using Ack_store_cases [of e "map s_ID published" "pump_buf p"] by auto
qed

lemma Ack_subset: "set (db_rows (b_db (snd (Ack e ids b)))) \<subseteq> set (db_rows (b_db b))"
  using Ack_store_cases [of e ids b] by auto

lemma Append_subset:
  assumes "buf_inv b"
  shows "set (db_rows (b_db (snd (Append e s b)))) \<subseteq> set (db_rows (b_db b)) \<union> storedBy e s b"
proof (cases "Append e s b")
  case (Pair err b')
  show ?thesis
  proof (cases err)
    case None
    with Pair Append_ok [OF assms, of e s b'] show ?thesis
      using set_drop_subset by (fastforce simp: storedBy_def Let_def)
  next
    case (Some er)
    with Pair Append_error [of e s b er b'] show ?thesis by simp
  qed
qed

lemma storedBy_finite [simp]: "finite (storedBy e s b)"
  by (simp add: storedBy_def)

lemma pump_step_inv: "pump_step p p' \<Longrightarrow> pump_inv p \<Longrightarrow> pump_inv p'"
proof (induction rule: pump_step.induct)
  case (ingest p e s)
  then have inv: "buf_inv (pump_buf p)" by (simp add: pump_inv_def)
  have "accounted (p\<lparr>pu_pub := (pu_pub p)\<lparr>ps_buf := snd (Append e s (pump_buf p))\<rparr>,
     pu_log := pu_log p \<union> storedBy e s (pump_buf p),
     pu_evicted := pu_evicted p \<union> evictedBy e s (pump_buf p)\<rparr>)"
    using ingest Append_subset [OF inv, of e s]
    by (auto simp: pump_inv_def accounted_def evictedBy_def)
  with ingest inv own_rows_Append [OF inv, where e = e and s = s] Append_inv [OF inv, of e s] show ?case
    by (simp add: pump_inv_def pc_inv_def backoff_ok_def split: pump_pc.splits)
next
  case (offline p ce)
  then show ?case
    using backOff_ok [of "pu_pub p"]
    by (simp add: pump_inv_def pc_inv_def accounted_def backOff_def)
next
  case (peek_empty p q)
  then show ?case
    using publish_backoff.initial_cap
    by (simp add: pump_inv_def pc_inv_def accounted_def backoff_ok_def)
next
  case (peek p q samples)
  then have "set samples \<subseteq> set (pump_rows p)"
    by (auto simp: pump_inv_def dest!: Peek_Ok in_set_takeD)
  with peek own_rows_rows [of p "set samples"] show ?case
    by (simp add: pump_inv_def pc_inv_def accounted_def own_rows_def)
next
  case (publish_ok p s rest published ce)
  then show ?case
    by (auto simp: pump_inv_def pc_inv_def accounted_def own_rows_def backoff_ok_def)
next
  case (publish_fail p s rest published ce err)
  then show ?case
    by (auto simp: pump_inv_def pc_inv_def accounted_def own_rows_def)
next
  case (ack p published e)
  then have own: "own_rows p (set published)" and wire: "set published \<subseteq> set (ps_wire (pu_pub p))"
    by (simp_all add: pump_inv_def pc_inv_def)
  with ack ack_kept [OF own, of e] Ack_subset [of e "map s_ID published" "pump_buf p"]
    publish_backoff.initial_cap Ack_inv [of "pump_buf p" e "map s_ID published"]
  show ?case
    by (auto simp: pump_inv_def pc_inv_def accounted_def backoff_ok_def)
next
  case (give_up p)
  then show ?case
    using backOff_ok [of "pu_pub p"]
    by (simp add: pump_inv_def pc_inv_def accounted_def backOff_def)
qed

lemma pump_start_inv: "buf_inv b \<Longrightarrow> pump_inv (pump_start b)"
  using publish_backoff.initial_cap
  by (simp add: pump_inv_def pump_start_def pc_inv_def accounted_def backoff_ok_def)

lemma pump_reach_inv: "pump_reach b p \<Longrightarrow> buf_inv b \<Longrightarrow> pump_inv p"
  by (induction rule: pump_reach.induct) (auto intro: pump_start_inv pump_step_inv)

section \<open>Eviction only above capacity\<close>

lemma evictedBy_room:
  assumes "buf_inv b" and "int (length (db_rows (b_db b))) < maxSamples b"
  shows "evictedBy e s b = {}"
proof (cases "Append e s b")
  case (Pair err b')
  show ?thesis
  proof (cases err)
    case None
    have "Suc (length (db_rows (b_db b))) - nat (maxSamples b) = 0" using assms(2) by linarith
    with Pair None Append_ok [OF assms(1), of e s b'] show ?thesis
      by (simp add: evictedBy_def storedBy_def Let_def)
  next
    case (Some er)
    with Pair Append_error [of e s b er b'] show ?thesis by (simp add: evictedBy_def storedBy_def)
  qed
qed

lemma Append_maxSamples: "maxSamples (snd (Append e s b)) = maxSamples b"
  by (simp add: Append_def Let_def split: option.split sum.split)

lemma Ack_maxSamples: "maxSamples (snd (Ack e ids b)) = maxSamples b"
  by (simp add: Ack_def split: option.split sum.split)

lemma storedBy_id: "x \<in> storedBy e s b \<Longrightarrow> s_ID x = db_seq (b_db b) + 1"
  by (auto simp: storedBy_def split: if_splits)

lemma storedBy_seq: 
  assumes "buf_inv b" and "x \<in> storedBy e s b"
  shows "db_seq (b_db (snd (Append e s b))) = db_seq (b_db b) + 1"
proof -
  have "fst (Append e s b) = None" using assms(2) by (simp add: storedBy_def split: if_splits)
  then have "Append e s b = (None, snd (Append e s b))" by (simp add: prod_eq_iff)
  with Append_ok [OF assms(1)] show ?thesis by blast
qed

text \<open>While no more rows were stored than the capacity, nothing was evicted.\<close>

definition room_inv :: "int \<Rightarrow> pump \<Rightarrow> bool" where
  "room_inv cap p \<longleftrightarrow> maxSamples (pump_buf p) = cap \<and>
     (\<forall>x \<in> pu_log p. s_ID x \<le> db_seq (b_db (pump_buf p))) \<and>
     (int (card (pu_log p)) \<le> cap \<longrightarrow> pu_evicted p = {})"

lemma rows_le_log: "pump_inv p \<Longrightarrow> length (pump_rows p) \<le> card (pu_log p)"
  using db_inv_distinct [of "b_db (pump_buf p)"]
  by (auto simp: pump_inv_def accounted_def buf_inv_def distinct_map
      simp flip: distinct_card intro: card_mono)

lemma ingest_room_inv:
  assumes inv: "pump_inv p" and room: "room_inv cap p"
  shows "room_inv cap (p\<lparr>pu_pub := (pu_pub p)\<lparr>ps_buf := snd (Append e s (pump_buf p))\<rparr>,
     pu_log := pu_log p \<union> storedBy e s (pump_buf p),
     pu_evicted := pu_evicted p \<union> evictedBy e s (pump_buf p)\<rparr>)"
proof -
  let ?b = "pump_buf p" and ?st = "storedBy e s (pump_buf p)"
  have binv: "buf_inv ?b" and fin: "finite (pu_log p)"
    using inv by (simp_all add: pump_inv_def accounted_def)
  have ids: "\<forall>x \<in> pu_log p \<union> ?st. s_ID x \<le> db_seq (b_db (snd (Append e s ?b)))"
    using room bufstore.mark_add [OF binv, of e s] storedBy_id [of _ e s ?b] storedBy_seq [OF binv]
    by (fastforce simp: room_inv_def)
  have "evictedBy e s ?b = {}" if c: "int (card (pu_log p \<union> ?st)) \<le> cap"
  proof (cases "?st = {}")
    case True
    then have "snd (Append e s ?b) = ?b"
      by (cases "Append e s ?b") (auto simp: storedBy_def split: if_splits dest: Append_error)
    with True show ?thesis by (simp add: evictedBy_def)
  next
    case False
    then obtain x where x: "?st = {x}" by (auto simp: storedBy_def split: if_splits)
    have "x \<notin> pu_log p" using storedBy_id [of x e s ?b] x room by (auto simp: room_inv_def)
    with c x fin have "int (card (pu_log p)) < cap" by simp
    then have "int (length (pump_rows p)) < maxSamples ?b"
      using rows_le_log [OF inv] room by (simp add: room_inv_def)
    then show ?thesis by (rule evictedBy_room [OF binv])
  qed
  moreover have "card (pu_log p) \<le> card (pu_log p \<union> ?st)" using fin by (simp add: card_mono)
  ultimately show ?thesis
    using room ids Append_maxSamples [of e s ?b] by (auto simp: room_inv_def)
qed

lemma pump_step_room_inv:
  assumes "pump_step p p'" and "pump_inv p" and "room_inv cap p"
  shows "room_inv cap p'"
  using assms
proof (induction rule: pump_step.induct)
  case (ingest p e s)
  then show ?case by (intro ingest_room_inv)
next
  case (ack p published e)
  have "db_seq (b_db (snd (Ack e (map s_ID published) (pump_buf p)))) = db_seq (b_db (pump_buf p))"
    using Ack_store_cases [of e "map s_ID published" "pump_buf p"] by auto
  with ack show ?case by (simp add: room_inv_def Ack_maxSamples)
qed (simp_all add: room_inv_def backOff_def)

lemma pump_reach_room_inv: "pump_reach b p \<Longrightarrow> buf_inv b \<Longrightarrow> room_inv (maxSamples b) p"
proof (induction rule: pump_reach.induct)
  case start
  then show ?case
    by (auto simp: room_inv_def pump_start_def buf_inv_def db_inv_def)
next
  case (step p p')
  then show ?case using pump_step_room_inv pump_reach_inv by blast
qed

section \<open>A round of the function is a run of the relation\<close>

lemma publishLoop_steps:
  "pu_pc p = Draining ss published \<Longrightarrow>
     pump_step\<^sup>*\<^sup>* p (p\<lparr>pu_pub := (pu_pub p)\<lparr>ps_wire := ps_wire (pu_pub p) @ publishLoop env k ss\<rparr>,
       pu_pc := Draining [] (published @ publishLoop env k ss)\<rparr>)"
proof (induction env k ss arbitrary: p published rule: publishLoop.induct)
  case (1 env k)
  then have "p\<lparr>pu_pub := (pu_pub p)\<lparr>ps_wire := ps_wire (pu_pub p) @ publishLoop env k []\<rparr>,
       pu_pc := Draining [] (published @ publishLoop env k [])\<rparr> = p" by simp
  then show ?case by simp
next
  case (2 env k s ss)
  show ?case
  proof (cases "Publish (env k) publishTimeout")
    case None
    let ?p = "p\<lparr>pu_pub := (pu_pub p)\<lparr>ps_wire := ps_wire (pu_pub p) @ [s]\<rparr>,
       pu_pc := Draining ss (published @ [s])\<rparr>"
    have "pump_step p ?p" using "2.prems" None by (rule pump_step.publish_ok)
    moreover have "pump_step\<^sup>*\<^sup>* ?p (?p\<lparr>pu_pub := (pu_pub ?p)\<lparr>ps_wire := ps_wire (pu_pub ?p) @
        publishLoop env (Suc k) ss\<rparr>, pu_pc := Draining [] ((published @ [s]) @ publishLoop env (Suc k) ss)\<rparr>)"
      by (rule "2.IH" [OF None]) simp
    ultimately show ?thesis using None by (simp add: converse_rtranclp_into_rtranclp)
  next
    case (Some err)
    with "2.prems" pump_step.publish_fail [OF "2.prems" Some] show ?thesis by simp
  qed
qed

lemma publishRound_steps:
  assumes idle: "pu_pc p = Idle"
  shows "pump_step\<^sup>*\<^sup>* p (p\<lparr>pu_pub := publishRound e (pu_pub p)\<rparr>)"
proof (cases "IsConnected (re_client e)")
  case False
  then show ?thesis using pump_step.offline [OF idle False] by (simp add: publishRound_def)
next
  case online: True
  show ?thesis
  proof (cases "Peek (re_peek e) publishBatch (pump_buf p)")
    case (Ok samples)
    show ?thesis
    proof (cases "samples = []")
      case True
      with Ok online pump_step.peek_empty [OF idle, of "re_peek e"] show ?thesis
        by (simp add: publishRound_def)
    next
      case False
      let ?pub = "publishLoop (re_publish e) 0 samples"
      let ?p1 = "p\<lparr>pu_pc := Draining samples []\<rparr>"
      let ?p2 = "?p1\<lparr>pu_pub := (pu_pub p)\<lparr>ps_wire := ps_wire (pu_pub p) @ ?pub\<rparr>, pu_pc := Draining [] ?pub\<rparr>"
      let ?p3 = "p\<lparr>pu_pub := publishRound e (pu_pub p), pu_pc := Idle\<rparr>"
      have "pump_step p ?p1" using idle Ok False by (rule pump_step.peek)
      moreover have "pump_step\<^sup>*\<^sup>* ?p1 ?p2"
        using publishLoop_steps [of ?p1 samples "[]" "re_publish e" 0] by simp
      moreover have "pump_step ?p2 ?p3"
        using online Ok False idle pump_step.ack [of ?p2 ?pub "re_ack e"] pump_step.give_up [of ?p2]
        by (cases "?pub = []") (simp_all add: publishRound_def Let_def)
      moreover have "?p3 = p\<lparr>pu_pub := publishRound e (pu_pub p)\<rparr>" using idle by (cases p) simp
      ultimately show ?thesis
        by (metis converse_rtranclp_into_rtranclp rtranclp.rtrancl_into_rtrancl)
    qed
  next
    case (Err err)
    with online show ?thesis by (simp add: publishRound_def)
  next
    case (Panic msg)
    with Peek_no_panic show ?thesis by blast
  qed
qed

section \<open>Claims\<close>

text \<open>
  C1: whatever the interleaving of the two loops and whatever fails, every sample ever stored is in
  the buffer, was handed to the broker and acknowledged by it, or was evicted; and nothing is
  evicted while no more samples were stored than the capacity.
\<close>

theorem no_silent_loss:
  assumes "pump_reach b p" and "buf_inv b"
  shows "pu_log p \<subseteq> set (pump_rows p) \<union> set (ps_wire (pu_pub p)) \<union> pu_evicted p \<and>
    (int (card (pu_log p)) \<le> maxSamples b \<longrightarrow> pu_evicted p = {})"
  using pump_reach_inv [OF assms] pump_reach_room_inv [OF assms]
  by (simp add: pump_inv_def accounted_def room_inv_def)

theorem no_silent_loss_witness:
  "pump_reach demoBuffer ((pump_start demoBuffer)\<lparr>pu_pub := publishRound onlineRound (pu_pub (pump_start demoBuffer))\<rparr>) \<and>
   {demoSample 1 ''a'', demoSample 2 ''b''} \<subseteq>
     set (ps_wire (publishRound onlineRound (pu_pub (pump_start demoBuffer))))"
proof -
  let ?p = "(pump_start demoBuffer)\<lparr>pu_pub := publishRound onlineRound (pu_pub (pump_start demoBuffer))\<rparr>"
  have steps: "pump_step\<^sup>*\<^sup>* (pump_start demoBuffer) ?p"
    by (rule publishRound_steps) (simp add: pump_start_def)
  then have reach: "pump_reach demoBuffer ?p"
    by (induction rule: rtranclp_induct) (auto intro: pump_reach.intros)
  have log: "pu_log ?p = {demoSample 1 ''a'', demoSample 2 ''b''}"
    by (auto simp: pump_start_def demoBuffer_def)
  have "int (card (pu_log ?p)) \<le> maxSamples demoBuffer" unfolding log by code_simp
  with no_silent_loss [OF reach demoBuffer_inv]
  have 1: "pu_log ?p \<subseteq> set (pump_rows ?p) \<union> set (ps_wire (pu_pub ?p))" by blast
  have 2: "pump_rows ?p = []" by code_simp
  from 1 2 log reach show ?thesis by simp
qed

text \<open>
  One round of the publish loop is a run of atomic steps in which the ingest loop may take part
  between any two, so what holds of all interleavings holds of the loop as written.
\<close>

theorem publishRound_refines:
  assumes "pu_pc p = Idle"
  shows "pump_step\<^sup>*\<^sup>* p (p\<lparr>pu_pub := publishRound e (pu_pub p)\<rparr>)"
  using publishRound_steps [OF assms] .

theorem publishRound_refines_witness:
  "pump_step\<^sup>*\<^sup>* (pump_start demoBuffer)
     ((pump_start demoBuffer)\<lparr>pu_pub := publishRound onlineRound (pu_pub (pump_start demoBuffer))\<rparr>)"
  by (rule publishRound_refines) (simp add: pump_start_def)

text \<open>
  C17: once the connection is back and nothing fails, every 64 buffered samples take one round, and
  the whole backlog reaches the broker in the order it was captured, each sample once.
\<close>

theorem backlog_drains_in_order:
  assumes "buf_inv (ps_buf st)" and "length (db_rows (b_db (ps_buf st))) \<le> 64 * n"
  shows "db_rows (b_db (ps_buf (runPublish (replicate n onlineRound) st))) = [] \<and>
    ps_wire (runPublish (replicate n onlineRound) st) = ps_wire st @ db_rows (b_db (ps_buf st))"
  using onlineRounds [OF assms(1), of n] assms(2) by simp

theorem backlog_drains_in_order_witness:
  "ps_wire (runPublish (replicate 1 onlineRound)
     \<lparr>ps_buf = demoBuffer, ps_backoff = backoffMin, ps_wire = [], ps_slept = []\<rparr>) =
   [demoSample 1 ''a'', demoSample 2 ''b'']"
  using backlog_drains_in_order [of "\<lparr>ps_buf = demoBuffer, ps_backoff = backoffMin, ps_wire = [], ps_slept = []\<rparr>" 1]
    demoBuffer_inv by (simp add: demoBuffer_def)

text \<open>
  A round removes from the buffer only samples whose publish the broker acknowledged, a prefix
  of what it peeked, and never more than a batch.
\<close>

theorem round_acks_published_prefix:
  assumes "buf_inv (ps_buf st)"
  shows "\<exists>k \<le> 64. ps_wire (publishRound e st) = ps_wire st @ take k (db_rows (b_db (ps_buf st))) \<and>
    (db_rows (b_db (ps_buf (publishRound e st))) = db_rows (b_db (ps_buf st)) \<or>
     db_rows (b_db (ps_buf (publishRound e st))) = drop k (db_rows (b_db (ps_buf st))))"
proof (cases "IsConnected (re_client e) \<and> (\<exists>ss. Peek (re_peek e) publishBatch (ps_buf st) = Ok ss \<and> ss \<noteq> [])")
  case False
  then show ?thesis
    by (intro exI [of _ 0]) (auto simp: publishRound_def backOff_def split: go.splits)
next
  case True
  let ?rs = "db_rows (b_db (ps_buf st))"
  from True obtain ss where ss: "Peek (re_peek e) publishBatch (ps_buf st) = Ok ss" "ss \<noteq> []" by blast
  have peeked: "ss = take 64 ?rs" using Peek_Ok [OF assms ss(1)] by (simp add: publishBatch_def)
  obtain n where n: "publishLoop (re_publish e) 0 ss = take n ss" using publishLoop_prefix by blast
  let ?k = "min n 64"
  have pub: "publishLoop (re_publish e) 0 ss = take ?k ?rs" using n peeked by (simp add: min.commute)
  have dist: "filter (\<lambda>s. s_ID s \<notin> s_ID ` set (take ?k ?rs)) ?rs = drop ?k ?rs"
    using assms by (intro filter_notin_take db_inv_distinct) (simp add: buf_inv_def)
  show ?thesis
    using True ss pub dist Ack_store_cases [of "re_ack e" "map s_ID (take ?k ?rs)" "ps_buf st"]
    by (intro exI [of _ ?k]) (auto simp: publishRound_def Let_def backOff_def)
qed

theorem round_acks_published_prefix_witness:
  "\<exists>k \<le> 64. ps_wire (publishRound onlineRound
       \<lparr>ps_buf = demoBuffer, ps_backoff = backoffMin, ps_wire = [], ps_slept = []\<rparr>) =
     [] @ take k [demoSample 1 ''a'', demoSample 2 ''b'']"
  using round_acks_published_prefix [of "\<lparr>ps_buf = demoBuffer, ps_backoff = backoffMin, ps_wire = [], ps_slept = []\<rparr>" onlineRound]
    demoBuffer_inv by (auto simp: demoBuffer_def)

text \<open>The publish loop never waits less than 100 ms or more than 10 s after a failure.\<close>

theorem publish_backoff_bounds:
  "\<forall>d \<in> set (ps_slept (runPublish es \<lparr>ps_buf = b, ps_backoff = backoffMin, ps_wire = [], ps_slept = []\<rparr>)).
     100 * millisecond \<le> d \<and> d \<le> 10 * second"
proof -
  have "backoff_ok st \<Longrightarrow> backoff_ok (runPublish es st)" for st
    by (induction es arbitrary: st) (simp_all add: publishRound_backoff_ok)
  from this [of "\<lparr>ps_buf = b, ps_backoff = backoffMin, ps_wire = [], ps_slept = []\<rparr>"]
  show ?thesis
    using publish_backoff.initial_cap by (simp add: backoff_ok_def backoffMin_def backoffMax_def)
qed

theorem publish_backoff_bounds_witness:
  "\<forall>d \<in> set (ps_slept (runPublish (replicate 3 (onlineRound\<lparr>re_client := \<lparr>ce_open = False, ce_token = Pending\<rparr>\<rparr>))
       \<lparr>ps_buf = demoBuffer, ps_backoff = backoffMin, ps_wire = [], ps_slept = []\<rparr>)).
     100 * millisecond \<le> d \<and> d \<le> 10 * second"
  by (rule publish_backoff_bounds)

end
