(* ===== verification/AgentMain.thy ===== *)
theory AgentMain
  imports Pump AgentOta
begin

text \<open>
  The agent's configuration, \<^verbatim>\<open>agent/cmd/agent/main.go\<close>: the environment, the flags and the
  arguments for the container engine.  A flag is given on the command line or not.
\<close>

record config =
  cf_robotID :: string
  cf_brokerURL :: string
  cf_bufferPath :: string
  cf_bridgeAddr :: string
  cf_otaRunArgs :: "string list"
  cf_heartbeatMs :: int

text \<open>A nil slice and an empty one are both the empty list.\<close>

definition parseOTARunArgs :: "string \<Rightarrow> string list" where
  "parseOTARunArgs s =
     (if s = '''' then [] else filter (\<lambda>t. t \<noteq> '''') (map trimSpace (splitOn CHR '','' s)))"

definition firstNonEmpty :: "string \<Rightarrow> string \<Rightarrow> string" where
  "firstNonEmpty a b = (if a \<noteq> '''' then a else b)"

definition flagOr :: "(string \<Rightarrow> 'a option) \<Rightarrow> string \<Rightarrow> 'a \<Rightarrow> 'a" where
  "flagOr flags name def = (case flags name of None \<Rightarrow> def | Some v \<Rightarrow> v)"

definition loadConfig :: "(string \<Rightarrow> string) \<Rightarrow> (string \<Rightarrow> string option) \<Rightarrow> (string \<Rightarrow> int option) \<Rightarrow> config" where
  "loadConfig getenv flags intFlags =
     \<lparr>cf_robotID = flagOr flags ''robot-id'' (getenv ''ROBOT_ID''),
      cf_brokerURL = flagOr flags ''broker'' (firstNonEmpty (getenv ''BROKER_URL'') ''tcp://localhost:1883''),
      cf_bufferPath = flagOr flags ''buffer''
        (firstNonEmpty (getenv ''BUFFER_PATH'') ''/var/lib/temporal-hack-agent/buffer.db''),
      cf_bridgeAddr = flagOr flags ''bridge''
        (firstNonEmpty (getenv ''BRIDGE_ADDR'') ''unix:///run/temporal-hack-bridge.sock''),
      cf_otaRunArgs = parseOTARunArgs (getenv ''OTA_RUN_ARGS''),
      cf_heartbeatMs = flagOr intFlags ''heartbeat-ms'' 10000\<rparr>"

text \<open>
  What \<^verbatim>\<open>main\<close> makes of the configuration: it exits without a robot id, or if the buffer
  cannot be opened, else it starts the pump and the executor with these parts.
\<close>

datatype agent_start =
    ExitCode int
  | Started buffer clientOptions dockerCLI "string list"

definition agentMain ::
  "clientOptions \<Rightarrow> config \<Rightarrow> (go_error + buffer) \<Rightarrow> string \<Rightarrow> (string \<Rightarrow> bool) \<Rightarrow> agent_start" where
  "agentMain d cfg opened envBin onPath =
     (if cf_robotID cfg = '''' then ExitCode 2
      else case opened of Inl err \<Rightarrow> ExitCode 1 | Inr buf \<Rightarrow>
        (case NewPublisher d \<lparr>pc_BrokerURL = cf_brokerURL cfg, pc_ClientID = ''agent-'' @ cf_robotID cfg,
               pc_Username = '''', pc_Password = ''''\<rparr> of
           Inl err \<Rightarrow> ExitCode 1
         | Inr opts \<Rightarrow> Started buf opts (NewDockerCLI envBin onPath (cf_otaRunArgs cfg))
             [''battery'', ''pose'', ''diag'']))"

section \<open>Properties\<close>

lemma trimSpace_first: "trimSpace s \<noteq> [] \<Longrightarrow> \<not> isSpace (hd (trimSpace s))"
proof -
  let ?d = "dropWhile isSpace s"
  assume ne: "trimSpace s \<noteq> []"
  define r where "r = dropWhile isSpace (rev ?d)"
  obtain p where p: "rev ?d = p @ r" unfolding r_def by (metis takeWhile_dropWhile_id)
  have r: "r \<noteq> []" using ne by (simp add: r_def trimSpace_def)
  have "?d = rev r @ rev p" using p by (metis rev_append rev_rev_ident)
  then have "hd ?d = hd (rev r)" and "?d \<noteq> []" using r by simp_all
  then show ?thesis using hd_dropWhile [of isSpace s] by (simp add: trimSpace_def r_def)
qed

definition cleanArg :: "string \<Rightarrow> bool" where
  "cleanArg t \<longleftrightarrow> t \<noteq> '''' \<and> CHR '','' \<notin> set t \<and> \<not> isSpace (hd t) \<and> \<not> isSpace (last t)"

lemma trimSpace_clean: "cleanArg t \<Longrightarrow> trimSpace t = t"
proof -
  assume t: "cleanArg t"
  then have "dropWhile isSpace t = t" by (simp add: cleanArg_def dropWhile_last_first)
  moreover have "dropWhile isSpace (rev t) = rev t"
    using t by (intro dropWhile_last_first) (simp_all add: cleanArg_def hd_rev)
  ultimately show ?thesis by (simp add: trimSpace_def)
qed

lemma splitOn_join: "ts \<noteq> [] \<Longrightarrow> \<forall>t \<in> set ts. c \<notin> set t \<Longrightarrow> splitOn c (joinWith [c] ts) = ts"
proof (induction ts)
  case (Cons t ts)
  then show ?case by (cases ts) (simp_all add: splitOn_append_sep)
qed simp

text \<open>
  Every argument for the engine is not empty, holds no comma and neither starts nor ends with
  white space; and arguments of that kind, joined with commas, are read back as they were.
\<close>

theorem run_args_roundtrip:
  "(\<forall>t \<in> set (parseOTARunArgs s). cleanArg t) \<and>
   (list_all cleanArg ts \<longrightarrow> parseOTARunArgs (joinWith '','' ts) = ts)"
proof (intro conjI ballI impI)
  fix t
  assume "t \<in> set (parseOTARunArgs s)"
  then obtain p where p: "p \<in> set (splitOn CHR '','' s)" "t = trimSpace p" "t \<noteq> ''''"
    by (auto simp: parseOTARunArgs_def split: if_splits)
  then have "CHR '','' \<notin> set t" using splitOn_parts [OF p(1)] trimSpace_set [of p] by auto
  then show "cleanArg t" using p trimSpace_first [of p] trimSpace_last [of p] by (simp add: cleanArg_def)
next
  assume ts: "list_all cleanArg ts"
  show "parseOTARunArgs (joinWith '','' ts) = ts"
  proof (cases ts)
    case Nil
    then show ?thesis by (simp add: parseOTARunArgs_def)
  next
    case (Cons t ts')
    have clean: "\<forall>t \<in> set ts. CHR '','' \<notin> set t" "\<forall>t \<in> set ts. trimSpace t = t" "\<forall>t \<in> set ts. t \<noteq> ''''"
      using ts trimSpace_clean by (auto simp: list_all_iff cleanArg_def)
    have "joinWith '','' ts \<noteq> ''''" using clean(3) Cons by (cases ts') simp_all
    then show ?thesis
      using splitOn_join [of ts "CHR '',''"] clean Cons by (simp add: parseOTARunArgs_def map_idI)
  qed
qed

theorem run_args_roundtrip_witness:
  "parseOTARunArgs (joinWith '','' [''--network=foo'', ''-e'', ''KEY=val'']) = [''--network=foo'', ''-e'', ''KEY=val'']"
proof -
  have "list_all cleanArg [''--network=foo'', ''-e'', ''KEY=val'']" by code_simp
  with run_args_roundtrip [of "''''" "[''--network=foo'', ''-e'', ''KEY=val'']"] show ?thesis by blast
qed

end
