(* ===== verification/Fleet.thy ===== *)
theory Fleet
  imports Store
begin

text \<open>
  The fleet registry, \<^verbatim>\<open>cloud/internal/fleet/registry.go\<close>.  With labels it builds a query whose
  text and arguments are modelled exactly; what the database makes of the query is an argument.
  Without labels the query is fixed and is modelled on the telemetry table.
\<close>

section \<open>Decimal numbers\<close>

text \<open>
  The loop writes digits from the end of a buffer of 20 bytes; \<open>i\<close> is the index of the first
  digit written, and stepping below 0 would panic.
\<close>

fun itoaLoop :: "nat \<Rightarrow> int \<Rightarrow> string \<Rightarrow> string go" where
  "itoaLoop i n b =
     (if n > 0 then
        (case i of 0 \<Rightarrow> Panic ''runtime error: index out of range [-1]''
         | Suc j \<Rightarrow> itoaLoop j (n div 10) (digit (nat (n mod 10)) # b))
      else Ok b)"

declare itoaLoop.simps [simp del]

definition itoa :: "int \<Rightarrow> string go" where
  "itoa n = (if n = 0 then Ok ''0'' else itoaLoop 20 n [])"

lemma itoaLoop_done: "n \<le> 0 \<Longrightarrow> itoaLoop i n b = Ok b"
  by (subst itoaLoop.simps) simp

lemma itoaLoop_step:
  "0 < n \<Longrightarrow> itoaLoop (Suc j) n b = itoaLoop j (n div 10) (digit (nat (n mod 10)) # b)"
  by (subst itoaLoop.simps) simp

lemma itoaLoop_showNat:
  "0 < n \<Longrightarrow> n < 10 ^ i \<Longrightarrow> itoaLoop i (int n) b = Ok (showNat n @ b)"
proof (induction i arbitrary: n b)
  case 0
  then show ?case by simp
next
  case (Suc i)
  have step: "itoaLoop (Suc i) (int n) b = itoaLoop i (int (n div 10)) (digit (n mod 10) # b)"
    using Suc.prems by (simp add: itoaLoop_step zdiv_int nat_mod_distrib)
  show ?case
  proof (cases "n < 10")
    case True
    then show ?thesis using Suc.prems by (simp add: step itoaLoop_done showNat_small)
  next
    case False
    have "n div 10 < 10 ^ i" using Suc.prems(2) by (simp add: less_mult_imp_div_less mult.commute)
    with False Suc.IH [of "n div 10"] show ?thesis by (simp add: step showNat_step)
  qed
qed

section \<open>Selection by labels\<close>

text \<open>The labels in the order the map is ranged over.\<close>

definition labelCond :: "string \<Rightarrow> string \<Rightarrow> string" where
  "labelCond i j = ''(labels::jsonb @> jsonb_build_object($'' @ i @ '', $'' @ j @ ''))''"

fun labelConds :: "int \<Rightarrow> (string \<times> string) list \<Rightarrow> string list go" where
  "labelConds idx [] = Ok []"
| "labelConds idx ((k, v) # kvs) =
     (case itoa idx of Panic m \<Rightarrow> Panic m | Err e \<Rightarrow> Err e | Ok i \<Rightarrow>
      (case itoa (idx + 1) of Panic m \<Rightarrow> Panic m | Err e \<Rightarrow> Err e | Ok j \<Rightarrow>
       (case labelConds (idx + 2) kvs of Panic m \<Rightarrow> Panic m | Err e \<Rightarrow> Err e | Ok cs \<Rightarrow>
        Ok (labelCond i j # cs))))"

definition labelArgs :: "(string \<times> string) list \<Rightarrow> string list" where
  "labelArgs kvs = concat (map (\<lambda>(k, v). [k, v]) kvs)"

text \<open>The statement: line breaks and tabs as in the source, then the conditions.\<close>

definition indent :: "nat \<Rightarrow> string" where
  "indent n = CHR 0x0A # replicate n (CHR 0x09)"

definition labelHead :: string where
  "labelHead =
     indent 2 @ ''WITH latest AS ('' @
     indent 3 @ ''SELECT DISTINCT ON (robot_id) robot_id, payload, captured_at'' @
     indent 3 @ ''FROM telemetry'' @
     indent 3 @ ''WHERE stream = '' @ [CHR 0x27] @ ''heartbeat'' @ [CHR 0x27] @ '' AND captured_at > now() - interval '' @ [CHR 0x27] @ ''24 hours'' @ [CHR 0x27] @
     indent 3 @ ''ORDER BY robot_id, captured_at DESC'' @
     indent 2 @ ''), parsed AS ('' @
     indent 3 @ ''SELECT robot_id, payload::jsonb -> '' @ [CHR 0x27] @ ''labels'' @ [CHR 0x27] @ '' AS labels'' @
     indent 3 @ ''FROM latest'' @
     indent 2 @ '')'' @
     indent 2 @ ''SELECT robot_id FROM parsed WHERE ''"

definition labelQuery :: "string list \<Rightarrow> string" where
  "labelQuery conds = labelHead @ joinWith '' AND '' conds @ '' ORDER BY robot_id''"

section \<open>Recent robots\<close>

text \<open>24 hours in the microseconds of the database.\<close>

definition recentWindow :: int where
  "recentWindow = 24 * 3600 * 1000000"

text \<open>\<open>collate\<close> is the sort key of the database's collation.\<close>

definition recentRobots ::
  "(string \<Rightarrow> 'k::linorder) \<Rightarrow> query_env \<Rightarrow> time \<Rightarrow> tsdb \<Rightarrow> go_error + string list" where
  "recentRobots collate e now t =
     (case q_query e of Some err \<Rightarrow> Inl err | None \<Rightarrow>
      (let hits = filter (\<lambda>r. tr_stream r = ''heartbeat'' \<and> pgTime now - recentWindow < tr_captured_at r)
             (telemetry t);
           ids = sort_key collate (remdups (map tr_robot_id hits))
       in case scanRows (q_scan e) 0 ids of Inl err \<Rightarrow> Inl err | Inr out \<Rightarrow>
          (case q_rows e of Some err \<Rightarrow> Inl err | None \<Rightarrow> Inr out)))"

definition SelectByLabels ::
  "(string \<Rightarrow> 'k::linorder) \<Rightarrow> (string \<Rightarrow> string list \<Rightarrow> go_error + string list) \<Rightarrow> query_env \<Rightarrow>
     time \<Rightarrow> (string \<times> string) list \<Rightarrow> tsdb \<Rightarrow> (string list) go" where
  "SelectByLabels collate pg e now labels t =
     (if labels = [] then
        (case recentRobots collate e now t of Inl err \<Rightarrow> Err err | Inr ids \<Rightarrow> Ok ids)
      else
        (case labelConds 1 labels of Panic m \<Rightarrow> Panic m | Err err \<Rightarrow> Err err | Ok conds \<Rightarrow>
         (case pg (labelQuery conds) (labelArgs labels) of Inl err \<Rightarrow> Err err | Inr rows \<Rightarrow>
          (case scanRows (q_scan e) 0 rows of Inl err \<Rightarrow> Err err | Inr out \<Rightarrow>
           (case q_rows e of Some err \<Rightarrow> Err err | None \<Rightarrow> Ok out)))))"

section \<open>Properties\<close>

lemma digit_0: "digit 0 = CHR ''0''"
  by code_simp

lemma itoa_showNat: "n < 10 ^ 20 \<Longrightarrow> itoa (int n) = Ok (showNat n)"
  using itoaLoop_showNat [of n 20 "[]"] digit_0 by (cases "n = 0") (simp_all add: itoa_def showNat_small)

text \<open>
  The hand-written decimal conversion agrees with \<^verbatim>\<open>%d\<close> on every number from 0 to the
  largest of 64 bits, within its buffer of 20 bytes; a negative number gives the empty string.
\<close>

theorem itoa_correct:
  assumes "in_i64 n"
  shows "itoa n = (if n < 0 then Ok '''' else Ok (showInt n))"
proof (cases "n < 0")
  case True
  then show ?thesis by (simp add: itoa_def itoaLoop_done)
next
  case False
  then obtain m where m: "n = int m" by (metis nonneg_int_cases not_less)
  have "m < 10 ^ 20" using assms m by (simp add: in_i64_def)
  then show ?thesis using itoa_showNat [of m] m by (simp add: showInt_def)
qed

theorem itoa_correct_witness: "itoa 9223372036854775807 = Ok ''9223372036854775807''"
proof -
  have 1: "in_i64 9223372036854775807" by (simp add: in_i64_def)
  have 2: "showInt 9223372036854775807 = ''9223372036854775807''" by code_simp
  from itoa_correct [OF 1] 2 show ?thesis by simp
qed

text \<open>The n-th condition's placeholders, counting from \<open>m\<close>.\<close>

lemma labelConds_conds:
  "m + 2 * length kvs < 10 ^ 19 \<Longrightarrow>
     labelConds (int m) kvs =
       Ok (map (\<lambda>k. labelCond (showNat (m + 2 * k)) (showNat (m + 2 * k + 1))) [0..<length kvs])"
proof (induction kvs arbitrary: m)
  case Nil
  then show ?case by simp
next
  case (Cons kv kvs)
  obtain k v where kv: "kv = (k, v)" by fastforce
  have 1: "itoa (int m) = Ok (showNat m)" "itoa (int m + 1) = Ok (showNat (m + 1))"
    using itoa_showNat [of m] itoa_showNat [of "m + 1"] Cons.prems by (simp_all add: add.commute)
  have 2: "labelConds (int m + 2) kvs =
      Ok (map (\<lambda>k. labelCond (showNat (m + 2 + 2 * k)) (showNat (m + 2 + 2 * k + 1))) [0..<length kvs])"
    using Cons.IH [of "m + 2"] Cons.prems by (simp add: add.commute)
  have "[0..<length (kv # kvs)] = 0 # map Suc [0..<length kvs]"
    by (simp add: upt_conv_Cons map_Suc_upt del: upt_Suc)
  then show ?case using 1 2 by (simp add: kv algebra_simps)
qed

lemma labelArgs_nth:
  "k < length kvs \<Longrightarrow> labelArgs kvs ! (2 * k) = fst (kvs ! k) \<and> labelArgs kvs ! (2 * k + 1) = snd (kvs ! k) \<and>
     length (labelArgs kvs) = 2 * length kvs"
proof (induction kvs arbitrary: k)
  case (Cons kv kvs)
  have "length (labelArgs kvs) = 2 * length kvs" by (induction kvs) (auto simp: labelArgs_def)
  with Cons show ?case by (cases k) (auto simp: labelArgs_def split: prod.split)
qed simp

text \<open>
  The label query has one condition per label, and the placeholders of the k-th condition are the
  positions, counted from 1, at which the label's key and value are passed: no placeholder is
  missing, none is used twice.
\<close>

theorem label_placeholders:
  assumes "length kvs < 10 ^ 18"
  shows "\<exists>conds. labelConds 1 kvs = Ok conds \<and> length conds = length kvs \<and>
    length (labelArgs kvs) = 2 * length kvs \<and>
    (\<forall>k < length kvs. conds ! k = labelCond (showNat (2 * k + 1)) (showNat (2 * k + 2)) \<and>
      labelArgs kvs ! (2 * k + 1 - 1) = fst (kvs ! k) \<and> labelArgs kvs ! (2 * k + 2 - 1) = snd (kvs ! k))"
proof -
  have "labelConds 1 kvs =
      Ok (map (\<lambda>k. labelCond (showNat (2 * k + 1)) (showNat (2 * k + 2))) [0..<length kvs])"
    using labelConds_conds [of 1 kvs] assms by simp
  moreover have "length (labelArgs kvs) = 2 * length kvs" by (induction kvs) (auto simp: labelArgs_def)
  ultimately show ?thesis using labelArgs_nth [of _ kvs] by auto
qed

theorem label_placeholders_witness:
  "\<exists>conds. labelConds 1 [(''site'', ''lab''), (''hw'', ''v2'')] = Ok conds \<and>
     conds ! 1 = ''(labels::jsonb @> jsonb_build_object($3, $4))''"
proof -
  have 1: "length [(''site'', ''lab''), (''hw'', ''v2'')] < 10 ^ 18" by simp
  have 2: "labelCond (showNat (2 * 1 + 1)) (showNat (2 * 1 + 2)) = ''(labels::jsonb @> jsonb_build_object($3, $4))''"
    by code_simp
  from label_placeholders [OF 1] 2 show ?thesis by fastforce
qed

lemma recentRobots_ids:
  assumes "recentRobots collate e now t = Inr ids"
  shows "distinct ids \<and> set ids = {tr_robot_id r | r. r \<in> set (telemetry t) \<and>
    tr_stream r = ''heartbeat'' \<and> pgTime now - recentWindow < tr_captured_at r}"
proof -
  have "ids = sort_key collate (remdups (map tr_robot_id (filter (\<lambda>r. tr_stream r = ''heartbeat'' \<and>
      pgTime now - recentWindow < tr_captured_at r) (telemetry t))))"
    using assms by (auto simp: recentRobots_def Let_def split: option.splits sum.splits dest!: scanRows_Inr)
  then show ?thesis by (auto simp: distinct_sort)
qed

lemmas recentRobots_set = recentRobots_ids [THEN conjunct2]

text \<open>
  Without labels the cohort is exactly the robots with a heartbeat in the last 24 hours, each
  once.
\<close>

theorem recentRobots_exact:
  assumes "recentRobots collate e now t = Inr ids"
  shows "distinct ids \<and> set ids = {tr_robot_id r | r. r \<in> set (telemetry t) \<and>
    tr_stream r = ''heartbeat'' \<and> pgTime now - recentWindow < tr_captured_at r}"
  using recentRobots_ids [OF assms] .

theorem recentRobots_exact_witness:
  "\<exists>ids. recentRobots length query_fine (1000 * second)
     (snd (InsertSample demoDbEnv ''r1'' ''heartbeat'' (999 * second) ''{}'' '''' emptyDb)) = Inr ids \<and>
     distinct ids \<and> ids = [''r1'']"
proof -
  have 1: "recentRobots length query_fine (1000 * second)
     (snd (InsertSample demoDbEnv ''r1'' ''heartbeat'' (999 * second) ''{}'' '''' emptyDb)) = Inr [''r1'']"
    by code_simp
  from recentRobots_exact [OF 1] 1 show ?thesis by blast
qed

end
