(* ===== verification/Ingest.thy ===== *)
theory Ingest
  imports Store Topics Fleet
begin

text \<open>
  The telemetry ingest worker, \<^verbatim>\<open>cloud/cmd/telemetry-ingest/main.go\<close>: its message handler on the
  database.  The state is the database and the counter of inserted rows.
\<close>

record ingest =
  in_db :: tsdb
  in_inserted :: nat

text \<open>The handler; the flag says whether it acknowledges the message.\<close>

definition ingestHandler :: "db_env \<Rightarrow> string \<Rightarrow> bytes \<Rightarrow> ingest \<Rightarrow> bool \<times> ingest" where
  "ingestHandler e topic payload st =
     (case parseTopic topic of (robotID, stream, ok) \<Rightarrow>
       (if \<not> ok then (False, st)
        else case InsertSample e robotID stream (dbe_now e) payload '''' (in_db st) of
          (Some err, t) \<Rightarrow> (False, st\<lparr>in_db := t\<rparr>)
        | (None, t) \<Rightarrow> (True, st\<lparr>in_db := t, in_inserted := in_inserted st + 1\<rparr>)))"

definition envOr :: "(string \<Rightarrow> string) \<Rightarrow> string \<Rightarrow> string \<Rightarrow> string" where
  "envOr getenv k def = (if getenv k \<noteq> '''' then getenv k else def)"

section \<open>Properties\<close>

definition ingestRow :: "string \<Rightarrow> string \<Rightarrow> time \<Rightarrow> bytes \<Rightarrow> telemetryRow" where
  "ingestRow robot stream now payload = \<lparr>tr_robot_id = robot, tr_stream = stream,
     tr_captured_at = pgTime now, tr_payload = payload, tr_schema = ''''\<rparr>"

lemma ingestHandler_insert:
  assumes "parseTopic topic = (robot, stream, True)"
  shows "ingestHandler e topic payload st =
    (if dbe_fault e = None \<and> (robot, stream, pgTime (dbe_now e)) \<notin> telemetryKey ` set (telemetry (in_db st))
     then (True, st\<lparr>in_db := (in_db st)\<lparr>telemetry := telemetry (in_db st) @ [ingestRow robot stream (dbe_now e) payload]\<rparr>,
       in_inserted := in_inserted st + 1\<rparr>)
     else (False, st))"
  using assms
  by (auto simp: ingestHandler_def InsertSample_def ingestRow_def telemetryKey_def Let_def
      split: option.splits)

text \<open>
  C39: the handler acknowledges a message on a telemetry topic of the agent exactly when it stored it, once,
  under the robot and the stream of its topic; a message that cannot be stored, or whose topic has
  another shape, changes nothing.
\<close>

theorem ingest_acks_stored:
  assumes "slashFree robot" and "slashFree stream"
  shows "case ingestHandler e (tlmTopic robot stream) payload st of
      (True, st') \<Rightarrow> telemetry (in_db st') =
          telemetry (in_db st) @ [ingestRow robot stream (dbe_now e) payload] \<and>
        in_inserted st' = in_inserted st + 1
    | (False, st') \<Rightarrow> st' = st \<and> (dbe_fault e \<noteq> None \<or>
        (robot, stream, pgTime (dbe_now e)) \<in> telemetryKey ` set (telemetry (in_db st)))"
  using ingestHandler_insert [OF parse_tlm [OF assms], of e payload st] by (auto split: bool.split)

definition demoIngest :: ingest where
  "demoIngest = \<lparr>in_db = emptyDb, in_inserted = 0\<rparr>"

theorem ingest_acks_stored_witness:
  "case ingestHandler demoDbEnv (tlmTopic ''r1'' ''odom'') ''a'' demoIngest of
      (True, st') \<Rightarrow> telemetry (in_db st') = [ingestRow ''r1'' ''odom'' 5000000 ''a'']
    | (False, st') \<Rightarrow> False"
proof -
  have 1: "slashFree ''r1''" "slashFree ''odom''" by (simp_all add: slashFree_def)
  have 2: "fst (ingestHandler demoDbEnv (tlmTopic ''r1'' ''odom'') ''a'' demoIngest)" by code_simp
  from ingest_acks_stored [OF 1, where e = demoDbEnv and payload = "''a''" and st = demoIngest] 2 show ?thesis
    by (auto simp: demoIngest_def emptyDb_def demoDbEnv_def split: prod.splits bool.splits)
qed

text \<open>
  The row is keyed by the time of arrival, not of capture: of two samples of one stream that
  arrive within a microsecond, the second is neither stored nor acknowledged, whatever it holds.
\<close>

theorem ingest_drops_same_microsecond:
  assumes "slashFree robot" and "slashFree stream" and "fst (ingestHandler e (tlmTopic robot stream) p1 st)"
    and "pgTime (dbe_now e') = pgTime (dbe_now e)"
  shows "ingestHandler e' (tlmTopic robot stream) p2 (snd (ingestHandler e (tlmTopic robot stream) p1 st)) =
    (False, snd (ingestHandler e (tlmTopic robot stream) p1 st))"
  using ingestHandler_insert [OF parse_tlm [OF assms(1,2)]] assms(3,4)
  by (auto simp: ingestRow_def telemetryKey_def split: if_splits)

theorem ingest_drops_same_microsecond_witness:
  "fst (ingestHandler (demoDbEnv\<lparr>dbe_now := 5000999\<rparr>) (tlmTopic ''r1'' ''odom'') ''b''
     (snd (ingestHandler demoDbEnv (tlmTopic ''r1'' ''odom'') ''a'' demoIngest))) = False"
proof -
  have 1: "slashFree ''r1''" "slashFree ''odom''" by (simp_all add: slashFree_def)
  have 2: "fst (ingestHandler demoDbEnv (tlmTopic ''r1'' ''odom'') ''a'' demoIngest)" by code_simp
  have 3: "pgTime (dbe_now (demoDbEnv\<lparr>dbe_now := 5000999\<rparr>)) = pgTime (dbe_now demoDbEnv)" by code_simp
  from ingest_drops_same_microsecond [OF 1 2 3] show ?thesis by simp
qed

text \<open>
  A heartbeat that was ingested makes its robot part of the label-free cohort for the next 24
  hours.
\<close>

theorem heartbeat_joins_cohort:
  assumes "slashFree robot" and "fst (ingestHandler e (hbTopic robot) payload st)"
    and "recentRobots collate q now (in_db (snd (ingestHandler e (hbTopic robot) payload st))) = Inr ids"
    and "pgTime now - recentWindow < pgTime (dbe_now e)"
  shows "robot \<in> set ids"
proof -
  have "ingestRow robot ''heartbeat'' (dbe_now e) payload \<in>
      set (telemetry (in_db (snd (ingestHandler e (hbTopic robot) payload st))))"
    using ingestHandler_insert [OF parse_hb [OF assms(1)], of e payload st] assms(2) by (auto split: if_splits)
  then show ?thesis
    unfolding recentRobots_set [OF assms(3)] using assms(4) by (force simp: ingestRow_def)
qed

theorem heartbeat_joins_cohort_witness:
  "\<exists>ids. recentRobots length query_fine (1000 * second) (in_db (snd (ingestHandler demoDbEnv (hbTopic ''r1'') ''{}'' demoIngest))) = Inr ids \<and>
     ''r1'' \<in> set ids"
proof -
  have 1: "slashFree ''r1''" by (simp add: slashFree_def)
  have 2: "fst (ingestHandler demoDbEnv (hbTopic ''r1'') ''{}'' demoIngest)" by code_simp
  have 3: "recentRobots length query_fine (1000 * second) (in_db (snd (ingestHandler demoDbEnv (hbTopic ''r1'') ''{}'' demoIngest))) = Inr [''r1'']"
    by code_simp
  have 4: "pgTime (1000 * second) - recentWindow < pgTime (dbe_now demoDbEnv)" by code_simp
  from heartbeat_joins_cohort [OF 1 2 3 4] 3 show ?thesis by blast
qed

end
