(* ===== verification/Collision.thy ===== *)
theory Collision
  imports CloudOta
begin

text \<open>
  The collision response, \<^verbatim>\<open>cloud/internal/collision\<close>: the MQTT bridge that starts a workflow
  per event, the workflow's six manoeuvres, and the activity that repeats a twist until its time is
  over.  Velocities are rational numbers where the source has \<^verbatim>\<open>float64\<close>.
\<close>

section \<open>Types\<close>

record collisionInput =
  ci_RobotID :: string
  ci_Partner :: string
  ci_At :: int

record sendTwistArgs =
  tw_RobotID :: string
  tw_LinearX :: rat
  tw_AngularZ :: rat
  tw_Duration :: duration

section \<open>The twist activity\<close>

definition twistBody :: "rat \<Rightarrow> rat \<Rightarrow> json" where
  "twistBody x z = JObj [(''angular_z'', JNum z), (''linear_x'', JNum x)]"

text \<open>
  One turn of the loop: how the publish ends, whether the duration is over after it, and whether
  the context is done (with its error) before the next tick.
\<close>

record twist_turn =
  tt_tok :: token
  tt_over :: bool
  tt_done :: "go_error option"

datatype twist_end = Turning | TwistError go_error | DurationOver

fun twistLoop :: "string \<Rightarrow> json \<Rightarrow> twist_turn list \<Rightarrow> twist_end \<times> message list" where
  "twistLoop topic body [] = (Turning, [])"
| "twistLoop topic body (t # ts) =
     (case tt_tok t of
        Pending \<Rightarrow> (TwistError (GoError (''mqtt publish timeout for '' @ topic)), [(topic, 0, body)])
      | Completed (Some err) \<Rightarrow> (TwistError err, [(topic, 0, body)])
      | Completed None \<Rightarrow>
          (if tt_over t then (DurationOver, [(topic, 0, body)])
           else case tt_done t of
             Some err \<Rightarrow> (TwistError err, [(topic, 0, body)])
           | None \<Rightarrow> (case twistLoop topic body ts of (r, ms) \<Rightarrow> (r, (topic, 0, body) # ms))))"

text \<open>
  The whole activity on the messages published so far.  \<open>Turning\<close> (the turns given do not end the
  loop) is the server's timeout of the attempt.
\<close>

definition attemptTimeout :: go_error where
  "attemptTimeout = GoError ''activity StartToClose timeout''"

record twist_env =
  te_turns :: "twist_turn list"
  te_stop :: token

definition SendTwist ::
  "sendTwistArgs \<Rightarrow> twist_env \<Rightarrow> message list \<Rightarrow> (go_error + unit) \<times> message list" where
  "SendTwist args e out =
     (let topic = twistTopic (tw_RobotID args);
          body = twistBody (tw_LinearX args) (tw_AngularZ args);
          stop = twistBody 0 0 in
      case twistLoop topic body (te_turns e) of
        (Turning, ms) \<Rightarrow> (Inl attemptTimeout, out @ ms)
      | (TwistError err, ms) \<Rightarrow> (Inl err, out @ ms)
      | (DurationOver, ms) \<Rightarrow>
          ((case tokenError (te_stop e) of Some err \<Rightarrow> Inl err | None \<Rightarrow> Inr ()),
           out @ ms @ [(topic, 1, stop)]))"

section \<open>The workflow\<close>

definition collisionSteps :: "collisionInput \<Rightarrow> sendTwistArgs list" where
  "collisionSteps inp =
     [\<lparr>tw_RobotID = ci_RobotID inp, tw_LinearX = - (3 / 10), tw_AngularZ = 0, tw_Duration = 3 * second\<rparr>,
      \<lparr>tw_RobotID = ci_RobotID inp, tw_LinearX = 0, tw_AngularZ = 0, tw_Duration = 500 * millisecond\<rparr>,
      \<lparr>tw_RobotID = ci_RobotID inp, tw_LinearX = 0, tw_AngularZ = - (1 / 2), tw_Duration = 3140 * millisecond\<rparr>,
      \<lparr>tw_RobotID = ci_RobotID inp, tw_LinearX = 0, tw_AngularZ = 0, tw_Duration = 500 * millisecond\<rparr>,
      \<lparr>tw_RobotID = ci_RobotID inp, tw_LinearX = 4 / 10, tw_AngularZ = 0, tw_Duration = 5 * second\<rparr>,
      \<lparr>tw_RobotID = ci_RobotID inp, tw_LinearX = 0, tw_AngularZ = 0, tw_Duration = 200 * millisecond\<rparr>]"

text \<open>Each step has the attempts of its activity; three are made at most.\<close>

fun runSteps ::
  "sendTwistArgs list \<Rightarrow> twist_env list list \<Rightarrow> message list \<Rightarrow> go_error option \<times> message list" where
  "runSteps [] es out = (None, out)"
| "runSteps (s # ss) es out =
     (case executeActivity 3 (SendTwist s) (case es of [] \<Rightarrow> [] | e # _ \<Rightarrow> e) out of
        (Inl err, out') \<Rightarrow> (Some err, out')
      | (Inr u, out') \<Rightarrow> runSteps ss (tl es) out')"

definition CollisionResponse ::
  "collisionInput \<Rightarrow> twist_env list list \<Rightarrow> message list \<Rightarrow> go_error option \<times> message list" where
  "CollisionResponse inp es out = runSteps (collisionSteps inp) es out"

section \<open>The bridge\<close>

text \<open>
  An event's fields keep what was decoded before an error, which is ignored.  The conversion of
  \<^verbatim>\<open>at\<close> to an integer drops the fraction.
\<close>

definition eventMembers :: "body \<Rightarrow> (string \<times> json) list" where
  "eventMembers b = (case members b of Inl err \<Rightarrow> [] | Inr kvs \<Rightarrow> kvs)"

definition truncRat :: "rat \<Rightarrow> int" where
  "truncRat r = (if 0 \<le> r then \<lfloor>r\<rfloor> else \<lceil>r\<rceil>)"

definition collisionOnMessage :: "time \<Rightarrow> string \<Rightarrow> body \<Rightarrow> (string \<times> collisionInput) option" where
  "collisionOnMessage now topic payload =
     (case collisionTopicRobot topic of None \<Rightarrow> None | Some robotID \<Rightarrow>
      (let kvs = eventMembers payload;
           evRobot = snd (decodeField asStr '''' ''robot_id'' kvs);
           robot = (if evRobot = '''' then robotID else evRobot)
       in Some (''collision-'' @ robot @ ''-'' @ showInt (i64 now),
            \<lparr>ci_RobotID = robot, ci_Partner = snd (decodeField asStr '''' ''partner'' kvs),
             ci_At = truncRat (snd (decodeField asNum 0 ''at'' kvs))\<rparr>)))"

section \<open>Properties\<close>

lemma twistLoop_messages: "set (snd (twistLoop topic body ts)) \<subseteq> {(topic, 0, body)}"
  by (induction topic body ts rule: twistLoop.induct)
    (auto split: token.splits option.splits prod.splits if_splits)

lemma twistLoop_over: "fst (twistLoop topic body ts) = DurationOver \<Longrightarrow> snd (twistLoop topic body ts) \<noteq> []"
  by (cases ts) (auto split: token.splits option.splits prod.splits if_splits)

lemma SendTwist_cases:
  "\<exists>ms. snd (SendTwist args e out) = out @ ms \<and>
    (if fst (twistLoop (twistTopic (tw_RobotID args)) (twistBody (tw_LinearX args) (tw_AngularZ args)) (te_turns e)) = DurationOver
     then ms \<noteq> [] \<and> last ms = (twistTopic (tw_RobotID args), 1, twistBody 0 0) \<and>
       set (butlast ms) \<subseteq> {(twistTopic (tw_RobotID args), 0, twistBody (tw_LinearX args) (tw_AngularZ args))}
     else fst (SendTwist args e out) \<noteq> Inr () \<and>
       set ms \<subseteq> {(twistTopic (tw_RobotID args), 0, twistBody (tw_LinearX args) (tw_AngularZ args))})"
proof -
  let ?l = "twistLoop (twistTopic (tw_RobotID args)) (twistBody (tw_LinearX args) (tw_AngularZ args)) (te_turns e)"
  have "set (snd ?l) \<subseteq> {(twistTopic (tw_RobotID args), 0, twistBody (tw_LinearX args) (tw_AngularZ args))}"
    by (rule twistLoop_messages)
  then show ?thesis
    by (cases ?l; cases "fst ?l") (auto simp: SendTwist_def Let_def)
qed

text \<open>
  The twist activity speaks to its robot only; if it succeeds, its last message is the stop
  frame, at QoS 1; if it fails inside the loop, it has sent motion frames only and no stop frame.
\<close>

theorem SendTwist_stops:
  "\<exists>ms. snd (SendTwist args e out) = out @ ms \<and>
    (if fst (twistLoop (twistTopic (tw_RobotID args)) (twistBody (tw_LinearX args) (tw_AngularZ args)) (te_turns e)) = DurationOver
     then ms \<noteq> [] \<and> last ms = (twistTopic (tw_RobotID args), 1, twistBody 0 0) \<and>
       set (butlast ms) \<subseteq> {(twistTopic (tw_RobotID args), 0, twistBody (tw_LinearX args) (tw_AngularZ args))}
     else fst (SendTwist args e out) \<noteq> Inr () \<and>
       set ms \<subseteq> {(twistTopic (tw_RobotID args), 0, twistBody (tw_LinearX args) (tw_AngularZ args))})"
  by (rule SendTwist_cases)

lemma SendTwist_success:
  assumes "SendTwist args e out = (Inr u, out')"
  shows "out' \<noteq> [] \<and> last out' = (twistTopic (tw_RobotID args), 1, twistBody 0 0)"
  using SendTwist_cases [of args e out] assms by (auto split: if_splits)

lemma activity_success:
  "executeActivity n (SendTwist args) es out = (Inr u, out') \<Longrightarrow>
     out' \<noteq> [] \<and> last out' = (twistTopic (tw_RobotID args), 1, twistBody 0 0)"
proof (induction n "SendTwist args" es out rule: executeActivity.induct)
  case (2 n e es out)
  then show ?case
    using SendTwist_success [of args e out]
    by (cases "SendTwist args e out"; cases "fst (SendTwist args e out)") (auto split: if_splits)
qed simp

lemma runSteps_success:
  "runSteps ss es out = (None, out') \<Longrightarrow> ss \<noteq> [] \<Longrightarrow>
     out' \<noteq> [] \<and> last out' = (twistTopic (tw_RobotID (last ss)), 1, twistBody 0 0)"
proof (induction ss es out rule: runSteps.induct)
  case (2 s ss es out)
  obtain r out1 where x: "executeActivity 3 (SendTwist s) (case es of [] \<Rightarrow> [] | e # _ \<Rightarrow> e) out = (r, out1)"
    by fastforce
  with 2 obtain u where r: "r = Inr u" by (cases r) auto
  show ?case
  proof (cases "ss = []")
    case True
    then show ?thesis using activity_success [OF x [unfolded r]] "2.prems" x r by simp
  next
    case False
    then show ?thesis using "2.IH" [OF x [symmetric] r] "2.prems" x r by simp
  qed
qed simp

text \<open>
  C38: a collision response that completes leaves the robot with a stop frame as its last command.
\<close>

theorem response_ends_stopped:
  assumes "CollisionResponse inp es out = (None, out')"
  shows "out' \<noteq> [] \<and> last out' = (twistTopic (ci_RobotID inp), 1, twistBody 0 0)"
  using runSteps_success [OF assms [unfolded CollisionResponse_def]] by (simp add: collisionSteps_def)

definition demoTurns :: twist_env where
  "demoTurns = \<lparr>te_turns = [\<lparr>tt_tok = Completed None, tt_over = False, tt_done = None\<rparr>,
     \<lparr>tt_tok = Completed None, tt_over = True, tt_done = None\<rparr>], te_stop = Completed None\<rparr>"

definition demoCollision :: collisionInput where
  "demoCollision = \<lparr>ci_RobotID = ''r1'', ci_Partner = ''wall'', ci_At = 7\<rparr>"

theorem response_ends_stopped_witness:
  "last (snd (CollisionResponse demoCollision (replicate 6 [demoTurns]) [])) = (''cmd/r1/twist'', 1, twistBody 0 0)"
proof -
  have "fst (CollisionResponse demoCollision (replicate 6 [demoTurns]) []) = None" by code_simp
  then have 1: "CollisionResponse demoCollision (replicate 6 [demoTurns]) [] =
      (None, snd (CollisionResponse demoCollision (replicate 6 [demoTurns]) []))" by (simp add: prod_eq_iff)
  have 2: "twistTopic (ci_RobotID demoCollision) = ''cmd/r1/twist''" by code_simp
  from response_ends_stopped [OF 1] show ?thesis by (simp add: 2)
qed

text \<open>
  The robot that is moved is the one the event's payload names, not the one whose topic it came
  on: a robot can have another one moved.
\<close>

theorem event_moves_named_robot:
  assumes "slashFree sender" and "victim \<noteq> ''''"
  shows "\<exists>wfID inp. collisionOnMessage now (collisionTopic sender)
      (Some (JObj [(''robot_id'', JStr victim)])) = Some (wfID, inp) \<and> ci_RobotID inp = victim \<and>
    (\<forall>s \<in> set (collisionSteps inp). tw_RobotID s = victim)"
proof -
  have "decodeField asStr '''' ''robot_id'' [(''robot_id'', JStr victim)] = (False, victim)"
    unfolding decodeField_def decodeFrom_Cons decodeFrom.simps(1) lower_tags by simp
  then show ?thesis
    using assms by (simp add: collisionOnMessage_def parse_collision eventMembers_def Let_def collisionSteps_def)
qed

theorem event_moves_named_robot_witness:
  "\<exists>wfID inp. collisionOnMessage 9 (collisionTopic ''r1'') (Some (JObj [(''robot_id'', JStr ''r2'')])) = Some (wfID, inp) \<and>
     ci_RobotID inp = ''r2''"
proof -
  have 1: "slashFree ''r1''" by (simp add: slashFree_def)
  from event_moves_named_robot [OF 1, of "''r2''" 9] show ?thesis by auto
qed

end
