(* ===== verification/Api.thy ===== *)
theory Api
  imports Rollout Fleet
begin

text \<open>
  The control plane's HTTP API, \<^verbatim>\<open>cloud/internal/api/router.go\<close> and
  \<^verbatim>\<open>cloud/internal/api/ota_routes.go\<close>: the routes, and each handler as a function from what it
  reads of the request and what its calls return to a status code and a reply.
\<close>

section \<open>Replies\<close>

datatype 'a reply = NoBody | ErrorText string | Value 'a

record 'a response =
  rsp_code :: int
  rsp_reply :: "'a reply"

definition httpError :: "string \<Rightarrow> int \<Rightarrow> 'a response" where
  "httpError text code = \<lparr>rsp_code = code, rsp_reply = ErrorText text\<rparr>"

definition writeJSON :: "int \<Rightarrow> 'a \<Rightarrow> 'a response" where
  "writeJSON code v = \<lparr>rsp_code = code, rsp_reply = Value v\<rparr>"

section \<open>Routes\<close>

datatype route =
    Healthz | ListRobotsRoute | TelemetryRoute string | StartRollout | ListRolloutsRoute
  | GetRolloutRoute string | AbortRollout string

text \<open>
  The pattern that matches a method and a path, where a wildcard matches one segment and
  \<^verbatim>\<open>GET\<close> matches \<^verbatim>\<open>HEAD\<close> too; the OTA routes exist only with a Temporal client.
\<close>

definition isGet :: "string \<Rightarrow> bool" where
  "isGet m \<longleftrightarrow> m = ''GET'' \<or> m = ''HEAD''"

definition routeOf :: "bool \<Rightarrow> string \<Rightarrow> string \<Rightarrow> route option" where
  "routeOf ota m path =
     (let segs = splitOn CHR ''/'' path in
      if segs = [[], ''healthz''] \<and> isGet m then Some Healthz
      else if segs = [[], ''v1'', ''robots''] \<and> isGet m then Some ListRobotsRoute
      else if length segs = 5 \<and> take 3 segs = [[], ''v1'', ''robots''] \<and> segs ! 4 = ''telemetry'' \<and> isGet m
        then Some (TelemetryRoute (segs ! 3))
      else if \<not> ota then None
      else if segs = [[], ''v1'', ''ota'', ''rollouts''] \<and> m = ''POST'' then Some StartRollout
      else if segs = [[], ''v1'', ''ota'', ''rollouts''] \<and> isGet m then Some ListRolloutsRoute
      else if length segs = 5 \<and> take 4 segs = [[], ''v1'', ''ota'', ''rollouts''] \<and> isGet m
        then Some (GetRolloutRoute (segs ! 4))
      else if length segs = 6 \<and> take 4 segs = [[], ''v1'', ''ota'', ''rollouts''] \<and> segs ! 5 = ''abort'' \<and> m = ''POST''
        then Some (AbortRollout (segs ! 4))
      else None)"

section \<open>Reading handlers\<close>

definition listRobots :: "query_env \<Rightarrow> tsdb \<Rightarrow> robotRow list response" where
  "listRobots e t =
     (case ListRobots e t of Inl err \<Rightarrow> httpError (error_text err) 500 | Inr rows \<Rightarrow> writeJSON 200 rows)"

text \<open>\<^verbatim>\<open>strconv.Atoi\<close>: 0 for text that is no number, the nearest 64-bit value out of range.\<close>

definition isDigit :: "char \<Rightarrow> bool" where
  "isDigit c \<longleftrightarrow> 48 \<le> (of_char c :: nat) \<and> (of_char c :: nat) \<le> 57"

definition clamp64 :: "int \<Rightarrow> int" where
  "clamp64 n = max (- (2 ^ 63)) (min (2 ^ 63 - 1) n)"

definition atoi :: "string \<Rightarrow> int" where
  "atoi s =
     (let neg = (s \<noteq> '''' \<and> hd s = CHR ''-'');
          ds = (if s \<noteq> '''' \<and> (hd s = CHR ''-'' \<or> hd s = CHR ''+'') then tl s else s) in
      if ds = '''' \<or> \<not> list_all isDigit ds then 0
      else clamp64 (if neg then - int (readNat ds) else int (readNat ds)))"

definition limitParam :: "string \<Rightarrow> int" where
  "limitParam s = (let limit = atoi s in if limit \<le> 0 \<or> limit > 1000 then 100 else limit)"

definition sinceParam :: "(string \<Rightarrow> time option) \<Rightarrow> time \<Rightarrow> string \<Rightarrow> time" where
  "sinceParam parseTime now s =
     (if s \<noteq> '''' then (case parseTime s of Some t \<Rightarrow> t | None \<Rightarrow> now - hour) else now - hour)"

definition recentTelemetry ::
  "(string \<Rightarrow> time option) \<Rightarrow> time \<Rightarrow> string \<Rightarrow> (string \<Rightarrow> string) \<Rightarrow> query_env \<Rightarrow> tsdb \<Rightarrow>
     telemetryRow list response" where
  "recentTelemetry parseTime now robot query e t =
     (case RecentTelemetry e robot (query ''stream'') (sinceParam parseTime now (query ''since''))
             (limitParam (query ''limit'')) t of
        Inl err \<Rightarrow> httpError (error_text err) 500
      | Inr rows \<Rightarrow> writeJSON 200 rows)"

definition listRollouts :: "query_env \<Rightarrow> tsdb \<Rightarrow> rolloutSummary list response" where
  "listRollouts e t =
     (case ListRollouts e 50 t of Inl err \<Rightarrow> httpError (error_text err) 500 | Inr rows \<Rightarrow> writeJSON 200 rows)"

definition getRollout :: "go_error option \<Rightarrow> string \<Rightarrow> tsdb \<Rightarrow> rolloutSummary response" where
  "getRollout fault i t =
     (case GetRollout fault i t of Inl err \<Rightarrow> httpError (error_text err) 404 | Inr row \<Rightarrow> writeJSON 200 row)"

definition abortRollout :: "go_error option \<Rightarrow> unit response" where
  "abortRollout cancelled =
     (case cancelled of Some err \<Rightarrow> httpError (error_text err) 500
      | None \<Rightarrow> \<lparr>rsp_code = 202, rsp_reply = NoBody\<rparr>)"

section \<open>Starting a rollout\<close>

text \<open>The spec as JSON; a nested field decodes like a top-level one.\<close>

fun asStrings :: "json list \<Rightarrow> string list option" where
  "asStrings [] = Some []"
| "asStrings (j # js) =
     (case (if j = JNull then Some '''' else asStr j) of None \<Rightarrow> None | Some s \<Rightarrow>
      (case asStrings js of None \<Rightarrow> None | Some ss \<Rightarrow> Some (s # ss)))"

fun asStrList :: "json \<Rightarrow> string list option" where
  "asStrList (JArr js) = asStrings js"
| "asStrList _ = None"

fun asStrMap :: "json \<Rightarrow> (string \<times> string) list option" where
  "asStrMap (JObj kvs) = map_option (zip (map fst kvs)) (asStrings (map snd kvs))"
| "asStrMap _ = None"

fun asCohort :: "json \<Rightarrow> cohortFilter option" where
  "asCohort (JObj kvs) =
     (let (b1, ids) = decodeField asStrList [] ''robot_ids'' kvs;
          (b2, labels) = decodeField asStrMap [] ''labels'' kvs
      in if b1 \<or> b2 then None else Some \<lparr>RobotIDs = ids, Labels = labels\<rparr>)"
| "asCohort _ = None"

definition decodeSpec :: "body \<Rightarrow> go_error + rolloutSpec" where
  "decodeSpec body =
     (case members body of Inl err \<Rightarrow> Inl err | Inr kvs \<Rightarrow>
       (let (b1, ref) = decodeField asStr '''' ''image_ref'' kvs;
            (b2, digest) = decodeField asStr '''' ''image_digest'' kvs;
            (b3, cohort) = decodeField asCohort \<lparr>RobotIDs = [], Labels = []\<rparr> ''cohort_selector'' kvs;
            (b4, canary) = decodeField asInt 0 ''canary_size'' kvs;
            (b5, percent) = decodeField asInt 0 ''batch_percent'' kvs;
            (b6, budget) = decodeField asInt 0 ''failure_budget'' kvs;
            (b7, smoke) = decodeField asInt 0 ''smoke_timeout'' kvs;
            (b8, command) = decodeField asStr '''' ''smoke_command'' kvs;
            (b9, pull) = decodeField asInt 0 ''pull_timeout'' kvs;
            (b10, swap) = decodeField asInt 0 ''swap_timeout'' kvs;
            (b11, force) = decodeField asBool False ''force'' kvs
        in if b1 \<or> b2 \<or> b3 \<or> b4 \<or> b5 \<or> b6 \<or> b7 \<or> b8 \<or> b9 \<or> b10 \<or> b11 then Inl type_error
           else Inr \<lparr>ImageRef = ref, ImageDigest = digest, CohortSelector = cohort, CanarySize = canary,
             BatchPercent = percent, FailureBudget = budget, SmokeTimeout = smoke, SmokeCommand = command,
             PullTimeout = pull, SwapTimeout = swap, Force = force\<rparr>))"

definition randHex :: "bytes \<Rightarrow> string" where
  "randHex b = concat (map hexByte b)"

text \<open>
  The handler: the workflow it starts (its ID and input) when it gets so far, and the reply.
  \<open>random\<close> is what \<^verbatim>\<open>rand.Read\<close> put in the eight bytes, \<open>started\<close> the outcome of
  \<^verbatim>\<open>ExecuteWorkflow\<close>.
\<close>

definition startRollout ::
  "bytes \<Rightarrow> go_error option \<Rightarrow> body \<Rightarrow> (string \<times> rolloutSpec) option \<times> string response" where
  "startRollout random started body =
     (case decodeSpec body of
        Inl err \<Rightarrow> (None, httpError (''bad json: '' @ error_text err) 400)
      | Inr spec \<Rightarrow>
          (if ImageRef spec = '''' then (None, httpError ''image_ref required'' 400)
           else
             let i = ''rollout-'' @ randHex random in
             (Some (i, spec),
              case started of Some err \<Rightarrow> httpError (error_text err) 500 | None \<Rightarrow> writeJSON 202 i)))"

section \<open>Properties\<close>

lemma limitParam_bounds: "1 \<le> limitParam s \<and> limitParam s \<le> 1000"
  by (simp add: limitParam_def Let_def)

text \<open>
  Whatever the query says, the telemetry handler asks for 1 to 1000 rows, so the limit never
  makes the query fail: it answers 500 only for a fault of the database, and never sends more than
  1000 rows.
\<close>

theorem telemetry_limit_safe:
  "(case rsp_reply (recentTelemetry parseTime now robot query query_fine t) of
      Value rows \<Rightarrow> rsp_code (recentTelemetry parseTime now robot query query_fine t) = 200 \<and> length rows \<le> 1000
    | _ \<Rightarrow> False) \<and>
   1 \<le> limitParam (query ''limit'') \<and> limitParam (query ''limit'') \<le> 1000"
  using limitParam_bounds [of "query ''limit''"]
  by (auto simp: min_le_iff_disj recentTelemetry_def RecentTelemetry_def writeJSON_def query_fine_def scanRows_fine Let_def)

lemma hexDigit_value: "a < 16 \<Longrightarrow> (of_char (hexDigit a) :: nat) = (if a < 10 then 48 + a else 87 + a)"
  by (simp add: hexDigit_def digit_def of_char_of)

lemma hexDigit_inj: "a < 16 \<Longrightarrow> b < 16 \<Longrightarrow> hexDigit a = hexDigit b \<Longrightarrow> a = b"
proof -
  assume ab: "a < 16" "b < 16" "hexDigit a = hexDigit b"
  then have "(if a < 10 then 48 + a else 87 + a) = (if b < 10 then 48 + b else 87 + b)"
    using hexDigit_value [OF ab(1)] hexDigit_value [OF ab(2)] by argo
  then show "a = b" by (simp split: if_splits)
qed

lemma hexByte_inj:
  assumes "hexByte c = hexByte d"
  shows "c = d"
proof -
  have small: "(of_char x :: nat) div 16 < 16" for x
    by (simp add: less_mult_imp_div_less)
  have "(of_char c :: nat) div 16 = of_char d div 16" "(of_char c :: nat) mod 16 = of_char d mod 16"
    using assms hexDigit_inj [OF small small, of c d]
      hexDigit_inj [of "of_char c mod 16" "of_char d mod 16"] by (simp_all add: hexByte_def)
  then have "(of_char c :: nat) = of_char d" by (metis div_mult_mod_eq)
  then show ?thesis by (simp add: of_char_eq_iff)
qed

lemma randHex_length: "length (randHex b) = 2 * length b"
  by (induction b) (simp_all add: randHex_def hexByte_def)

lemma randHex_inj: "length a = length b \<Longrightarrow> randHex a = randHex b \<Longrightarrow> a = b"
proof (induction a b rule: list_induct2)
  case (Cons x xs y ys)
  have "hexByte x @ randHex xs = hexByte y @ randHex ys" using Cons.prems by (simp add: randHex_def)
  then show ?case using Cons.IH hexByte_inj [of x y] by (simp add: hexByte_def randHex_def)
qed simp

text \<open>
  C40: a rollout is accepted exactly when its body decodes, it names an image and the workflow
  service takes it; the workflow that is started then has the ID of the reply, a text of 24
  characters that differs for different random bytes.
\<close>

theorem startRollout_accepts:
  assumes "length random = 8" and "length random' = 8"
  shows "(rsp_code (snd (startRollout random started body)) = 202 \<longleftrightarrow>
      started = None \<and> (\<exists>spec. decodeSpec body = Inr spec \<and> ImageRef spec \<noteq> '''')) \<and>
    (\<forall>i. rsp_reply (snd (startRollout random started body)) = Value i \<longrightarrow>
      (\<exists>spec. fst (startRollout random started body) = Some (i, spec) \<and> decodeSpec body = Inr spec) \<and>
      length i = 24) \<and>
    (fst (startRollout random started body) \<noteq> None \<longrightarrow> random \<noteq> random' \<longrightarrow>
      map_option fst (fst (startRollout random started body)) \<noteq>
      map_option fst (fst (startRollout random' started' body)))"
proof -
  have "randHex random = randHex random' \<Longrightarrow> random = random'"
    using randHex_inj [of random random'] assms by simp
  then show ?thesis
    using assms by (auto simp: startRollout_def httpError_def writeJSON_def randHex_length Let_def
        split: sum.splits option.splits if_splits)
qed

definition demoRequest :: body where
  "demoRequest = Some (JObj [(''image_ref'', JStr ''app:2''), (''canary_size'', JNum 1),
     (''cohort_selector'', JObj [(''robot_ids'', JArr [JStr ''r1'', JStr ''r2''])])])"

theorem startRollout_accepts_witness:
  "rsp_code (snd (startRollout ''12345678'' None demoRequest)) = 202 \<and>
   fst (startRollout ''12345678'' None demoRequest) \<noteq> None"
proof -
  have 1: "length ''12345678'' = 8" "length ''12345679'' = 8" by simp_all
  have "decodeSpec demoRequest =
      Inr \<lparr>ImageRef = ''app:2'', ImageDigest = '''', CohortSelector = \<lparr>RobotIDs = [''r1'', ''r2''], Labels = []\<rparr>,
        CanarySize = 1, BatchPercent = 0, FailureBudget = 0, SmokeTimeout = 0, SmokeCommand = '''',
        PullTimeout = 0, SwapTimeout = 0, Force = False\<rparr>" by code_simp
  then have 2: "\<exists>spec. decodeSpec demoRequest = Inr spec \<and> ImageRef spec \<noteq> ''''" by simp
  have 3: "fst (startRollout ''12345678'' None demoRequest) \<noteq> None" by code_simp
  from startRollout_accepts [OF 1, of None demoRequest] 2 3 show ?thesis by blast
qed

text \<open>
  A rollout that was started is found by its ID, with the status the workflow left, and one that
  was not is answered 404; a fault of the database is answered 404 too.
\<close>

theorem getRollout_status:
  "(case rsp_reply (getRollout None i t) of
      Value row \<Rightarrow> rsp_code (getRollout None i t) = 200 \<and> rolloutStatus t i = Some (sum_Status row) \<and> sum_RolloutID row = i
    | _ \<Rightarrow> rsp_code (getRollout None i t) = 404 \<and> rolloutStatus t i = None) \<and>
   rsp_code (getRollout (Some err) i t) = 404"
proof (cases "List.find (\<lambda>r. rr_rollout_id r = i) (ota_rollouts t)")
  case None
  then show ?thesis by (simp add: getRollout_def GetRollout_def rolloutStatus_def httpError_def)
next
  case (Some r)
  then have "rr_rollout_id r = i" by (auto simp: find_Some_iff)
  with Some show ?thesis
    by (simp add: getRollout_def GetRollout_def rolloutStatus_def writeJSON_def httpError_def summary_def)
qed

end
