(* ===== verification/Workers.thy ===== *)
theory Workers
  imports Races AgentMain Ingest Collision Api
begin

text \<open>
  The programs' mains, \<^verbatim>\<open>cloud/cmd/ota-worker\<close>, \<^verbatim>\<open>cloud/cmd/collision-worker\<close>,
  \<^verbatim>\<open>cloud/cmd/telemetry-ingest\<close>, \<^verbatim>\<open>cloud/cmd/controlplane\<close> and the end of
  \<^verbatim>\<open>agent/cmd/agent/main.go\<close>: the configuration from the environment, the MQTT clients and their
  subscriptions, what is registered with the Temporal worker, and how a program ends when one of its
  parts fails.  How a connection attempt, a subscription or a server ends is an argument.
\<close>

section \<open>Configuration\<close>

definition otaTaskQueue :: string where "otaTaskQueue = ''ota''"
definition collisionTaskQueue :: string where "collisionTaskQueue = ''collision''"

definition otaWorkerOptions :: "clientOptions \<Rightarrow> string \<Rightarrow> clientOptions" where
  "otaWorkerOptions d url = d\<lparr>o_broker := url, o_clientID := ''ota-worker'',
     o_cleanSession := False, o_autoReconnect := True, o_maxReconnectInterval := 60 * second,
     o_orderMatters := False\<rparr>"

definition collisionWorkerOptions :: "clientOptions \<Rightarrow> string \<Rightarrow> clientOptions" where
  "collisionWorkerOptions d url = d\<lparr>o_broker := url, o_clientID := ''collision-worker'',
     o_cleanSession := True, o_autoReconnect := True, o_maxReconnectInterval := 60 * second,
     o_orderMatters := False\<rparr>"

definition ingestOptions :: "clientOptions \<Rightarrow> string \<Rightarrow> clientOptions" where
  "ingestOptions d url = d\<lparr>o_broker := url, o_clientID := ''telemetry-ingest'',
     o_cleanSession := False, o_autoReconnect := True, o_onConnect := [''tlm/+/+'', ''hb/+'']\<rparr>"

text \<open>The workers wait ten seconds and then take the token's error, which a pending token does not have.\<close>

definition connectMQTT :: "token \<Rightarrow> go_error option" where
  "connectMQTT tok = tokenError tok"

text \<open>\<^verbatim>\<open>OpenTimescale\<close>: making the pool, then a ping.\<close>

definition OpenTimescale :: "go_error option \<Rightarrow> go_error option \<Rightarrow> go_error option" where
  "OpenTimescale pool ping =
     (case pool of Some err \<Rightarrow> Some (errorf ''pgxpool'' err)
      | None \<Rightarrow> (case ping of Some err \<Rightarrow> Some (errorf ''ping'' err) | None \<Rightarrow> None))"

section \<open>Subscriptions of the bridges\<close>

definition ackFilter :: string where "ackFilter = ''ack/+/ota''"
definition collisionFilter :: string where "collisionFilter = ''events/+/collision''"

text \<open>
  \<^verbatim>\<open>MQTTBridge.Start\<close> until the context ends: the OTA bridge waits for its token without limit,
  the collision bridge for ten seconds.
\<close>

datatype bridge_start = Waiting | Serving | StartFailed go_error

definition otaBridgeStart :: "token \<Rightarrow> bridge_start" where
  "otaBridgeStart tok =
     (case tok of Pending \<Rightarrow> Waiting | Completed (Some err) \<Rightarrow> StartFailed err | Completed None \<Rightarrow> Serving)"

definition collisionBridgeStart :: "token \<Rightarrow> bridge_start" where
  "collisionBridgeStart tok =
     (case tok of
        Pending \<Rightarrow> StartFailed (GoError (''subscribe '' @ collisionFilter @ '': %!w(<nil>)''))
      | Completed (Some err) \<Rightarrow> StartFailed (errorf (''subscribe '' @ collisionFilter) err)
      | Completed None \<Rightarrow> Serving)"

section \<open>Mains\<close>

text \<open>
  What a worker is set up with: its task queue, the workflows and activities by the names they are
  registered under, and the state of its bridge.
\<close>

record worker =
  wk_Queue :: string
  wk_Workflows :: "string list"
  wk_Activities :: "string list"
  wk_Options :: clientOptions
  wk_Bridge :: bridge_start

text \<open>A program exits before it serves, or serves and then exits.\<close>

datatype 'w main_run = Exit int | Serve 'w int

definition runExit :: "go_error option \<Rightarrow> int" where
  "runExit r = (case r of Some err \<Rightarrow> 1 | None \<Rightarrow> 0)"

definition otaActivities :: "string list" where
  "otaActivities = [''SendOTACommand'', ''SendRollbackCommand'', ''ResolveCohort'', ''RecordRolloutStarted'',
     ''RecordRolloutEnded'', ''RecordRobotResult'', ''RecordRollbackOutcome'']"

record worker_env =
  we_getenv :: "string \<Rightarrow> string"
  we_pool :: "go_error option"
  we_ping :: "go_error option"
  we_connect :: token
  we_dial :: "go_error option"
  we_subscribe :: token
  we_run :: "go_error option"

definition otaWorkerMain :: "clientOptions \<Rightarrow> worker_env \<Rightarrow> worker main_run" where
  "otaWorkerMain d e =
     (let brokerURL = envOr (we_getenv e) ''BROKER_URL'' ''tcp://localhost:1883'' in
      case OpenTimescale (we_pool e) (we_ping e) of Some err \<Rightarrow> Exit 1 | None \<Rightarrow>
      (case connectMQTT (we_connect e) of Some err \<Rightarrow> Exit 1 | None \<Rightarrow>
      (case we_dial e of Some err \<Rightarrow> Exit 1 | None \<Rightarrow>
        Serve \<lparr>wk_Queue = otaTaskQueue, wk_Workflows = [''OTARollout'', ''OTASingleRobot'', ''OTARollback''],
            wk_Activities = [''SendOTACommand'', ''SendRollbackCommand'', ''ResolveCohort'',
              ''RecordRolloutStarted'', ''RecordRolloutEnded'', ''RecordRobotResult'', ''RecordRollbackOutcome''],
            wk_Options = otaWorkerOptions d brokerURL, wk_Bridge = otaBridgeStart (we_subscribe e)\<rparr>
          (runExit (we_run e)))))"

definition collisionWorkerMain :: "clientOptions \<Rightarrow> worker_env \<Rightarrow> worker main_run" where
  "collisionWorkerMain d e =
     (let brokerURL = envOr (we_getenv e) ''BROKER_URL'' ''tcp://localhost:1883'' in
      case connectMQTT (we_connect e) of Some err \<Rightarrow> Exit 1 | None \<Rightarrow>
      (case we_dial e of Some err \<Rightarrow> Exit 1 | None \<Rightarrow>
        Serve \<lparr>wk_Queue = collisionTaskQueue, wk_Workflows = [''CollisionResponse''],
            wk_Activities = [''SendTwist''], wk_Options = collisionWorkerOptions d brokerURL,
            wk_Bridge = collisionBridgeStart (we_subscribe e)\<rparr> (runExit (we_run e))))"

text \<open>The ingest worker goes on when the broker has not answered within ten seconds.\<close>

definition ingestMain :: "clientOptions \<Rightarrow> worker_env \<Rightarrow> clientOptions main_run" where
  "ingestMain d e =
     (let brokerURL = envOr (we_getenv e) ''BROKER_URL'' ''tcp://localhost:1883'' in
      case OpenTimescale (we_pool e) (we_ping e) of Some err \<Rightarrow> Exit 1 | None \<Rightarrow>
      (if we_connect e \<noteq> Pending \<and> tokenError (we_connect e) \<noteq> None then Exit 1
       else Serve (ingestOptions d brokerURL) 0))"

text \<open>
  The control plane serves without the OTA routes when Temporal cannot be reached; the server's
  end is nil, the error of a shutdown, or another error.
\<close>

datatype listen_end = ListenNil | ServerClosed | ListenError go_error

definition controlplaneMain :: "worker_env \<Rightarrow> listen_end \<Rightarrow> (string \<times> bool) main_run" where
  "controlplaneMain e r =
     (case OpenTimescale (we_pool e) (we_ping e) of Some err \<Rightarrow> Exit 1 | None \<Rightarrow>
        Serve (envOr (we_getenv e) ''LISTEN_ADDR'' '':8081'', we_dial e = None)
          (case r of ListenError err \<Rightarrow> 1 | _ \<Rightarrow> 0))"

text \<open>
  \<^verbatim>\<open>Pump.Run\<close>: the results of its three goroutines in the order they end, each with whether the
  context was over by then; the last flag says whether it is at the end.  Nothing is returned while
  one is still running.
\<close>

fun pumpRun :: "nat \<Rightarrow> (go_error option \<times> bool) list \<Rightarrow> bool \<Rightarrow> go_error option option" where
  "pumpRun 0 rs ctxDone = Some (if ctxDone then Some (GoError ''context canceled'') else None)"
| "pumpRun (Suc n) [] ctxDone = None"
| "pumpRun (Suc n) ((err, over) # rs) ctxDone =
     (if err \<noteq> None \<and> \<not> over then Some err else pumpRun n rs ctxDone)"

text \<open>
  The end of the agent's main: the error of the executor's start, which is only logged (unless the
  context is over), and the exit code.
\<close>

definition agentServe :: "string \<Rightarrow> token \<Rightarrow> go_error option \<Rightarrow> bool \<Rightarrow> go_error option \<times> int" where
  "agentServe robotID subscribe pump ctxDone =
     ((if ctxDone then None else snd (executorStart robotID subscribe)),
      (if pump \<noteq> None \<and> \<not> ctxDone then 1 else 0))"

section \<open>Subscriptions and what the handlers parse\<close>

lemma matchLevels_three: "matchLevels [f, g, h] ls \<longleftrightarrow> length ls = 3 \<and>
    (f = ''+'' \<or> ls ! 0 = f) \<and> (g = ''+'' \<or> ls ! 1 = g) \<and> (h = ''+'' \<or> ls ! 2 = h)"
  by (cases ls; cases "tl ls"; cases "tl (tl ls)"; cases "tl (tl (tl ls))") auto

lemma matchLevels_two: "matchLevels [f, g] ls \<longleftrightarrow> length ls = 2 \<and>
    (f = ''+'' \<or> ls ! 0 = f) \<and> (g = ''+'' \<or> ls ! 1 = g)"
  by (cases ls; cases "tl ls"; cases "tl (tl ls)") auto

lemma filter_levels:
  "splitOn CHR ''/'' ackFilter = [''ack'', ''+'', ''ota'']"
  "splitOn CHR ''/'' collisionFilter = [''events'', ''+'', ''collision'']"
  "splitOn CHR ''/'' ''tlm/+/+'' = [''tlm'', ''+'', ''+'']" "splitOn CHR ''/'' ''hb/+'' = [''hb'', ''+'']"
  by code_simp+

lemmas filter_matches = topicMatches_def filter_levels matchLevels_three matchLevels_two

lemma stored_topic_matches: "ingestKey t \<noteq> None \<Longrightarrow> topicMatches ''tlm/+/+'' t \<or> topicMatches ''hb/+'' t"
  by (auto simp: filter_matches ingestKey_def parseTopic_def Let_def split: if_splits)

text \<open>
  The topics that the filters of the cloud's three subscribers select are exactly the topics
  their handlers accept: no message is delivered that the handler rejects for its topic, and none
  that it would accept is missed.
\<close>

theorem filters_match_parsers:
  "(topicMatches ackFilter t \<longleftrightarrow> ackTopicRobot t \<noteq> None) \<and>
   (topicMatches collisionFilter t \<longleftrightarrow> collisionTopicRobot t \<noteq> None) \<and>
   (list_ex (\<lambda>f. topicMatches f t) (o_onConnect (ingestOptions d url)) \<longleftrightarrow> ingestKey t \<noteq> None)"
  by (auto simp: filter_matches ackTopicRobot_def collisionTopicRobot_def ingestOptions_def ingestKey_def
      parseTopic_def Let_def)

section \<open>Reconnections\<close>

text \<open>
  C29: what is left of the subscriptions after the connection was lost and opened again, however
  often: the ingest worker, which subscribes at every connection, has both of its filters whatever
  the broker kept, so that every topic its handler stores is still delivered, and what the broker
  kept besides; the OTA bridge and the robot's executor keep theirs exactly if the broker kept the
  session every time; the collision bridge, whose session is clean and which subscribes once, is
  deaf for good.
\<close>

theorem subscriptions_after_reconnect:
  assumes "session_laws sess" and "paho_defaults d" and "noSubscribe es" and "reconnections es \<noteq> []"
    and "NewPublisher d cfg = Inr agentOptions"
  shows "set (sess (ingestOptions d url) es subs) =
      {''tlm/+/+'', ''hb/+''} \<union> (if False \<in> set (reconnections es) then {} else set subs) \<and>
    (\<forall>t. ingestKey t \<noteq> None \<longrightarrow> list_ex (\<lambda>f. topicMatches f t) (sess (ingestOptions d url) es subs)) \<and>
    (ackFilter \<in> set (sess (otaWorkerOptions d url) es [ackFilter]) \<longleftrightarrow> False \<notin> set (reconnections es)) \<and>
    (cmdOtaTopic robot \<in> set (sess agentOptions es [cmdOtaTopic robot]) \<longleftrightarrow> False \<notin> set (reconnections es)) \<and>
    sess (collisionWorkerOptions d url) es [collisionFilter] = []"
proof -
  have agent: "o_onConnect agentOptions = []" "\<not> o_cleanSession agentOptions"
    using assms(2,5) by (auto simp: NewPublisher_def paho_defaults_def split: if_splits)
  have "t \<notin> set (sess (collisionWorkerOptions d url) es [collisionFilter])" for t
    using session_survives [OF assms(1,3), of t "collisionWorkerOptions d url"] assms(2,4)
    by (simp add: collisionWorkerOptions_def paho_defaults_def)
  then have "sess (collisionWorkerOptions d url) es [collisionFilter] = []" by (metis list.set_intros(1) neq_Nil_conv)
  moreover have "ackFilter \<in> set (sess (otaWorkerOptions d url) es [ackFilter]) \<longleftrightarrow> False \<notin> set (reconnections es)"
    using session_survives [OF assms(1,3)] assms(2,4) by (simp add: otaWorkerOptions_def paho_defaults_def)
  moreover have "cmdOtaTopic robot \<in> set (sess agentOptions es [cmdOtaTopic robot]) \<longleftrightarrow> False \<notin> set (reconnections es)"
    using session_survives [OF assms(1,3)] assms(2,4) agent by simp
  moreover have ingest: "set (sess (ingestOptions d url) es subs) =
      {''tlm/+/+'', ''hb/+''} \<union> (if False \<in> set (reconnections es) then {} else set subs)"
    using session_survives [OF assms(1,3), of _ "ingestOptions d url"] assms(4) by (auto simp: ingestOptions_def)
  moreover have "list_ex (\<lambda>f. topicMatches f t) (sess (ingestOptions d url) es subs)" if "ingestKey t \<noteq> None" for t
  proof -
    have "topicMatches ''tlm/+/+'' t \<or> topicMatches ''hb/+'' t" using that by (rule stored_topic_matches)
    then show ?thesis unfolding list_ex_iff ingest by blast
  qed
  ultimately show ?thesis by blast
qed

theorem subscriptions_after_reconnect_witness:
  "demoSession (collisionWorkerOptions demoDefaults ''tcp://b'') [Disconnected, Connected True] [collisionFilter] = [] \<and>
   ackFilter \<in> set (demoSession (otaWorkerOptions demoDefaults ''tcp://b'') [Disconnected, Connected True] [ackFilter]) \<and>
   set (demoSession (ingestOptions demoDefaults ''tcp://b'') [Disconnected, Connected True] []) = {''tlm/+/+'', ''hb/+''}"
proof -
  let ?cfg = "\<lparr>pc_BrokerURL = ''tcp://b'', pc_ClientID = ''agent-r1'', pc_Username = '''', pc_Password = ''''\<rparr>"
  have 1: "noSubscribe [Disconnected, Connected True]" "reconnections [Disconnected, Connected True] \<noteq> []"
    "False \<notin> set (reconnections [Disconnected, Connected True])" by simp_all
  obtain opts where 2: "NewPublisher demoDefaults ?cfg = Inr opts" by (simp add: NewPublisher_def)
  from subscriptions_after_reconnect [OF demoSession_laws demoDefaults_paho 1(1,2) 2, of "''tcp://b''" "[]"] 1(3)
  show ?thesis by simp
qed

section \<open>Redelivery of telemetry\<close>

text \<open>
  The broker delivers a message of QoS 1 again until it is acknowledged; each delivery meets the
  database in a state of its own.
\<close>

fun redeliver :: "(clientOptions \<Rightarrow> bool \<Rightarrow> bool) \<Rightarrow> clientOptions \<Rightarrow> db_env list \<Rightarrow> string \<Rightarrow> bytes \<Rightarrow> ingest \<Rightarrow> ingest" where
  "redeliver acks opts [] topic payload st = st"
| "redeliver acks opts (e # es) topic payload st =
     (case ingestHandler e topic payload st of (acked, st') \<Rightarrow>
       (if acks opts acked then st' else redeliver acks opts es topic payload st'))"

text \<open>Without automatic acknowledgement a sample is stored once the database takes it.\<close>

lemma redeliver_manual:
  assumes "parseTopic topic = (robot, stream, True)" and "autoack_law acks" and "o_autoAckDisabled opts"
    and "e \<in> set es" and "dbe_fault e = None"
    and "\<forall>e \<in> set es. (robot, stream, pgTime (dbe_now e)) \<notin> telemetryKey ` set (telemetry (in_db st))"
  shows "\<exists>e \<in> set es. telemetry (in_db (redeliver acks opts es topic payload st)) =
    telemetry (in_db st) @ [ingestRow robot stream (dbe_now e) payload]"
  using assms(4-6)
proof (induction es)
  case (Cons a es)
  note handler = ingestHandler_insert [OF assms(1), of a payload st]
  show ?case
  proof (cases "dbe_fault a = None")
    case True
    then show ?thesis using handler assms(2) Cons.prems(3) by (simp add: autoack_law_def)
  next
    case False
    then have "redeliver acks opts (a # es) topic payload st = redeliver acks opts es topic payload st"
      using handler assms(2,3) by (auto simp: autoack_law_def)
    then show ?thesis using Cons False by auto
  qed
qed simp

text \<open>
  C30: the ingest worker does not switch automatic acknowledgement off, so a message is delivered
  once whatever its handler does: a sample whose statement fails is lost, although later deliveries
  would have stored it.
\<close>

theorem ingest_loses_failed_insert:
  assumes "autoack_law acks" and "paho_defaults d"
  shows "redeliver acks (ingestOptions d url) (e # es) topic payload st = snd (ingestHandler e topic payload st) \<and>
   (dbe_fault e \<noteq> None \<longrightarrow> redeliver acks (ingestOptions d url) (e # es) topic payload st = st)"
proof -
  have "acks (ingestOptions d url) acked" for acked
    using assms by (simp add: autoack_law_def ingestOptions_def paho_defaults_def)
  then have one: "redeliver acks (ingestOptions d url) (e # es) topic payload st = snd (ingestHandler e topic payload st)"
    by (simp add: case_prod_beta)
  have "dbe_fault e \<noteq> None \<Longrightarrow> snd (ingestHandler e topic payload st) = st"
    by (auto simp: ingestHandler_def InsertSample_def split: prod.splits option.splits)
  then show ?thesis using one by simp
qed

definition demoFault :: db_env where
  "demoFault = demoDbEnv\<lparr>dbe_fault := Some (GoError ''connection refused'')\<rparr>"

theorem ingest_loses_failed_insert_witness:
  "redeliver demoAcks (ingestOptions demoDefaults ''tcp://b'') [demoFault, demoDbEnv] (tlmTopic ''r1'' ''odom'') ''a'' demoIngest = demoIngest \<and>
   length (telemetry (in_db (redeliver demoAcks ((ingestOptions demoDefaults ''tcp://b'')\<lparr>o_autoAckDisabled := True\<rparr>) [demoFault, demoDbEnv]
     (tlmTopic ''r1'' ''odom'') ''a'' demoIngest))) = 1"
proof -
  have 1: "dbe_fault demoFault \<noteq> None" by (simp add: demoFault_def)
  have 2: "length (telemetry (in_db (redeliver demoAcks ((ingestOptions demoDefaults ''tcp://b'')\<lparr>o_autoAckDisabled := True\<rparr>)
    [demoFault, demoDbEnv] (tlmTopic ''r1'' ''odom'') ''a'' demoIngest))) = 1" by code_simp
  from ingest_loses_failed_insert [OF demoAcks_law demoDefaults_paho, where url = "''tcp://b''" and e = demoFault and es = "[demoDbEnv]"
      and topic = "tlmTopic ''r1'' ''odom''" and payload = "''a''" and st = demoIngest] 1 2
  show ?thesis by blast
qed

section \<open>Programs that serve with a part missing\<close>

definition bridgeOf :: "worker main_run \<Rightarrow> bridge_start option" where
  "bridgeOf r = (case r of Exit c \<Rightarrow> None | Serve w c \<Rightarrow> Some (wk_Bridge w))"

definition withoutBridge :: "worker main_run \<Rightarrow> worker main_run" where
  "withoutBridge r = (case r of Exit c \<Rightarrow> Exit c | Serve w c \<Rightarrow> Serve (w\<lparr>wk_Bridge := Waiting\<rparr>) c)"

text \<open>
  Once their connections are up, the workers and the agent run on whether or not their
  subscription succeeded: an OTA worker whose bridge failed still takes workflows and exits with
  the code of its server alone; so do the collision worker and the agent.
\<close>

theorem failed_subscription_unnoticed:
  "withoutBridge (otaWorkerMain d (e\<lparr>we_subscribe := tok\<rparr>)) = withoutBridge (otaWorkerMain d e) \<and>
   withoutBridge (collisionWorkerMain d (e\<lparr>we_subscribe := tok\<rparr>)) = withoutBridge (collisionWorkerMain d e) \<and>
   snd (agentServe robot tok pump ctxDone) = snd (agentServe robot tok' pump ctxDone) \<and>
   (bridgeOf (otaWorkerMain d e) \<noteq> None \<longrightarrow>
     bridgeOf (otaWorkerMain d (e\<lparr>we_subscribe := Completed (Some err)\<rparr>)) = Some (StartFailed err))"
  by (auto simp: withoutBridge_def otaWorkerMain_def collisionWorkerMain_def agentServe_def bridgeOf_def
      otaBridgeStart_def Let_def split: option.splits)

definition demoWorkerEnv :: worker_env where
  "demoWorkerEnv = \<lparr>we_getenv = (\<lambda>k. ''''), we_pool = None, we_ping = None, we_connect = Completed None,
     we_dial = None, we_subscribe = Completed None, we_run = None\<rparr>"

theorem failed_subscription_unnoticed_witness:
  "bridgeOf (otaWorkerMain demoDefaults (demoWorkerEnv\<lparr>we_subscribe := Completed (Some (GoError ''not Connected''))\<rparr>)) =
     Some (StartFailed (GoError ''not Connected''))"
proof -
  have "bridgeOf (otaWorkerMain demoDefaults demoWorkerEnv) \<noteq> None"
    by (simp add: bridgeOf_def otaWorkerMain_def demoWorkerEnv_def OpenTimescale_def connectMQTT_def)
  with failed_subscription_unnoticed [where d = demoDefaults and e = demoWorkerEnv and tok = Pending and robot = "''r1''"
      and pump = None and ctxDone = False and tok' = Pending and err = "GoError ''not Connected''"] show ?thesis by blast
qed

text \<open>
  When the OTA worker serves, it serves the task queue on which rollouts are started, and every
  workflow and activity that the API and the workflows start by name is registered with it.
\<close>

theorem worker_serves_what_is_started:
  assumes "otaWorkerMain d e = Serve w code"
  shows "wk_Queue w = otaTaskQueue \<and>
    set [''OTARollout'', ''OTASingleRobot'', ''OTARollback''] \<subseteq> set (wk_Workflows w) \<and>
    set otaActivities \<subseteq> set (wk_Activities w) \<and> (we_connect e = Pending \<or> we_connect e = Completed None)"
  using assms
  by (cases "we_connect e") (auto simp: otaWorkerMain_def otaActivities_def connectMQTT_def Let_def split: option.splits)

end
