(* ===== verification/Batch.thy ===== *)
theory Batch
  imports Tasks Rollout
begin

text \<open>
  The children of a batch side by side.  \<^verbatim>\<open>runBatch\<close> (\<^verbatim>\<open>workflow_rollout.go\<close>) starts one
  child per robot and then waits for all; the activities of different children reach the broker and
  the database in any order.  Here a child is a task with one step per attempt of an activity and
  one for its result, which the parent's future of that child holds from then on.
\<close>

section \<open>A child as a task\<close>

record batchState =
  bs_cloud :: cloud
  bs_results :: "nat \<Rightarrow> singleResult option"

type_synonym childTask = "batchState task"

fun activitySteps ::
  "nat \<Rightarrow> ('e \<Rightarrow> cloud \<Rightarrow> (go_error + 'a) \<times> cloud) \<Rightarrow> 'e list \<Rightarrow> ((go_error + 'a) \<Rightarrow> childTask) \<Rightarrow> childTask" where
  "activitySteps n act [] k = k (Inl canceled)"
| "activitySteps n act (e # es) k = Step (\<lambda>x. case act e (bs_cloud x) of (r, w) \<Rightarrow>
     (x\<lparr>bs_cloud := w\<rparr>, case r of
        Inr a \<Rightarrow> k (Inr a)
      | Inl err \<Rightarrow> (if n \<le> 1 then k (Inl err) else activitySteps (n - 1) act es k)))"

definition foreverSteps ::
  "('e \<Rightarrow> cloud \<Rightarrow> (go_error + 'a) \<times> cloud) \<Rightarrow> 'e list \<Rightarrow> ((go_error + 'a) \<Rightarrow> childTask) \<Rightarrow> childTask" where
  "foreverSteps act es k = activitySteps (Suc (length es)) act es k"

definition OTARollbackSteps :: "rollback_env \<Rightarrow> rollbackInput \<Rightarrow> (go_error option \<Rightarrow> childTask) \<Rightarrow> childTask" where
  "OTARollbackSteps e inp k =
     activitySteps maxAttempts (SendRollbackCommand (ri_RolloutID inp) (ri_RobotID inp) (ri_Reason inp)) (rv_send e)
       (\<lambda>r. case r of
          Inl err \<Rightarrow> k (Some (GoError (''send rollback failed: '' @ rv_errText e (error_text err))))
        | Inr u \<Rightarrow>
            (let rec = (\<lambda>status detail. activitySteps maxAttempts
                   (actRecordRollbackOutcome (ri_RolloutID inp) (ri_RobotID inp) status detail) (rv_record e))
             in case rollbackLoop (rv_sent e + 5 * minute) (rv_signals e) of
                  NoAck \<Rightarrow> rec ''stuck'' ''no rollback ack within 5m''
                    (\<lambda>_. k (Some (GoError ''rollback stuck: no ack within 5m'')))
                | AckRolledBack detail \<Rightarrow> rec ''ok'' detail (\<lambda>_. k None)
                | AckFailed detail \<Rightarrow> rec ''failed'' detail
                    (\<lambda>_. k (Some (GoError (''rollback failed: '' @ detail))))))"

definition executeRollbackSteps ::
  "single_env \<Rightarrow> singleInput \<Rightarrow> string \<Rightarrow> (go_error option \<Rightarrow> childTask) \<Rightarrow> childTask" where
  "executeRollbackSteps e inp reason k =
     (case sg_rollbackStart e of Some err \<Rightarrow> k (Some err) | None \<Rightarrow>
       OTARollbackSteps (sg_rollback e)
         \<lparr>ri_RolloutID = si_RolloutID inp, ri_RobotID = si_RobotID inp, ri_Reason = reason\<rparr> k)"

definition finishSteps ::
  "single_env \<Rightarrow> singleResult \<Rightarrow> string \<Rightarrow> string \<Rightarrow> (singleResult \<Rightarrow> childTask) \<Rightarrow> childTask" where
  "finishSteps e res phase detail k =
     (let res' = res\<lparr>sr_Phase := phase, sr_Detail := detail, sr_EndedAt := sg_ended e\<rparr>
      in foreverSteps (actRecordRobotResult '''' res') (sg_record e) (\<lambda>_. k res'))"

definition OTASingleRobotSteps :: "single_env \<Rightarrow> singleInput \<Rightarrow> (singleResult \<Rightarrow> childTask) \<Rightarrow> childTask" where
  "OTASingleRobotSteps e inp k =
     (let res = \<lparr>sr_RobotID = si_RobotID inp, sr_Phase = '''', sr_Detail = '''',
            sr_StartedAt = sg_started e, sr_EndedAt = 0\<rparr>;
          spec = si_Spec inp;
          rolledBack = (\<lambda>what err. executeRollbackSteps e inp (what @ error_text err)
            (\<lambda>_. finishSteps e res SingleRolledBack (error_text err) k)) in
      activitySteps maxAttempts (SendOTACommand (si_RolloutID inp) (si_RobotID inp) spec) (sg_send e) (\<lambda>r. case r of
        Inl err \<Rightarrow>
          finishSteps e res SingleFailed (''send command failed: '' @ sg_errText e (error_text err)) k
      | Inr u \<Rightarrow>
         (case waitForPhase ''PHASE_PULLED'' (PullTimeout spec) (sg_sent e) (sg_signals e) of
            (Some err, now1, sigs1) \<Rightarrow> rolledBack ''pull timeout/error: '' err
          | (None, now1, sigs1) \<Rightarrow>
         (case waitForPhase ''PHASE_SWAPPED'' (SwapTimeout spec) now1 sigs1 of
            (Some err, now2, sigs2) \<Rightarrow> rolledBack ''swap timeout/error: '' err
          | (None, now2, sigs2) \<Rightarrow>
         (case waitForPhase ''PHASE_HEALTHY'' (SmokeTimeout spec) now2 sigs2 of
            (Some err, now3, sigs3) \<Rightarrow> rolledBack ''smoke check failed: '' err
          | (None, now3, sigs3) \<Rightarrow>
             (let res' = res\<lparr>sr_Phase := SingleOK, sr_EndedAt := sg_ended e\<rparr>
              in activitySteps maxAttempts
                   (actRecordRobotResult (si_RolloutID inp) res') (sg_record e) (\<lambda>_. k res')))))))"

text \<open>The future of the i-th child is settled; a child that is not started counts as failed.\<close>

definition settle :: "nat \<Rightarrow> singleResult \<Rightarrow> childTask" where
  "settle i res = Step (\<lambda>x. (x\<lparr>bs_results := (bs_results x)(i \<mapsto> res)\<rparr>, Stop))"

definition runChildSteps :: "nat \<Rightarrow> child_env \<Rightarrow> string \<Rightarrow> rolloutSpec \<Rightarrow> string \<Rightarrow> childTask" where
  "runChildSteps i ce rolloutID spec robot =
     (case ch_error ce of
        Some err \<Rightarrow> settle i \<lparr>sr_RobotID = robot, sr_Phase = SingleFailed, sr_Detail = error_text err,
                       sr_StartedAt = 0, sr_EndedAt = 0\<rparr>
      | None \<Rightarrow> OTASingleRobotSteps (ch_single ce)
          \<lparr>si_RolloutID = rolloutID, si_RobotID = robot, si_Spec = spec\<rparr> (settle i))"

text \<open>The children of a batch, and what the parent reads when all futures are settled.\<close>

definition runBatchSteps :: "(nat \<Rightarrow> child_env) \<Rightarrow> string \<Rightarrow> rolloutSpec \<Rightarrow> string list \<Rightarrow> childTask list" where
  "runBatchSteps env rolloutID spec robots =
     map (\<lambda>i. runChildSteps i (env i) rolloutID spec (robots ! i)) [0..<length robots]"

definition batchStart :: "cloud \<Rightarrow> batchState" where
  "batchStart w = \<lparr>bs_cloud = w, bs_results = (\<lambda>i. None)\<rparr>"

definition collect :: "nat \<Rightarrow> batchState \<Rightarrow> singleResult option list" where
  "collect n x = map (bs_results x) [0..<n]"

section \<open>Alone, a child is the sequential workflow\<close>

lemma alone_activitySteps [simp]:
  "runAlone (activitySteps n act es k) x =
     (case executeActivity n act es (bs_cloud x) of (r, w) \<Rightarrow> runAlone (k r) (x\<lparr>bs_cloud := w\<rparr>))"
  by (induction es arbitrary: n x) (auto simp: runAlone_Step split: prod.split sum.split)

lemma alone_foreverSteps [simp]:
  "runAlone (foreverSteps act es k) x =
     (case executeForever act es (bs_cloud x) of (r, w) \<Rightarrow> runAlone (k r) (x\<lparr>bs_cloud := w\<rparr>))"
  by (simp add: foreverSteps_def executeForever_def)

lemma alone_OTARollback [simp]:
  "runAlone (OTARollbackSteps e inp k) x =
     (case OTARollback e inp (bs_cloud x) of (r, w) \<Rightarrow> runAlone (k r) (x\<lparr>bs_cloud := w\<rparr>))"
  by (auto simp: OTARollbackSteps_def OTARollback_def Let_def split: prod.split sum.split rollbackAck.split)

lemma alone_executeRollback [simp]:
  "runAlone (executeRollbackSteps e inp reason k) x =
     (case executeRollback e inp reason (bs_cloud x) of (r, w) \<Rightarrow> runAlone (k r) (x\<lparr>bs_cloud := w\<rparr>))"
  by (auto simp: executeRollbackSteps_def executeRollback_def split: option.split)

lemma alone_finish:
  "runAlone (finishSteps e res SingleFailed d k) x =
     (case finishFailed e res d (bs_cloud x) of (r, w) \<Rightarrow> runAlone (k r) (x\<lparr>bs_cloud := w\<rparr>))"
  "runAlone (finishSteps e res SingleRolledBack d k) x =
     (case finishRolledBack e res d (bs_cloud x) of (r, w) \<Rightarrow> runAlone (k r) (x\<lparr>bs_cloud := w\<rparr>))"
  by (auto simp: finishSteps_def finishFailed_def finishRolledBack_def Let_def split: prod.split)

lemma alone_OTASingleRobot [simp]:
  "runAlone (OTASingleRobotSteps e inp k) x =
     (case OTASingleRobot e inp (bs_cloud x) of (r, w) \<Rightarrow> runAlone (k r) (x\<lparr>bs_cloud := w\<rparr>))"
  by (auto simp: OTASingleRobotSteps_def OTASingleRobot_def Let_def alone_finish
      split: prod.split sum.split option.split)

lemma alone_runChild:
  "runAlone (runChildSteps i ce ro spec robot) x =
     (case runChild ce ro spec robot (bs_cloud x) of (res, w) \<Rightarrow>
       x\<lparr>bs_cloud := w, bs_results := (bs_results x)(i \<mapsto> res)\<rparr>)"
  by (auto simp: runChildSteps_def runChild_def settle_def runAlone_Step split: option.split prod.split)

section \<open>What a child adds\<close>

text \<open>Messages and rows of one robot, appended.\<close>

definition appendTo :: "message list \<Rightarrow> resultRow list \<Rightarrow> rollbackRow list \<Rightarrow> cloud \<Rightarrow> cloud" where
  "appendTo ms rs bs w = w\<lparr>cl_outbox := cl_outbox w @ ms, cl_db := (cl_db w)
     \<lparr>ota_robot_results := ota_robot_results (cl_db w) @ rs, ota_rollbacks := ota_rollbacks (cl_db w) @ bs\<rparr>\<rparr>"

definition onlyFor :: "string \<Rightarrow> message list \<Rightarrow> resultRow list \<Rightarrow> rollbackRow list \<Rightarrow> bool" where
  "onlyFor robot ms rs bs \<longleftrightarrow> (\<forall>m \<in> set ms. fst m = cmdOtaTopic robot) \<and>
     (\<forall>r \<in> set rs. rs_robot_id r = robot) \<and> (\<forall>b \<in> set bs. rb_robot_id b = robot)"

text \<open>An activity whose result and whose additions do not depend on the cloud's state.\<close>

definition addsFor :: "string \<Rightarrow> ('e \<Rightarrow> cloud \<Rightarrow> (go_error + 'a) \<times> cloud) \<Rightarrow> bool" where
  "addsFor robot act \<longleftrightarrow>
     (\<forall>e. \<exists>r ms rs bs. onlyFor robot ms rs bs \<and> (\<forall>w. act e w = (r, appendTo ms rs bs w)))"

lemma appendTo_nothing [simp]: "appendTo [] [] [] w = w"
  by (simp add: appendTo_def)

lemma addsFor_publish:
  "(\<And>tok w. act tok w = mqttPublish tok (cmdOtaTopic robot) body w) \<Longrightarrow> addsFor robot act"
  unfolding addsFor_def
  by (intro allI exI [of _ "[(cmdOtaTopic robot, 1, body)]"] exI [of _ "[]"] exI)
    (auto simp: mqttPublish_def appendTo_def onlyFor_def)

lemma addsFor_statement:
  assumes "\<And>e t. stmt e t = execStmt e (\<lambda>t. t\<lparr>ota_robot_results := ota_robot_results t @ rs e,
      ota_rollbacks := ota_rollbacks t @ bs e\<rparr>) t"
    and "\<And>e. onlyFor robot [] (rs e) (bs e)"
  shows "addsFor robot (dbActivity stmt)"
  unfolding addsFor_def
proof
  fix e
  show "\<exists>r ms rs' bs'. onlyFor robot ms rs' bs' \<and> (\<forall>w. dbActivity stmt e w = (r, appendTo ms rs' bs' w))"
  proof (cases "dbe_fault e")
    case None
    then show ?thesis using assms(2) [of e]
      by (intro exI [of _ "Inr ()"] exI [of _ "[]"] exI [of _ "rs e"] exI [of _ "bs e"])
        (simp add: dbActivity_def assms(1) execStmt_def appendTo_def)
  next
    case (Some err)
    then show ?thesis
      by (intro exI [of _ "Inl err"] exI [of _ "[]"] exI [of _ "[]"] exI [of _ "[]"])
        (simp add: dbActivity_def assms(1) execStmt_def onlyFor_def)
  qed
qed

lemma child_activities:
  "addsFor robot (SendOTACommand ro robot spec)"
  "addsFor robot (SendRollbackCommand ro robot reason)"
  "sr_RobotID res = robot \<Longrightarrow> addsFor robot (actRecordRobotResult x res)"
  "addsFor robot (actRecordRollbackOutcome ro robot status detail)"
proof -
  show "addsFor robot (SendOTACommand ro robot spec)" "addsFor robot (SendRollbackCommand ro robot reason)"
    by (rule addsFor_publish, simp add: SendOTACommand_def SendRollbackCommand_def)+
  show "addsFor robot (actRecordRollbackOutcome ro robot status detail)"
    unfolding actRecordRollbackOutcome_def
    by (rule addsFor_statement [where rs = "\<lambda>e. []" and bs = "\<lambda>e. [\<lparr>rb_rollout_id = ro, rb_robot_id = robot,
          rb_status = status, rb_detail = detail, rb_at = pgTime (dbe_now e)\<rparr>]"])
      (simp_all add: RecordRollbackOutcome_def onlyFor_def)
  show "addsFor robot (actRecordRobotResult x res)" if "sr_RobotID res = robot"
    unfolding actRecordRobotResult_def
    by (rule addsFor_statement [where bs = "\<lambda>e. []" and rs = "\<lambda>e. [\<lparr>rs_robot_id = robot, rs_phase = sr_Phase res,
          rs_detail = sr_Detail res, rs_started_at = pgTime (sr_StartedAt res), rs_ended_at = pgTime (sr_EndedAt res)\<rparr>]"])
      (simp_all add: RecordRobotResult_def onlyFor_def that)
qed

text \<open>A task that does nothing but add for one robot and settle one future.\<close>

inductive owned :: "nat \<Rightarrow> string \<Rightarrow> childTask \<Rightarrow> bool" for i robot where
  owned_settle: "owned i robot (settle i res)"
| owned_add: "onlyFor robot ms rs bs \<Longrightarrow> owned i robot t \<Longrightarrow>
    owned i robot (Step (\<lambda>x. (x\<lparr>bs_cloud := appendTo ms rs bs (bs_cloud x)\<rparr>, t)))"

lemma owned_activity:
  assumes "addsFor robot act" and "\<And>r. owned i robot (k r)"
  shows "owned i robot (activitySteps n act es k)"
proof (induction es arbitrary: n)
  case Nil
  then show ?case using assms(2) by simp
next
  case (Cons e es)
  obtain r ms rs bs where act: "onlyFor robot ms rs bs" "\<And>w. act e w = (r, appendTo ms rs bs w)"
    using assms(1) unfolding addsFor_def by blast
  then show ?case using assms(2) Cons.IH by (auto intro: owned_add split: sum.split)
qed

lemma owned_forever: "addsFor robot act \<Longrightarrow> (\<And>r. owned i robot (k r)) \<Longrightarrow> owned i robot (foreverSteps act es k)"
  by (simp add: foreverSteps_def owned_activity)

lemma owned_rollback:
  "ri_RobotID inp = robot \<Longrightarrow> (\<And>r. owned i robot (k r)) \<Longrightarrow> owned i robot (OTARollbackSteps e inp k)"
  by (auto simp: OTARollbackSteps_def Let_def intro!: owned_activity child_activities
      split: sum.split rollbackAck.split)

lemma owned_finish:
  "sr_RobotID res = robot \<Longrightarrow> (\<And>r. owned i robot (k r)) \<Longrightarrow> owned i robot (finishSteps e res phase d k)"
  by (auto simp: finishSteps_def Let_def intro!: owned_forever child_activities)

lemma owned_executeRollback:
  "si_RobotID inp = robot \<Longrightarrow> (\<And>r. owned i robot (k r)) \<Longrightarrow> owned i robot (executeRollbackSteps e inp reason k)"
  by (auto simp: executeRollbackSteps_def intro: owned_rollback split: option.split)

lemma owned_single:
  "si_RobotID inp = robot \<Longrightarrow> (\<And>r. owned i robot (k r)) \<Longrightarrow> owned i robot (OTASingleRobotSteps e inp k)"
  by (auto simp: OTASingleRobotSteps_def Let_def
      intro!: owned_activity owned_finish owned_executeRollback child_activities
      split: sum.split prod.split option.split)

lemma owned_child: "owned i robot (runChildSteps i ce ro spec robot)"
  by (auto simp: runChildSteps_def intro: owned_settle owned_single split: option.split)

section \<open>Children do not meet\<close>

text \<open>What belongs to the i-th child: its future, and the messages and rows of its robot.\<close>

definition viewOf ::
  "nat \<Rightarrow> string \<Rightarrow> batchState \<Rightarrow> singleResult option \<times> message list \<times> resultRow list \<times> rollbackRow list" where
  "viewOf i robot x =
     (bs_results x i,
      filter (\<lambda>m. fst m = cmdOtaTopic robot) (cl_outbox (bs_cloud x)),
      filter (\<lambda>r. rs_robot_id r = robot) (ota_robot_results (cl_db (bs_cloud x))),
      filter (\<lambda>b. rb_robot_id b = robot) (ota_rollbacks (cl_db (bs_cloud x))))"

text \<open>What belongs to no robot of the batch.\<close>

definition viewOutside ::
  "string set \<Rightarrow> batchState \<Rightarrow> message list \<times> resultRow list \<times> rollbackRow list \<times> rolloutRow list \<times> telemetryRow list" where
  "viewOutside robots x =
     (filter (\<lambda>m. fst m \<notin> cmdOtaTopic ` robots) (cl_outbox (bs_cloud x)),
      filter (\<lambda>r. rs_robot_id r \<notin> robots) (ota_robot_results (cl_db (bs_cloud x))),
      filter (\<lambda>b. rb_robot_id b \<notin> robots) (ota_rollbacks (cl_db (bs_cloud x))),
      ota_rollouts (cl_db (bs_cloud x)), telemetry (cl_db (bs_cloud x)))"

lemma cmdOtaTopic_eq [simp]: "cmdOtaTopic r = cmdOtaTopic r' \<longleftrightarrow> r = r'"
  by (simp add: cmdOtaTopic_def)

lemma filter_none: "(\<And>x. x \<in> set xs \<Longrightarrow> \<not> P x) \<Longrightarrow> filter P xs = []"
  by (simp add: filter_empty_conv)

lemma owned_local: "owned i robot t \<Longrightarrow> localTo (viewOf i robot) t"
proof (induction rule: owned.induct)
  case (owned_settle res)
  then show ?case by (auto simp: settle_def viewOf_def intro!: local_Step local_Stop)
next
  case (owned_add ms rs bs t)
  then show ?case by (auto simp: viewOf_def appendTo_def intro!: local_Step)
qed

lemma owned_keeps_view: "owned i robot t \<Longrightarrow> j \<noteq> i \<Longrightarrow> robot' \<noteq> robot \<Longrightarrow>
    keeps (\<lambda>x y. viewOf j robot' y = viewOf j robot' x) t"
proof (induction rule: owned.induct)
  case (owned_settle res)
  then show ?case by (auto simp: settle_def viewOf_def intro!: keeps_Step keeps_Stop)
next
  case (owned_add ms rs bs t)
  then show ?case by (auto simp: viewOf_def appendTo_def onlyFor_def intro!: keeps_Step filter_none)
qed

lemma owned_keeps_outside: "owned i robot t \<Longrightarrow> robot \<in> robots \<Longrightarrow>
    keeps (\<lambda>x y. viewOutside robots y = viewOutside robots x) t"
proof (induction rule: owned.induct)
  case (owned_settle res)
  then show ?case by (auto simp: settle_def viewOutside_def intro!: keeps_Step keeps_Stop)
next
  case (owned_add ms rs bs t)
  then show ?case by (auto simp: viewOutside_def appendTo_def onlyFor_def intro!: keeps_Step filter_none)
qed

interpretation outside: guarantee "\<lambda>x y. viewOutside robots y = viewOutside robots x"
  by unfold_locales simp_all

section \<open>Every interleaving of a batch\<close>

lemma alone_batch:
  "runBatch env k ro spec robots (bs_cloud x) = (ress, w') \<Longrightarrow>
   fold runAlone (map (\<lambda>j. runChildSteps (k + j) (env (k + j)) ro spec (robots ! j)) [0..<length robots]) x =
   x\<lparr>bs_cloud := w', bs_results :=
     (\<lambda>i. if k \<le> i \<and> i < k + length robots then Some (ress ! (i - k)) else bs_results x i)\<rparr>"
proof (induction robots arbitrary: k x ress)
  case Nil
  have "(\<lambda>i. if k \<le> i \<and> i < k + length ([] :: string list) then Some (ress ! (i - k)) else bs_results x i) = bs_results x"
    by (rule ext) auto
  then show ?case using Nil by (cases x) simp
next
  case (Cons r rs)
  obtain res w1 where 1: "runChild (env k) ro spec r (bs_cloud x) = (res, w1)" by fastforce
  obtain ress1 where 2: "runBatch env (Suc k) ro spec rs w1 = (ress1, w')" "ress = res # ress1"
    using Cons.prems 1 by (auto split: prod.splits)
  let ?y = "x\<lparr>bs_cloud := w1, bs_results := (bs_results x)(k \<mapsto> res)\<rparr>"
  have "fold runAlone (map (\<lambda>j. runChildSteps (k + j) (env (k + j)) ro spec ((r # rs) ! j)) [0..<length (r # rs)]) x =
      fold runAlone (map (\<lambda>j. runChildSteps (Suc k + j) (env (Suc k + j)) ro spec (rs ! j)) [0..<length rs]) ?y"
    using 1 by (simp add: map_upt_Suc alone_runChild del: upt_Suc)
  also have "\<dots> = ?y\<lparr>bs_cloud := w', bs_results :=
     (\<lambda>i. if Suc k \<le> i \<and> i < Suc k + length rs then Some (ress1 ! (i - Suc k)) else bs_results ?y i)\<rparr>"
    using Cons.IH [of "Suc k" ?y ress1] 2 by simp
  finally show ?case using 2(2) by (auto simp: fun_eq_iff nth_Cons' Suc_diff_le intro!: arg_cong2 [where f = nth])
qed

lemma sequential_batch:
  assumes "runBatch env 0 ro spec robots w = (res, w')"
  shows "\<exists>steps y. interleaved (runBatchSteps env ro spec robots) (batchStart w) steps (map (\<lambda>_. Stop) robots) y \<and>
    bs_cloud y = w' \<and> collect (length robots) y = map Some res"
proof -
  let ?ts = "runBatchSteps env ro spec robots" and ?x = "batchStart w"
  have len: "length res = length robots" using runBatch_results [of env 0 ro spec robots w] assms by simp
  have y: "fold runAlone ?ts ?x = ?x\<lparr>bs_cloud := w', bs_results :=
      (\<lambda>i. if i < length robots then Some (res ! i) else None)\<rparr>"
    using alone_batch [of env 0 ro spec robots ?x res w'] assms by (simp add: runBatchSteps_def batchStart_def cong: if_cong)
  have stop: "map (\<lambda>_. Stop) ?ts = map (\<lambda>_. Stop) robots"
    by (simp add: runBatchSteps_def comp_def map_replicate_const)
  from sequential_interleaved [of ?ts ?x] obtain steps where
    run: "interleaved ?ts ?x steps (map (\<lambda>_. Stop) robots) (fold runAlone ?ts ?x)"
    unfolding stop ..
  have "collect (length robots) (fold runAlone ?ts ?x) = map Some res"
    unfolding y collect_def using len by (auto intro!: nth_equalityI)
  moreover have "bs_cloud (fold runAlone ?ts ?x) = w'" unfolding y by simp
  ultimately show ?thesis using run by blast
qed

text \<open>The same messages on every topic, the same rows of every robot, in the same order.\<close>

definition sameByRobot :: "cloud \<Rightarrow> cloud \<Rightarrow> bool" where
  "sameByRobot w w' \<longleftrightarrow>
     (\<forall>topic. filter (\<lambda>m. fst m = topic) (cl_outbox w) = filter (\<lambda>m. fst m = topic) (cl_outbox w')) \<and>
     (\<forall>robot. filter (\<lambda>r. rs_robot_id r = robot) (ota_robot_results (cl_db w)) =
        filter (\<lambda>r. rs_robot_id r = robot) (ota_robot_results (cl_db w'))) \<and>
     (\<forall>robot. filter (\<lambda>b. rb_robot_id b = robot) (ota_rollbacks (cl_db w)) =
        filter (\<lambda>b. rb_robot_id b = robot) (ota_rollbacks (cl_db w'))) \<and>
     ota_rollouts (cl_db w) = ota_rollouts (cl_db w') \<and> telemetry (cl_db w) = telemetry (cl_db w')"

lemma filter_outside:
  assumes "filter (\<lambda>x. f x \<notin> A) xs = filter (\<lambda>x. f x \<notin> A) ys" and "a \<notin> A"
  shows "filter (\<lambda>x. f x = a) xs = filter (\<lambda>x. f x = a) ys"
proof -
  have "filter (\<lambda>x. f x = a) zs = filter (\<lambda>x. f x = a) (filter (\<lambda>x. f x \<notin> A) zs)" for zs
    using assms(2) by (auto simp: intro!: filter_cong)
  then show ?thesis using assms(1) by metis
qed

lemma sameByRobot_views:
  assumes "\<And>robot. robot \<in> robots \<Longrightarrow> \<exists>i. viewOf i robot x = viewOf i robot y"
    and "viewOutside robots x = viewOutside robots y"
  shows "sameByRobot (bs_cloud x) (bs_cloud y)"
proof -
  have out: "filter (\<lambda>m. fst m \<notin> cmdOtaTopic ` robots) (cl_outbox (bs_cloud x)) =
      filter (\<lambda>m. fst m \<notin> cmdOtaTopic ` robots) (cl_outbox (bs_cloud y))"
    "filter (\<lambda>r. rs_robot_id r \<notin> robots) (ota_robot_results (cl_db (bs_cloud x))) =
      filter (\<lambda>r. rs_robot_id r \<notin> robots) (ota_robot_results (cl_db (bs_cloud y)))"
    "filter (\<lambda>b. rb_robot_id b \<notin> robots) (ota_rollbacks (cl_db (bs_cloud x))) =
      filter (\<lambda>b. rb_robot_id b \<notin> robots) (ota_rollbacks (cl_db (bs_cloud y)))"
    using assms(2) by (simp_all add: viewOutside_def)
  have "filter (\<lambda>m. fst m = topic) (cl_outbox (bs_cloud x)) = filter (\<lambda>m. fst m = topic) (cl_outbox (bs_cloud y))" for topic
    using filter_outside [OF out(1)] assms(1) by (cases "topic \<in> cmdOtaTopic ` robots") (auto simp: viewOf_def)
  moreover have "filter (\<lambda>r. rs_robot_id r = robot) (ota_robot_results (cl_db (bs_cloud x))) =
      filter (\<lambda>r. rs_robot_id r = robot) (ota_robot_results (cl_db (bs_cloud y)))" for robot
    using filter_outside [OF out(2)] assms(1) by (cases "robot \<in> robots") (auto simp: viewOf_def)
  moreover have "filter (\<lambda>b. rb_robot_id b = robot) (ota_rollbacks (cl_db (bs_cloud x))) =
      filter (\<lambda>b. rb_robot_id b = robot) (ota_rollbacks (cl_db (bs_cloud y)))" for robot
    using filter_outside [OF out(3)] assms(1) by (cases "robot \<in> robots") (auto simp: viewOf_def)
  ultimately show ?thesis using assms(2) by (simp add: sameByRobot_def viewOutside_def)
qed

lemma runBatchSteps_nth [simp]:
  "length (runBatchSteps env ro spec robots) = length robots"
  "i < length robots \<Longrightarrow> runBatchSteps env ro spec robots ! i = runChildSteps i (env i) ro spec (robots ! i)"
  by (simp_all add: runBatchSteps_def)

lemma batch_view:
  assumes "distinct robots" and "interleaved (runBatchSteps env ro spec robots) x steps us y"
    and "\<forall>t \<in> set us. finished t" and "i < length robots"
  shows "viewOf i (robots ! i) y = viewOf i (robots ! i) (runAlone (runChildSteps i (env i) ro spec (robots ! i)) x)"
proof -
  let ?ts = "runBatchSteps env ro spec robots"
  have len: "i < length ?ts" using assms(4) by simp
  have l: "localTo (viewOf i (robots ! i)) (?ts ! i)" using owned_local [OF owned_child] assms(4) by simp
  have k: "keeps (\<lambda>x y. viewOf i (robots ! i) y = viewOf i (robots ! i) x) (?ts ! j)"
    if "j < length ?ts" "j \<noteq> i" for j
    using owned_keeps_view [OF owned_child] that assms(1,4) by (simp add: nth_eq_iff_index_eq)
  have "viewOf i (robots ! i) (runAlone (us ! i) y) = viewOf i (robots ! i) (runAlone (?ts ! i) x)"
    using interleaved_projection [OF assms(2) len l k] by blast
  moreover have "us ! i = Stop"
    using assms(3,4) interleaved_length [OF assms(2)] by (simp add: finished_Stop)
  ultimately show ?thesis using assms(4) by simp
qed

lemma batch_outside:
  assumes "interleaved (runBatchSteps env ro spec robots) x steps us y"
  shows "viewOutside (set robots) y = viewOutside (set robots) x"
proof -
  have "keeps (\<lambda>x y. viewOutside (set robots) y = viewOutside (set robots) x) t"
    if "t \<in> set (runBatchSteps env ro spec robots)" for t
    using that owned_keeps_outside [OF owned_child] by (auto simp: runBatchSteps_def)
  then show ?thesis using outside.kept [OF assms] by blast
qed

lemma batch_interleaved:
  assumes "distinct robots"
    and "interleaved (runBatchSteps env ro spec robots) (batchStart w) steps us y"
    and "\<forall>t \<in> set us. finished t"
    and "runBatch env 0 ro spec robots w = (res, w')"
  shows "collect (length robots) y = map Some res \<and> sameByRobot (bs_cloud y) w'"
proof -
  obtain steps' z where z: "interleaved (runBatchSteps env ro spec robots) (batchStart w) steps' (map (\<lambda>_. Stop) robots) z"
    "bs_cloud z = w'" "collect (length robots) z = map Some res"
    using sequential_batch [OF assms(4)] by blast
  have v: "viewOf i (robots ! i) y = viewOf i (robots ! i) z" if "i < length robots" for i
    using batch_view [OF assms(1,2,3) that] batch_view [OF assms(1) z(1) _ that] by simp
  have "collect (length robots) y = collect (length robots) z"
    using v by (simp add: collect_def viewOf_def)
  moreover have "sameByRobot (bs_cloud y) (bs_cloud z)"
  proof (rule sameByRobot_views [where robots = "set robots"])
    show "\<exists>i. viewOf i robot y = viewOf i robot z" if "robot \<in> set robots" for robot
      using v that by (metis in_set_conv_nth)
    show "viewOutside (set robots) y = viewOutside (set robots) z"
      using batch_outside [OF assms(2)] batch_outside [OF z(1)] by simp
  qed
  ultimately show ?thesis using z by simp
qed

section \<open>A robot that is named twice\<close>

text \<open>
  The server runs one workflow of an ID at a time.  All children of a batch are started before any is
  waited for, and the ID of a child holds its robot only, so a second child of the same robot in the
  batch is refused when the first was started.
\<close>

definition refusesTaken :: "(nat \<Rightarrow> child_env) \<Rightarrow> string \<Rightarrow> string list \<Rightarrow> bool" where
  "refusesTaken env ro robots \<longleftrightarrow> list_all (\<lambda>j.
     list_ex (\<lambda>i. ch_error (env i) = None \<and> childID ro (robots ! i) = childID ro (robots ! j)) [0..<j] \<longrightarrow>
     ch_error (env j) \<noteq> None) [0..<length robots]"

definition repeats :: "string list \<Rightarrow> nat" where
  "repeats robots = length robots - card (set robots)"

lemma repeats_pos: "\<not> distinct robots \<Longrightarrow> 0 < repeats robots"
  using card_distinct [of robots] card_length [of robots] unfolding repeats_def by linarith

lemma runBatch_nth:
  "j < length robots \<Longrightarrow>
   fst (runBatch env k ro spec robots w) ! j = fst (runChild (env (k + j)) ro spec (robots ! j) v)"
proof (induction robots arbitrary: k w j)
  case (Cons r rs)
  obtain res w1 where 1: "runChild (env k) ro spec r w = (res, w1)" by fastforce
  then have res: "fst (runChild (env k) ro spec r v) = res" using runChild_independent by (metis fst_conv)
  have run: "fst (runBatch env k ro spec (r # rs) w) = res # fst (runBatch env (Suc k) ro spec rs w1)"
    using 1 by (simp split: prod.split)
  show ?case
  proof (cases j)
    case (Suc m)
    then show ?thesis using Cons.IH [of m "Suc k" w1] Cons.prems unfolding run by simp
  qed (use res run in simp)
qed simp

lemma ok_started: "sr_Phase (fst (runChild ce ro spec robot w)) = SingleOK \<Longrightarrow> ch_error ce = None"
  by (auto simp: runChild_def single_defs split: option.splits)

lemma refusesTakenD:
  assumes "refusesTaken env ro robots" and "i < j" and "j < length robots"
    and "ch_error (env i) = None" and "robots ! i = robots ! j"
  shows "ch_error (env j) \<noteq> None"
proof -
  have "\<exists>i \<in> set [0..<j]. ch_error (env i) = None \<and> childID ro (robots ! i) = childID ro (robots ! j)"
    using assms(2,4,5) by (intro bexI [of _ i]) simp_all
  then show ?thesis using assms(1,3) unfolding refusesTaken_def list_all_iff list_ex_iff by simp
qed

lemma repeats_fail:
  assumes "refusesTaken env ro robots"
  shows "int (repeats robots) \<le> failureCount (fst (runBatch env 0 ro spec robots w))"
proof -
  let ?res = "fst (runBatch env 0 ro spec robots w)"
  define oks where "oks = {j. j < length ?res \<and> sr_Phase (?res ! j) = SingleOK}"
  have len: "length ?res = length robots" by (rule runBatch_results)
  have started: "j < length robots \<and> ch_error (env j) = None" if "j \<in> oks" for j
    using that len ok_started runBatch_nth [of j robots env 0 ro spec w w] by (auto simp: oks_def)
  have taken: "robots ! i \<noteq> robots ! j" if "i \<in> oks" "j \<in> oks" "i < j" for i j
    using refusesTakenD [OF assms that(3)] started [OF that(1)] started [OF that(2)] by auto
  have "inj_on ((!) robots) oks" by (rule linorder_inj_onI) (use taken in auto)
  moreover have "(!) robots ` oks \<subseteq> set robots" using started by auto
  ultimately have "card oks \<le> card (set robots)" by (metis List.finite_set card_inj_on_le)
  moreover have "length (filter (\<lambda>r. sr_Phase r = SingleOK) ?res) = card oks"
    by (simp add: length_filter_conv_card oks_def)
  moreover have "length (filter (\<lambda>r. sr_Phase r = SingleOK) ?res) +
      length (filter (\<lambda>r. sr_Phase r \<noteq> SingleOK) ?res) = length robots"
    using sum_length_filter_compl [of "\<lambda>r. sr_Phase r = SingleOK" ?res] len by simp
  ultimately show ?thesis by (simp add: repeats_def failureCount_def)
qed

text \<open>
  C23: a rollout whose canary names a robot twice ends as \<^verbatim>\<open>canary_failed\<close>, and one whose
  first batch names more robots again than the budget allows ends as \<^verbatim>\<open>canary_failed\<close> or, when
  its canary succeeds, as \<^verbatim>\<open>aborted\<close>, however the robots do.
\<close>

theorem repeated_robot_fails_rollout:
  assumes "resolved e spec w cohort" and "0 \<le> CanarySize spec"
    and "refusesTaken (ro_child e ''canary'') (ro_id e) (canaryOf (defaultsApplied spec) cohort)"
    and "refusesTaken (ro_child e ''batch1'') (ro_id e) (batchOf (defaultsApplied spec) cohort)"
  shows "(\<not> distinct (canaryOf (defaultsApplied spec) cohort) \<longrightarrow>
      fst (OTARollout e spec w) = Ok (StatusCanaryFailed, None)) \<and>
    (FailureBudget spec < int (repeats (batchOf (defaultsApplied spec) cohort)) \<and>
     0 < repeats (batchOf (defaultsApplied spec) cohort) \<longrightarrow>
      fst (OTARollout e spec w) =
        Ok (if canaryFails e (defaultsApplied spec) cohort then StatusCanaryFailed else StatusAborted, None))"
proof -
  let ?s = "defaultsApplied spec"
  have budget: "FailureBudget ?s = FailureBudget spec" by (simp add: defaultsApplied_def Let_def)
  have canary: "canaryFails e ?s cohort" if "\<not> distinct (canaryOf ?s cohort)"
    using repeats_fail [OF assms(3), of ?s quietCloud] repeats_pos [OF that]
    by (simp add: canaryFails_def failuresOf_def)
  have batch: "batchFails e ?s cohort" if "FailureBudget spec < int (repeats (batchOf ?s cohort))"
      "0 < repeats (batchOf ?s cohort)"
    using repeats_fail [OF assms(4), of ?s quietCloud] that budget
    by (auto simp: batchFails_def failuresOf_def batchOf_def repeats_def)
  have some: "cohort \<noteq> []" if "\<not> distinct (canaryOf ?s cohort) \<or> 0 < repeats (batchOf ?s cohort)"
    using that by (auto simp: cohort_parts repeats_def)
  have run: "fst (OTARollout e spec w) = Ok (decide e ?s cohort, None)" using OTARollout_spec [OF assms(1,2)] by auto
  have "fst (OTARollout e spec w) = Ok (StatusCanaryFailed, None)" if "\<not> distinct (canaryOf ?s cohort)"
    using run canary some that by (simp add: decide_def)
  moreover have "fst (OTARollout e spec w) =
      Ok (if canaryFails e ?s cohort then StatusCanaryFailed else StatusAborted, None)"
    if "FailureBudget spec < int (repeats (batchOf ?s cohort)) \<and> 0 < repeats (batchOf ?s cohort)"
    using run batch some that by (simp add: decide_def)
  ultimately show ?thesis by blast
qed

section \<open>Witness\<close>

text \<open>A canary of two robots, the same one twice, which is healthy.\<close>

definition twiceRollout :: rollout_env where
  "twiceRollout = demoRollout (\<lambda>name k. if k = 0 then goodChild
     else goodChild\<lparr>ch_error := Some (GoError ''child workflow execution already started'')\<rparr>)"

definition twiceSpec :: rolloutSpec where
  "twiceSpec = demoSpec\<lparr>CanarySize := 2, CohortSelector := \<lparr>RobotIDs = [''r1'', ''r1''], Labels = []\<rparr>\<rparr>"

theorem repeated_robot_fails_rollout_witness:
  "fst (OTARollout twiceRollout twiceSpec demoCloud) = Ok (''canary_failed'', None)"
proof -
  have 1: "resolved twiceRollout twiceSpec demoCloud [''r1'', ''r1'']" by code_simp
  have 2: "0 \<le> CanarySize twiceSpec" by code_simp
  have 3: "refusesTaken (ro_child twiceRollout ''canary'') (ro_id twiceRollout)
      (canaryOf (defaultsApplied twiceSpec) [''r1'', ''r1''])" by code_simp
  have 4: "refusesTaken (ro_child twiceRollout ''batch1'') (ro_id twiceRollout)
      (batchOf (defaultsApplied twiceSpec) [''r1'', ''r1''])" by code_simp
  have 5: "\<not> distinct (canaryOf (defaultsApplied twiceSpec) [''r1'', ''r1''])" by code_simp
  show ?thesis using repeated_robot_fails_rollout [OF 1 2 3 4] 5 by (simp add: status_defs)
qed

end
