(* ===== verification/RolloutConcurrent.thy ===== *)
theory RolloutConcurrent
  imports Batch
begin

text \<open>
  The rollout workflow (\<^verbatim>\<open>workflow_rollout.go\<close>) with the children of each batch side by side.  A
  schedule says, batch by batch, whose turn it is; a batch whose children have not all ended when
  the schedule is over leaves the rollout waiting.  Every interleaving of a batch is one of these
  schedules (\<open>interleaved_schedule\<close>).
\<close>

section \<open>The workflow under a schedule\<close>

definition runBatchUnder ::
  "nat list \<Rightarrow> (nat \<Rightarrow> child_env) \<Rightarrow> string \<Rightarrow> rolloutSpec \<Rightarrow> string list \<Rightarrow> cloud \<Rightarrow> (singleResult list \<times> cloud) option" where
  "runBatchUnder turns env rolloutID spec robots w =
     (case runSchedule turns (runBatchSteps env rolloutID spec robots) (batchStart w) of (steps, us, y) \<Rightarrow>
       if list_all finished us
       then map_option (\<lambda>results. (results, bs_cloud y)) (those (collect (length robots) y))
       else None)"

definition runRestUnder ::
  "(string \<Rightarrow> nat list) \<Rightarrow> rollout_env \<Rightarrow> rolloutSpec \<Rightarrow> string list \<Rightarrow> cloud \<Rightarrow>
     ((string \<times> go_error option) go \<times> cloud) option" where
  "runRestUnder turns e spec rest w =
     (if rest = [] then Some (Ok (StatusCompleted, None), endRollout e StatusCompleted '''' w)
      else
        let batchSize = batchSizeOf spec rest;
            n = minInt batchSize (int (length rest)) in
        case sliceTo n rest of None \<Rightarrow> Some (Panic slicePanic, w) | Some batchRobots \<Rightarrow>
        (case runBatchUnder (turns ''batch1'') (ro_child e ''batch1'') (ro_id e) spec batchRobots w of
           None \<Rightarrow> None
         | Some (batchResults, w1) \<Rightarrow>
          (if failureCount batchResults > FailureBudget spec then
             Some (Ok (StatusAborted, None), endRollout e StatusAborted
               (''batch1 failures '' @ showInt (failureCount batchResults) @ '' exceeded budget '' @
                showInt (FailureBudget spec)) w1)
           else
             let remainder = drop (nat n) rest in
             if remainder = [] then Some (Ok (StatusCompleted, None), endRollout e StatusCompleted '''' w1)
             else
               (case runBatchUnder (turns ''batch2'') (ro_child e ''batch2'') (ro_id e) spec remainder w1 of
                  None \<Rightarrow> None
                | Some (remResults, w2) \<Rightarrow>
                 (if failureCount remResults > i64 (FailureBudget spec * 4) then
                    Some (Ok (StatusAborted, None), endRollout e StatusAborted
                      (''batch2 failures '' @ showInt (failureCount remResults) @ '' exceeded scaled budget'') w2)
                  else Some (Ok (StatusCompleted, None), endRollout e StatusCompleted '''' w2))))))"

definition OTARolloutUnder ::
  "(string \<Rightarrow> nat list) \<Rightarrow> rollout_env \<Rightarrow> rolloutSpec \<Rightarrow> cloud \<Rightarrow>
     ((string \<times> go_error option) go \<times> cloud) option" where
  "OTARolloutUnder turns e spec0 w0 =
     (let spec = defaultsApplied spec0 in
      case executeActivity maxAttempts
             (actRecordRolloutStarted (ro_specJSON e) (ro_id e) spec) (ro_start e) w0 of
        (Inl err, w1) \<Rightarrow> Some (Ok ('''', Some err), w1)
      | (Inr u, w1) \<Rightarrow>
     (case executeActivity maxAttempts (ResolveCohort (CohortSelector spec)) (ro_cohort e) w1 of
        (Inl err, w2) \<Rightarrow>
          Some (Ok (StatusAborted, Some err),
           endRollout e StatusAborted (''resolve cohort failed: '' @ ro_errText e (error_text err)) w2)
      | (Inr cohort, w2) \<Rightarrow>
         (if cohort = [] then
            Some (Ok (StatusEmptyCohort, None), endRollout e StatusEmptyCohort ''no robots matched selector'' w2)
          else
            let canarySize = minInt (CanarySize spec) (int (length cohort)) in
            case sliceTo canarySize cohort of None \<Rightarrow> Some (Panic slicePanic, w2) | Some canaryRobots \<Rightarrow>
            (case runBatchUnder (turns ''canary'') (ro_child e ''canary'') (ro_id e) spec canaryRobots w2 of
               None \<Rightarrow> None
             | Some (canaryResults, w3) \<Rightarrow>
              (if failureCount canaryResults > 0 then
                 Some (Ok (StatusCanaryFailed, None), endRollout e StatusCanaryFailed
                   (''canary failed on '' @ showInt (failureCount canaryResults) @ '' robot(s)'') w3)
               else runRestUnder turns e spec (drop (nat canarySize) cohort) w3)))))"

section \<open>Traces that differ in order only\<close>

text \<open>The same result, and the same messages and rows robot by robot.\<close>

definition agree :: "'r \<times> cloud \<Rightarrow> 'r \<times> cloud \<Rightarrow> bool" where
  "agree p q \<longleftrightarrow> fst p = fst q \<and> sameByRobot (snd p) (snd q)"

lemma sameByRobot_refl [simp]: "sameByRobot w w"
  by (simp add: sameByRobot_def)

lemma sameByRobot_trans [trans]: "sameByRobot w w1 \<Longrightarrow> sameByRobot w1 w2 \<Longrightarrow> sameByRobot w w2"
  by (simp add: sameByRobot_def)

lemma sameByRobot_appendTo: "sameByRobot w w' \<Longrightarrow> sameByRobot (appendTo ms rs bs w) (appendTo ms rs bs w')"
  by (simp add: sameByRobot_def appendTo_def)

lemma appendTo_appendTo: "appendTo ms rs bs (appendTo ms' rs' bs' w) = appendTo (ms' @ ms) (rs' @ rs) (bs' @ bs) w"
  by (simp add: appendTo_def)

text \<open>A child, alone, appends what does not depend on the state.\<close>

lemma owned_alone:
  "owned i robot t \<Longrightarrow> \<exists>ms rs bs res. \<forall>x. runAlone t x =
     x\<lparr>bs_cloud := appendTo ms rs bs (bs_cloud x), bs_results := (bs_results x)(i \<mapsto> res)\<rparr>"
proof (induction rule: owned.induct)
  case (owned_settle res)
  show ?case
    by (intro exI [of _ "[]"] exI [of _ res]) (simp add: settle_def runAlone_Step fun_upd_def)
next
  case (owned_add ms rs bs t)
  then obtain ms' rs' bs' res where IH: "\<And>x. runAlone t x =
     x\<lparr>bs_cloud := appendTo ms' rs' bs' (bs_cloud x), bs_results := (bs_results x)(i \<mapsto> res)\<rparr>" by blast
  show ?case
    by (intro exI [of _ "ms @ ms'"] exI [of _ "rs @ rs'"] exI [of _ "bs @ bs'"] exI [of _ res])
      (simp add: runAlone_Step IH appendTo_appendTo fun_upd_def)
qed

lemma runChild_adds: "\<exists>res ms rs bs. \<forall>w. runChild ce ro spec robot w = (res, appendTo ms rs bs w)"
proof -
  obtain ms rs bs res where x: "\<And>x. runAlone (runChildSteps 0 ce ro spec robot) x =
     x\<lparr>bs_cloud := appendTo ms rs bs (bs_cloud x), bs_results := (bs_results x)(0 \<mapsto> res)\<rparr>"
    using owned_alone [OF owned_child] by blast
  have "bs_cloud (runAlone (runChildSteps 0 ce ro spec robot) (batchStart w)) = appendTo ms rs bs w"
    "bs_results (runAlone (runChildSteps 0 ce ro spec robot) (batchStart w)) 0 = Some res" for w
    by (simp_all add: x batchStart_def)
  note alone = this
  have "runChild ce ro spec robot w = (res, appendTo ms rs bs w)" for w
  proof -
    obtain r v where "runChild ce ro spec robot w = (r, v)" by fastforce
    then show ?thesis using alone [of w] by (simp add: alone_runChild batchStart_def)
  qed
  then show ?thesis by blast
qed

lemma runBatch_adds: "\<exists>res ms rs bs. \<forall>w. runBatch env k ro spec robots w = (res, appendTo ms rs bs w)"
proof (induction robots arbitrary: k)
  case Nil
  then show ?case by (metis appendTo_nothing runBatch.simps(1))
next
  case (Cons r rs)
  obtain res ms bs cs where 1: "\<And>w. runChild (env k) ro spec r w = (res, appendTo ms bs cs w)"
    using runChild_adds by blast
  obtain res' ms' bs' cs' where "\<And>w. runBatch env (Suc k) ro spec rs w = (res', appendTo ms' bs' cs' w)"
    using Cons.IH by blast
  with 1 show ?case
    by (intro exI [of _ "res # res'"] exI [of _ "ms @ ms'"] exI [of _ "bs @ bs'"] exI [of _ "cs @ cs'"])
      (simp add: appendTo_appendTo)
qed

lemma runBatch_agree:
  assumes "sameByRobot w w'"
  shows "agree (runBatch env k ro spec robots w) (runBatch env k ro spec robots w')"
proof -
  obtain res ms rs bs where "\<And>w. runBatch env k ro spec robots w = (res, appendTo ms rs bs w)"
    using runBatch_adds by blast
  then show ?thesis using assms by (simp add: agree_def sameByRobot_appendTo)
qed

lemma those_Some: "those (map Some xs) = Some xs"
  by (induction xs) simp_all

text \<open>A batch under any schedule that ends it.\<close>

lemma runBatchUnder_agree:
  assumes "distinct robots" and "runBatchUnder turns env ro spec robots w = Some (res, w1)" and "sameByRobot w w'"
  shows "agree (res, w1) (runBatch env 0 ro spec robots w')"
proof -
  obtain steps us y where run: "runSchedule turns (runBatchSteps env ro spec robots) (batchStart w) = (steps, us, y)"
    by (metis prod_cases3)
  with assms(2) have over: "\<forall>t \<in> set us. finished t"
    and res: "those (collect (length robots) y) = Some res" "w1 = bs_cloud y"
    by (auto simp: runBatchUnder_def list_all_iff split: if_splits)
  obtain res0 w0 where seq: "runBatch env 0 ro spec robots w = (res0, w0)" by fastforce
  from batch_interleaved [OF assms(1) runSchedule_interleaved [OF run] over seq]
  have "agree (res, w1) (runBatch env 0 ro spec robots w)"
    using res seq by (simp add: agree_def those_Some)
  then show ?thesis
    using runBatch_agree [OF assms(3), of env 0 ro spec robots] by (auto simp: agree_def intro: sameByRobot_trans)
qed

lemma runBatchUnder_agreeE:
  assumes "runBatchUnder turns env ro spec robots w = Some (res, w1)" and "distinct robots" and "sameByRobot w w'"
  obtains v where "runBatch env 0 ro spec robots w' = (res, v)" and "sameByRobot w1 v"
  using runBatchUnder_agree [OF assms(2,1,3)] that by (cases "runBatch env 0 ro spec robots w'") (simp add: agree_def)

lemma runBatchUnder_sequential: "\<exists>turns. runBatchUnder turns env ro spec robots w = Some (runBatch env 0 ro spec robots w)"
proof -
  obtain res w' where seq: "runBatch env 0 ro spec robots w = (res, w')" by fastforce
  from sequential_batch [OF seq] obtain steps y where
    y: "interleaved (runBatchSteps env ro spec robots) (batchStart w) steps (map (\<lambda>_. Stop) robots) y"
      "bs_cloud y = w'" "collect (length robots) y = map Some res" by blast
  from interleaved_schedule [OF y(1)] y(2,3) seq show ?thesis
    by (intro exI [of _ "map fst steps"]) (simp add: runBatchUnder_def list_all_iff those_Some)
qed

text \<open>The end of a rollout is recorded in the same way.\<close>

lemma executeActivity_agree:
  assumes "\<And>e w w'. sameByRobot w w' \<Longrightarrow> agree (act e w) (act e w')" and "sameByRobot w w'"
  shows "agree (executeActivity n act es w) (executeActivity n act es w')"
  using assms(2)
proof (induction es arbitrary: n w w')
  case (Cons e es)
  obtain r v where a: "act e w = (r, v)" by fastforce
  moreover obtain v' where "act e w' = (r, v')" "sameByRobot v v'"
    using assms(1) [OF Cons.prems, of e] a by (cases "act e w'") (auto simp: agree_def)
  ultimately show ?case using Cons.IH [of v v' "n - 1"] by (cases r) (auto simp: agree_def)
qed (simp add: agree_def)

lemma endRollout_agree: "sameByRobot w w' \<Longrightarrow> sameByRobot (endRollout e st d w) (endRollout e st d w')"
proof -
  assume same: "sameByRobot w w'"
  have "agree (actRecordRolloutEnded (ro_id e) st d ev v) (actRecordRolloutEnded (ro_id e) st d ev v')"
    if "sameByRobot v v'" for ev v v'
    using that by (simp add: agree_def actRecordRolloutEnded_def dbActivity_def RecordRolloutEnded_def execStmt_def
        sameByRobot_def split: option.split)
  from executeActivity_agree [where act = "actRecordRolloutEnded (ro_id e) st d", OF this same]
  show ?thesis by (simp add: endRollout_def agree_def)
qed

section \<open>Every schedule of a rollout\<close>

lemma runRestUnder_agree:
  assumes "distinct rest" and "runRestUnder turns e spec rest w = Some (out, v)" and "sameByRobot w w'"
  shows "agree (out, v) (runRest e spec rest w')"
proof -
  let ?b = "take (nat (batchSizeOf spec rest)) rest" and ?r = "drop (nat (batchSizeOf spec rest)) rest"
  have d: "distinct ?b" "distinct ?r" using assms(1) by simp_all
  show ?thesis
  proof (cases "rest = []")
    case True
    then show ?thesis using assms(2,3) by (auto simp: runRestUnder_def runRest_def agree_def intro: endRollout_agree)
  next
    case False
    obtain res1 w1 where b: "runBatchUnder (turns ''batch1'') (ro_child e ''batch1'') (ro_id e) spec ?b w = Some (res1, w1)"
      using assms(2) False by (auto simp: runRestUnder_def Let_def slice_batch split: option.splits)
    obtain w1' where b': "runBatch (ro_child e ''batch1'') 0 (ro_id e) spec ?b w' = (res1, w1')" "sameByRobot w1 w1'"
      using b d(1) assms(3) by (rule runBatchUnder_agreeE)
    show ?thesis
    proof (cases "failureCount res1 > FailureBudget spec \<or> ?r = []")
      case True
      then show ?thesis using assms(2) False b b'
        by (auto simp: runRestUnder_def runRest_def agree_def Let_def slice_batch intro: endRollout_agree split: if_splits)
    next
      case second: False
      obtain res2 w2 where c: "runBatchUnder (turns ''batch2'') (ro_child e ''batch2'') (ro_id e) spec ?r w1 = Some (res2, w2)"
        using assms(2) False b second by (auto simp: runRestUnder_def Let_def slice_batch split: option.splits)
      obtain w2' where c': "runBatch (ro_child e ''batch2'') 0 (ro_id e) spec ?r w1' = (res2, w2')" "sameByRobot w2 w2'"
        using c d(2) b'(2) by (rule runBatchUnder_agreeE)
      show ?thesis using assms(2) False b b' second c c'
        by (auto simp: runRestUnder_def runRest_def agree_def Let_def slice_batch intro: endRollout_agree split: if_splits)
    qed
  qed
qed

lemma runRestUnder_sequential:
  "\<exists>t1 t2. \<forall>turns. turns ''batch1'' = t1 \<longrightarrow> turns ''batch2'' = t2 \<longrightarrow>
     runRestUnder turns e spec rest w = Some (runRest e spec rest w)"
proof -
  let ?b = "take (nat (batchSizeOf spec rest)) rest" and ?r = "drop (nat (batchSizeOf spec rest)) rest"
  obtain res1 w1 where b: "runBatch (ro_child e ''batch1'') 0 (ro_id e) spec ?b w = (res1, w1)" by fastforce
  obtain res2 w2 where c: "runBatch (ro_child e ''batch2'') 0 (ro_id e) spec ?r w1 = (res2, w2)" by fastforce
  obtain t1 where t1: "runBatchUnder t1 (ro_child e ''batch1'') (ro_id e) spec ?b w = Some (res1, w1)"
    using runBatchUnder_sequential [of "ro_child e ''batch1''" "ro_id e" spec ?b w] b by auto
  obtain t2 where t2: "runBatchUnder t2 (ro_child e ''batch2'') (ro_id e) spec ?r w1 = Some (res2, w2)"
    using runBatchUnder_sequential [of "ro_child e ''batch2''" "ro_id e" spec ?r w1] c by auto
  show ?thesis
    by (rule exI [of _ t1], rule exI [of _ t2])
      (simp add: runRestUnder_def runRest_def Let_def slice_batch b c t1 t2 del: append.simps)
qed

lemma OTARolloutUnder_resolved:
  assumes "resolved e spec w cohort"
  shows "OTARolloutUnder turns e spec w =
    (let s = defaultsApplied spec; w1 = snd (rolloutOpened e spec w) in
     if cohort = [] then
       Some (Ok (StatusEmptyCohort, None), endRollout e StatusEmptyCohort ''no robots matched selector'' w1)
     else case sliceTo (minInt (CanarySize s) (int (length cohort))) cohort of
       None \<Rightarrow> Some (Panic slicePanic, w1)
     | Some canaryRobots \<Rightarrow>
       (case runBatchUnder (turns ''canary'') (ro_child e ''canary'') (ro_id e) s canaryRobots w1 of
          None \<Rightarrow> None
        | Some (canaryResults, w3) \<Rightarrow>
          (if failureCount canaryResults > 0 then
             Some (Ok (StatusCanaryFailed, None), endRollout e StatusCanaryFailed
               (''canary failed on '' @ showInt (failureCount canaryResults) @ '' robot(s)'') w3)
           else runRestUnder turns e s (drop (nat (minInt (CanarySize s) (int (length cohort)))) cohort) w3)))"
proof -
  obtain w1 where o: "rolloutOpened e spec w = (Inr (), w1)"
    and c: "fst (executeActivity maxAttempts (ResolveCohort (CohortSelector (defaultsApplied spec))) (ro_cohort e) w1) = Inr cohort"
    using assms by (cases "rolloutOpened e spec w") (auto simp: resolved_def)
  have "executeActivity maxAttempts (ResolveCohort (CohortSelector (defaultsApplied spec))) (ro_cohort e) w1 = (Inr cohort, w1)"
    using c ResolveCohort_state [of maxAttempts "CohortSelector (defaultsApplied spec)" "ro_cohort e" w1]
    by (simp add: prod_eq_iff)
  then show ?thesis using o [unfolded rolloutOpened_def] o
    by (simp add: OTARolloutUnder_def Let_def del: append.simps)
qed

lemma OTARolloutUnder_sequential:
  assumes "resolved e spec w cohort"
  shows "\<exists>turns. OTARolloutUnder turns e spec w = Some (OTARollout e spec w)"
proof -
  let ?s = "defaultsApplied spec" and ?w = "snd (rolloutOpened e spec w)"
  let ?n = "minInt (CanarySize ?s) (int (length cohort))"
  obtain res w3 where c: "runBatch (ro_child e ''canary'') 0 (ro_id e) ?s (take (nat ?n) cohort) ?w = (res, w3)"
    by fastforce
  obtain t0 where t0: "runBatchUnder t0 (ro_child e ''canary'') (ro_id e) ?s (take (nat ?n) cohort) ?w = Some (res, w3)"
    using runBatchUnder_sequential [of "ro_child e ''canary''" "ro_id e" ?s "take (nat ?n) cohort" ?w] c by auto
  obtain t1 t2 where rest: "\<And>turns. turns ''batch1'' = t1 \<Longrightarrow> turns ''batch2'' = t2 \<Longrightarrow>
      runRestUnder turns e ?s (drop (nat ?n) cohort) w3 = Some (runRest e ?s (drop (nat ?n) cohort) w3)"
    using runRestUnder_sequential by metis
  let ?turns = "(\<lambda>name. [])(''canary'' := t0, ''batch1'' := t1, ''batch2'' := t2)"
  have "runRestUnder ?turns e ?s (drop (nat ?n) cohort) w3 = Some (runRest e ?s (drop (nat ?n) cohort) w3)"
    by (rule rest) simp_all
  then show ?thesis using c t0
    by (intro exI [of _ ?turns])
      (simp add: OTARolloutUnder_resolved [OF assms] OTARollout_resolved [OF assms] rolloutBody_def Let_def
        sliceTo_def del: append.simps split: option.split)
qed

text \<open>
  C5: however the children of the three batches interleave, a rollout over robots that are all
  different ends with the decision that the workflow makes with the children one after the other;
  every robot was sent the same messages in the same order and has the same rows, and the rows of
  the rollout are the same.  One of the interleavings is the sequential run itself.
\<close>

theorem rollout_interleavings_agree:
  assumes "resolved e spec w cohort" and "distinct cohort"
  shows "(\<exists>turns. OTARolloutUnder turns e spec w = Some (OTARollout e spec w)) \<and>
    (OTARolloutUnder turns e spec w = Some (out, v) \<longrightarrow>
       out = fst (OTARollout e spec w) \<and> sameByRobot v (snd (OTARollout e spec w)))"
proof -
  let ?s = "defaultsApplied spec" and ?w = "snd (rolloutOpened e spec w)"
  let ?n = "minInt (CanarySize ?s) (int (length cohort))"
  note unf = OTARolloutUnder_resolved [OF assms(1)] OTARollout_resolved [OF assms(1)] rolloutBody_def Let_def agree_def
  have "agree (out, v) (OTARollout e spec w)" if run: "OTARolloutUnder turns e spec w = Some (out, v)"
  proof (cases "cohort = [] \<or> sliceTo ?n cohort = None")
    case True
    then show ?thesis using run by (auto simp: unf)
  next
    case False
    then obtain canary where canary: "sliceTo ?n cohort = Some canary" by blast
    then have d: "distinct canary" "distinct (drop (nat ?n) cohort)"
      using assms(2) by (auto simp: sliceTo_def split: if_splits)
    obtain res w3 where b: "runBatchUnder (turns ''canary'') (ro_child e ''canary'') (ro_id e) ?s canary ?w = Some (res, w3)"
      using run False canary by (auto simp: unf split: option.splits)
    obtain w3' where b': "runBatch (ro_child e ''canary'') 0 (ro_id e) ?s canary ?w = (res, w3')" "sameByRobot w3 w3'"
      using b d(1) sameByRobot_refl by (rule runBatchUnder_agreeE)
    show ?thesis
    proof (cases "failureCount res > 0")
      case True
      then show ?thesis using run False canary b b' by (auto simp: unf intro: endRollout_agree)
    next
      case passed: False
      then have "runRestUnder turns e ?s (drop (nat ?n) cohort) w3 = Some (out, v)"
        using run False canary b by (simp add: unf)
      from runRestUnder_agree [OF d(2) this b'(2)] show ?thesis
        using passed False canary b' by (simp add: unf)
    qed
  qed
  then show ?thesis using OTARolloutUnder_sequential [OF assms(1)] by (auto simp: agree_def)
qed

section \<open>Witness\<close>

text \<open>A canary of two robots whose children take turns; one of them fails.\<close>

definition turnsRollout :: rollout_env where
  "turnsRollout = demoRollout (\<lambda>name k. if k = 0 then badChild else goodChild)"

definition turnsSpec :: rolloutSpec where
  "turnsSpec = demoSpec\<lparr>CanarySize := 2, CohortSelector := \<lparr>RobotIDs = [''r1'', ''r2''], Labels = []\<rparr>\<rparr>"

definition demoTurns :: "string \<Rightarrow> nat list" where
  "demoTurns name = [1, 0, 0, 1, 0, 1, 0, 0, 0]"

theorem rollout_interleavings_agree_witness:
  "map_option fst (OTARolloutUnder demoTurns turnsRollout turnsSpec demoCloud) = Some (Ok (''canary_failed'', None))"
proof -
  have 1: "resolved turnsRollout turnsSpec demoCloud [''r1'', ''r2'']" by code_simp
  have 2: "distinct [''r1'', ''r2'']" by simp
  have canary: "sliceTo (minInt (CanarySize (defaultsApplied turnsSpec)) (int (length [''r1'', ''r2'']))) [''r1'', ''r2''] =
      Some [''r1'', ''r2'']" by code_simp
  have "map_option (map sr_Phase \<circ> fst) (runBatchUnder (demoTurns ''canary'') (ro_child turnsRollout ''canary'')
      (ro_id turnsRollout) (defaultsApplied turnsSpec) [''r1'', ''r2''] (snd (rolloutOpened turnsRollout turnsSpec demoCloud)))
      = Some [''rolled_back'', ''ok'']" by code_simp
  then obtain res w3 where b: "runBatchUnder (demoTurns ''canary'') (ro_child turnsRollout ''canary'') (ro_id turnsRollout)
      (defaultsApplied turnsSpec) [''r1'', ''r2''] (snd (rolloutOpened turnsRollout turnsSpec demoCloud)) = Some (res, w3)"
    and res: "map sr_Phase res = [''rolled_back'', ''ok'']" by auto
  from res have fails: "failureCount res > 0" by (auto simp: failureCount_def single_defs)
  obtain out v where run: "OTARolloutUnder demoTurns turnsRollout turnsSpec demoCloud = Some (out, v)"
    using canary b fails by (simp add: OTARolloutUnder_resolved [OF 1] Let_def)
  have seq: "fst (OTARollout turnsRollout turnsSpec demoCloud) = Ok (''canary_failed'', None)" by code_simp
  from run show ?thesis using rollout_interleavings_agree [OF 1 2, of demoTurns out v] seq by simp
qed

end
