(* ===== verification/Events.thy ===== *)
theory Events
  imports Prelude
begin

text \<open>
  Systems that run on events: a step takes an event and a state and gives the next state, or
  nothing when the event cannot happen; a run takes a list of events.  What a client proves of one
  step carries over to every run.  \<open>Distributed\<close> interprets the locale on the update of one robot,
  \<open>Interruption\<close> on the same system with a workflow that may be cancelled.
\<close>

locale event_system =
  fixes step :: "'e \<Rightarrow> 's \<Rightarrow> 's option" and run :: "'e list \<Rightarrow> 's \<Rightarrow> 's option"
  assumes run_Nil: "run [] s = Some s"
    and run_Cons: "run (e # es) s = (case step e s of None \<Rightarrow> None | Some s' \<Rightarrow> run es s')"
begin

lemma run_append: "run (es @ fs) s = (case run es s of None \<Rightarrow> None | Some s' \<Rightarrow> run fs s')"
  by (induction es arbitrary: s) (auto simp: run_Nil run_Cons split: option.split)

text \<open>A property that every step keeps holds after every run.\<close>

lemma run_invariant:
  assumes "run es s = Some s'" and "P s" and "\<And>s e s'. P s \<Longrightarrow> step e s = Some s' \<Longrightarrow> P s'"
  shows "P s'"
  using assms(1,2)
proof (induction es arbitrary: s)
  case Nil
  then show ?case by (simp add: run_Nil)
next
  case (Cons e es)
  then show ?case using assms(3) by (auto simp: run_Cons split: option.splits)
qed

end

text \<open>
  One system inside another: every event of the first is one of the second with the same effect on
  the part of the state they share.
\<close>

locale embedding =
  inner: event_system step run + outer: event_system step' run'
  for step :: "'e \<Rightarrow> 's \<Rightarrow> 's option" and run and step' :: "'f \<Rightarrow> 't \<Rightarrow> 't option" and run' +
  fixes lift :: "'e \<Rightarrow> 'f" and put :: "'s \<Rightarrow> 't"
  assumes lift_step: "step' (lift e) (put s) = map_option put (step e s)"
begin

lemma lift_run: "run' (map lift es) (put s) = map_option put (run es s)"
  by (induction es arbitrary: s)
    (auto simp: inner.run_Nil inner.run_Cons outer.run_Nil outer.run_Cons lift_step split: option.split)

end

end
