(* ===== verification/Distributed.thy ===== *)
theory Distributed
  imports Races Events
begin

text \<open>
  The update of one robot as a distributed system.  Its parts are the robot (the executor's goroutines
  of \<open>AgentConcurrent\<close>), the broker, the bridge (\<^verbatim>\<open>cloud/internal/ota/mqttbridge.go\<close>), the
  Temporal server's signal queues, the update workflow (\<^verbatim>\<open>workflow_singlerobot.go\<close>) and its
  rollback child (\<^verbatim>\<open>workflow_rollback.go\<close>), the two workflows as machines that take one signal,
  timer or activity result at a time.  A run is a list of events in any order: the broker may
  deliver a message late, twice, out of order or never, a timer may fire at any moment of a wait, an
  attempt to send may end in any way, other commands may reach the robot.  The server refuses a
  signal to a workflow that is not open, which the bridge logs and drops.
\<close>

section \<open>The workflows as machines\<close>

datatype stage = AwaitPulled | AwaitSwapped | AwaitHealthy

fun wanted :: "stage \<Rightarrow> string" where
  "wanted AwaitPulled = ''PHASE_PULLED''"
| "wanted AwaitSwapped = ''PHASE_SWAPPED''"
| "wanted AwaitHealthy = ''PHASE_HEALTHY''"

fun reasonPrefix :: "stage \<Rightarrow> string" where
  "reasonPrefix AwaitPulled = ''pull timeout/error: ''"
| "reasonPrefix AwaitSwapped = ''swap timeout/error: ''"
| "reasonPrefix AwaitHealthy = ''smoke check failed: ''"

fun stageTimeout :: "rolloutSpec \<Rightarrow> stage \<Rightarrow> duration" where
  "stageTimeout spec AwaitPulled = PullTimeout spec"
| "stageTimeout spec AwaitSwapped = SwapTimeout spec"
| "stageTimeout spec AwaitHealthy = SmokeTimeout spec"

fun nextStage :: "stage \<Rightarrow> stage option" where
  "nextStage AwaitPulled = Some AwaitSwapped"
| "nextStage AwaitSwapped = Some AwaitHealthy"
| "nextStage AwaitHealthy = None"

text \<open>What \<^verbatim>\<open>waitForPhase\<close> makes of one signal.\<close>

datatype reaction = Ignored | Passed | Broken go_error

definition react :: "string \<Rightarrow> ackSignal \<Rightarrow> reaction" where
  "react want sig =
     (if sig_Phase sig = want then Passed
      else if sig_Phase sig = ''PHASE_FAILED''
        then Broken (GoError (''robot reported failed: '' @ sig_Detail sig))
      else if sig_Phase sig = ''PHASE_ROLLED_BACK''
        then Broken (GoError (''robot rolled back independently: '' @ sig_Detail sig))
      else Ignored)"

text \<open>
  The update workflow: attempts left to send the command, the wait it is in, the rollback it waits
  for with the stage and the error that led to it, a result still to be recorded, the end.
\<close>

datatype updateState =
    Sending nat
  | Awaiting stage
  | RollingBack stage go_error
  | Recording singleResult
  | Ended singleResult

text \<open>The rollback child: not started, sending with its reason, waiting, recording, ended.\<close>

datatype rollbackState =
    NotStarted
  | RbSending nat string
  | RbAwaiting
  | RbRecording string string "go_error option"
  | RbEnded "go_error option"

section \<open>The system\<close>

record 's deployment =
  su_cfg :: "'s executorConfig"
  su_input :: singleInput
  su_started :: time
  su_ended :: time
  su_errText :: "string \<Rightarrow> string"

record 's system =
  sy_robot :: "'s executor"
  sy_tasks :: "'s executor task list"
  sy_cloud :: cloud
  sy_update :: updateState
  sy_updateSignals :: "ackSignal list"
  sy_rollback :: rollbackState
  sy_rollbackSignals :: "ackSignal list"

abbreviation rolloutOf :: "'s deployment \<Rightarrow> string" where "rolloutOf su \<equiv> si_RolloutID (su_input su)"
abbreviation robotOf :: "'s deployment \<Rightarrow> string" where "robotOf su \<equiv> si_RobotID (su_input su)"

definition resultOf :: "'s deployment \<Rightarrow> string \<Rightarrow> string \<Rightarrow> singleResult" where
  "resultOf su phase detail = \<lparr>sr_RobotID = robotOf su, sr_Phase = phase, sr_Detail = detail,
     sr_StartedAt = su_started su, sr_EndedAt = su_ended su\<rparr>"

datatype event =
    SendAttempt token
  | Deliver nat
  | OtherCommand body
  | Turn nat
  | BridgeHandles nat
  | TakeSignal
  | TimerFires
  | StartRollback "go_error option"
  | RbSendAttempt token
  | RbTakeSignal
  | RbTimerFires
  | RbRecord "db_env list"
  | Join
  | Record "db_env list"

text \<open>An attempt of \<^verbatim>\<open>SendOTACommand\<close> ends; the retry policy allows five.\<close>

definition sendAttempt :: "'s deployment \<Rightarrow> token \<Rightarrow> 's system \<Rightarrow> 's system option" where
  "sendAttempt su tok s =
     (case sy_update s of
        Sending n \<Rightarrow>
          (case SendOTACommand (rolloutOf su) (robotOf su) (si_Spec (su_input su)) tok (sy_cloud s) of
             (r, w) \<Rightarrow> Some (s\<lparr>sy_cloud := w, sy_update :=
               (case r of
                  Inr u \<Rightarrow> Awaiting AwaitPulled
                | Inl err \<Rightarrow>
                    if n \<le> 1 then Recording (resultOf su SingleFailed
                      (''send command failed: '' @ su_errText su (error_text err)))
                    else Sending (n - 1))\<rparr>))
      | _ \<Rightarrow> None)"

text \<open>The broker hands a command to the robot, which starts a goroutine for it.\<close>

definition deliver :: "'s deployment \<Rightarrow> nat \<Rightarrow> 's system \<Rightarrow> 's system option" where
  "deliver su n s =
     (if n < length (cl_outbox (sy_cloud s)) then
        (case cl_outbox (sy_cloud s) ! n of (topic, qos, body) \<Rightarrow>
          if topic = cmdOtaTopic (ec_RobotID (su_cfg su))
          then Some (s\<lparr>sy_tasks := sy_tasks s @ [handleSteps (su_cfg su) (Some body)]\<rparr>) else None)
      else None)"

text \<open>A command of another rollout, whose ID the API makes of the same length, or not a command at all.\<close>

definition foreign :: "'s deployment \<Rightarrow> body \<Rightarrow> bool" where
  "foreign su body = (case unmarshalCommand body of
     Inl err \<Rightarrow> True
   | Inr cmd \<Rightarrow> cmd_RolloutID cmd \<noteq> rolloutOf su \<and> length (cmd_RolloutID cmd) = length (rolloutOf su))"

definition turn :: "nat \<Rightarrow> 's system \<Rightarrow> 's system option" where
  "turn i s =
     (if i < length (sy_tasks s) then
        (case sy_tasks s ! i of
           Stop \<Rightarrow> None
         | Step f \<Rightarrow> (case f (sy_robot s) of (x, t) \<Rightarrow>
             Some (s\<lparr>sy_robot := x, sy_tasks := (sy_tasks s)[i := t]\<rparr>)))
      else None)"

text \<open>\<^verbatim>\<open>SignalWorkflow\<close>: queued when the workflow is open, else an error, which the bridge logs.\<close>

definition updateOpen :: "'s system \<Rightarrow> bool" where
  "updateOpen s = (case sy_update s of Ended res \<Rightarrow> False | _ \<Rightarrow> True)"

definition rollbackOpen :: "'s system \<Rightarrow> bool" where
  "rollbackOpen s = (case sy_rollback s of NotStarted \<Rightarrow> False | RbEnded err \<Rightarrow> False | _ \<Rightarrow> True)"

definition signalWorkflow :: "'s deployment \<Rightarrow> string \<Rightarrow> ackSignal \<Rightarrow> 's system \<Rightarrow> 's system" where
  "signalWorkflow su target sig s =
     (if target = childID (rolloutOf su) (robotOf su) \<and> updateOpen s
        then s\<lparr>sy_updateSignals := sy_updateSignals s @ [sig]\<rparr>
      else if target = rollbackID (rolloutOf su) (robotOf su) \<and> rollbackOpen s
        then s\<lparr>sy_rollbackSignals := sy_rollbackSignals s @ [sig]\<rparr>
      else s)"

definition bridgeHandles :: "'s deployment \<Rightarrow> nat \<Rightarrow> 's system \<Rightarrow> 's system option" where
  "bridgeHandles su n s =
     (if n < length (ex_published (sy_robot s)) then
        (case ex_published (sy_robot s) ! n of (topic, qos, body) \<Rightarrow>
          (case onMessage topic (Some body) of
             None \<Rightarrow> Some s
           | Some (target, sig) \<Rightarrow> Some (signalWorkflow su target sig s)))
      else None)"

text \<open>The update workflow takes a signal in one of its waits, or a timer of the wait fires.\<close>

definition takeSignal :: "'s deployment \<Rightarrow> 's system \<Rightarrow> 's system option" where
  "takeSignal su s =
     (case sy_update s of
        Awaiting st \<Rightarrow>
          (case sy_updateSignals s of
             [] \<Rightarrow> None
           | sig # rest \<Rightarrow> Some (s\<lparr>sy_updateSignals := rest, sy_update :=
               (case react (wanted st) sig of
                  Ignored \<Rightarrow> Awaiting st
                | Broken err \<Rightarrow> RollingBack st err
                | Passed \<Rightarrow> (case nextStage st of
                    Some st' \<Rightarrow> Awaiting st'
                  | None \<Rightarrow> Recording (resultOf su SingleOK '''')))\<rparr>))
      | _ \<Rightarrow> None)"

definition timerFires :: "'s deployment \<Rightarrow> 's system \<Rightarrow> 's system option" where
  "timerFires su s =
     (case sy_update s of
        Awaiting st \<Rightarrow> Some (s\<lparr>sy_update := RollingBack st
          (timeoutError (wanted st) (stageTimeout (si_Spec (su_input su)) st))\<rparr>)
      | _ \<Rightarrow> None)"

text \<open>The server starts the rollback child, or reports why it does not.\<close>

definition startRollback :: "'s deployment \<Rightarrow> go_error option \<Rightarrow> 's system \<Rightarrow> 's system option" where
  "startRollback su e s =
     (case (sy_update s, sy_rollback s) of
        (RollingBack st err, NotStarted) \<Rightarrow>
          (case e of
             Some er \<Rightarrow> Some (s\<lparr>sy_update := Recording (resultOf su SingleRolledBack (error_text err))\<rparr>)
           | None \<Rightarrow> Some (s\<lparr>sy_rollback := RbSending maxAttempts (reasonPrefix st @ error_text err)\<rparr>))
      | _ \<Rightarrow> None)"

definition rbSendAttempt :: "'s deployment \<Rightarrow> token \<Rightarrow> 's system \<Rightarrow> 's system option" where
  "rbSendAttempt su tok s =
     (case sy_rollback s of
        RbSending n reason \<Rightarrow>
          (case SendRollbackCommand (rolloutOf su) (robotOf su) reason tok (sy_cloud s) of
             (r, w) \<Rightarrow> Some (s\<lparr>sy_cloud := w, sy_rollback :=
               (case r of
                  Inr u \<Rightarrow> RbAwaiting
                | Inl err \<Rightarrow>
                    if n \<le> 1 then RbEnded (Some (GoError
                      (''send rollback failed: '' @ su_errText su (error_text err))))
                    else RbSending (n - 1) reason)\<rparr>))
      | _ \<Rightarrow> None)"

definition rbTakeSignal :: "'s system \<Rightarrow> 's system option" where
  "rbTakeSignal s =
     (case (sy_rollback s, sy_rollbackSignals s) of
        (RbAwaiting, sig # rest) \<Rightarrow> Some (s\<lparr>sy_rollbackSignals := rest, sy_rollback :=
          (if sig_Phase sig = ''PHASE_ROLLED_BACK'' then RbRecording ''ok'' (sig_Detail sig) None
           else if sig_Phase sig = ''PHASE_FAILED'' then RbRecording ''failed'' (sig_Detail sig)
             (Some (GoError (''rollback failed: '' @ sig_Detail sig)))
           else RbAwaiting)\<rparr>)
      | _ \<Rightarrow> None)"

definition rbTimerFires :: "'s system \<Rightarrow> 's system option" where
  "rbTimerFires s =
     (case sy_rollback s of
        RbAwaiting \<Rightarrow> Some (s\<lparr>sy_rollback := RbRecording ''stuck'' ''no rollback ack within 5m''
          (Some (GoError ''rollback stuck: no ack within 5m''))\<rparr>)
      | _ \<Rightarrow> None)"

definition rbRecord :: "'s deployment \<Rightarrow> db_env list \<Rightarrow> 's system \<Rightarrow> 's system option" where
  "rbRecord su es s =
     (case sy_rollback s of
        RbRecording status detail err \<Rightarrow> Some (s\<lparr>sy_rollback := RbEnded err, sy_cloud :=
          snd (executeActivity maxAttempts
            (actRecordRollbackOutcome (rolloutOf su) (robotOf su) status detail) es (sy_cloud s))\<rparr>)
      | _ \<Rightarrow> None)"

text \<open>The update workflow has the end of its child, whose error it ignores.\<close>

definition joinRollback :: "'s deployment \<Rightarrow> 's system \<Rightarrow> 's system option" where
  "joinRollback su s =
     (case (sy_update s, sy_rollback s) of
        (RollingBack st err, RbEnded e) \<Rightarrow>
          Some (s\<lparr>sy_update := Recording (resultOf su SingleRolledBack (error_text err))\<rparr>)
      | _ \<Rightarrow> None)"

definition recordResult :: "'s deployment \<Rightarrow> db_env list \<Rightarrow> 's system \<Rightarrow> 's system option" where
  "recordResult su es s =
     (case sy_update s of
        Recording res \<Rightarrow> Some (s\<lparr>sy_update := Ended res, sy_cloud :=
          (if sr_Phase res = SingleOK
           then snd (executeActivity maxAttempts (actRecordRobotResult (rolloutOf su) res) es (sy_cloud s))
           else snd (executeForever (actRecordRobotResult '''' res) es (sy_cloud s)))\<rparr>)
      | _ \<Rightarrow> None)"

text \<open>One event; \<^const>\<open>None\<close> when it cannot happen.\<close>

fun sysStep :: "'s deployment \<Rightarrow> event \<Rightarrow> 's system \<Rightarrow> 's system option" where
  "sysStep su (SendAttempt tok) s = sendAttempt su tok s"
| "sysStep su (Deliver n) s = deliver su n s"
| "sysStep su (OtherCommand body) s =
     (if foreign su body then Some (s\<lparr>sy_tasks := sy_tasks s @ [handleSteps (su_cfg su) body]\<rparr>) else None)"
| "sysStep su (Turn i) s = turn i s"
| "sysStep su (BridgeHandles n) s = bridgeHandles su n s"
| "sysStep su TakeSignal s = takeSignal su s"
| "sysStep su TimerFires s = timerFires su s"
| "sysStep su (StartRollback e) s = startRollback su e s"
| "sysStep su (RbSendAttempt tok) s = rbSendAttempt su tok s"
| "sysStep su RbTakeSignal s = rbTakeSignal s"
| "sysStep su RbTimerFires s = rbTimerFires s"
| "sysStep su (RbRecord es) s = rbRecord su es s"
| "sysStep su Join s = joinRollback su s"
| "sysStep su (Record es) s = recordResult su es s"

fun sysRun :: "'s deployment \<Rightarrow> event list \<Rightarrow> 's system \<Rightarrow> 's system option" where
  "sysRun su [] s = Some s"
| "sysRun su (e # es) s = (case sysStep su e s of None \<Rightarrow> None | Some s' \<Rightarrow> sysRun su es s')"

text \<open>The workflow has just started; the robot is as it is and has said nothing of this rollout.\<close>

definition sysStart :: "'s executor \<Rightarrow> tsdb \<Rightarrow> 's system" where
  "sysStart x db = \<lparr>sy_robot = x\<lparr>ex_published := []\<rparr>, sy_tasks = [], sy_cloud = \<lparr>cl_outbox = [], cl_db = db\<rparr>,
     sy_update = Sending maxAttempts, sy_updateSignals = [], sy_rollback = NotStarted, sy_rollbackSignals = []\<rparr>"

interpretation sys: event_system "sysStep su" "sysRun su"
  by unfold_locales simp_all

section \<open>What the robot says\<close>

definition siteOk :: "'s deployment \<Rightarrow> bool" where
  "siteOk su \<longleftrightarrow> robotOf su = ec_RobotID (su_cfg su) \<and> slashFree (robotOf su) \<and>
     in_i64 (SmokeTimeout (si_Spec (su_input su)))"

text \<open>An ack of the robot for a rollout whose ID has the length of ours.\<close>

definition ourAck :: "'s deployment \<Rightarrow> message \<Rightarrow> bool" where
  "ourAck su m \<longleftrightarrow> (\<exists>a. m = ackMessage (robotOf su) a \<and> length (ack_RolloutID a) = length (rolloutOf su))"

definition says :: "'s deployment \<Rightarrow> 's executor \<Rightarrow> 's executor \<Rightarrow> bool" where
  "says su x y \<longleftrightarrow> (\<exists>ms. ex_published y = ex_published x @ ms \<and> list_all (ourAck su) ms)"

text \<open>The robot has published an ack of a phase for our rollout.\<close>

definition acked :: "'s deployment \<Rightarrow> 's system \<Rightarrow> string \<Rightarrow> bool" where
  "acked su s ph \<longleftrightarrow> (\<exists>a. ackMessage (robotOf su) a \<in> set (ex_published (sy_robot s)) \<and>
     ack_RolloutID a = rolloutOf su \<and> ack_Phase a = ph)"

lemma says_refl: "says su x x"
  by (simp add: says_def)

lemma says_trans: "says su x y \<Longrightarrow> says su y z \<Longrightarrow> says su x z"
  unfolding says_def by (metis append.assoc list_all_append)

interpretation robot_speech: guarantee "says su"
  by unfold_locales (auto intro: says_refl says_trans)

lemma says_frame: "says su x (recordPrev d x)"
  by (simp add: says_def)

lemma handleSteps_says:
  fixes su :: "'s deployment"
  assumes "siteOk su"
    and "\<And>cmd. unmarshalCommand body = Inr cmd \<Longrightarrow> length (cmd_RolloutID cmd) = length (rolloutOf su)"
  shows "keeps (says su) (handleSteps (su_cfg su) body)"
proof (rule handleSteps_keeps)
  show "commandsKeep (su_cfg su) (says su)"
    by (simp add: commandsKeep_def commandKeeps_def Let_def says_def)
next
  fix cmd ph dt and x :: "'s executor"
  assume "unmarshalCommand body = Inr cmd"
  with assms have len: "length (cmd_RolloutID cmd) = length (rolloutOf su)" by blast
  let ?a = "\<lparr>ack_RolloutID = cmd_RolloutID cmd, ack_RobotID = ec_RobotID (su_cfg su), ack_Phase = ph,
    ack_Detail = dt, ack_At = ec_clock (su_cfg su) (length (ex_published x)), ack_ImageDigest = '''',
    ack_PreviousImageDigest = ''''\<rparr>"
  have "ourAck su (ackMessage (robotOf su) ?a)" using len by (auto simp: ourAck_def)
  then show "says su x (publishAck (su_cfg su) cmd ph dt x)"
    using assms(1) by (auto simp: says_def publishAck_def Let_def ackMessage_def siteOk_def)
qed (auto simp: says_refl says_frame)

section \<open>What holds in every reachable state\<close>

text \<open>The phases the robot must have reported for a state of the update workflow.\<close>

fun needs :: "updateState \<Rightarrow> string set" where
  "needs (Awaiting AwaitSwapped) = {''PHASE_PULLED''}"
| "needs (Awaiting AwaitHealthy) = {''PHASE_PULLED'', ''PHASE_SWAPPED''}"
| "needs (Recording res) =
     (if sr_Phase res = SingleOK then {''PHASE_PULLED'', ''PHASE_SWAPPED'', ''PHASE_HEALTHY''} else {})"
| "needs (Ended res) =
     (if sr_Phase res = SingleOK then {''PHASE_PULLED'', ''PHASE_SWAPPED'', ''PHASE_HEALTHY''} else {})"
| "needs st = {}"

fun rbNeeds :: "rollbackState \<Rightarrow> string set" where
  "rbNeeds (RbRecording status detail None) = {''PHASE_ROLLED_BACK''}"
| "rbNeeds (RbEnded None) = {''PHASE_ROLLED_BACK''}"
| "rbNeeds st = {}"

definition robotInv :: "'s deployment \<Rightarrow> 's system \<Rightarrow> bool" where
  "robotInv su s \<longleftrightarrow> list_all (ourAck su) (ex_published (sy_robot s)) \<and>
     (\<forall>t \<in> set (sy_tasks s). keeps (says su) t)"

definition signalsInv :: "'s deployment \<Rightarrow> 's system \<Rightarrow> bool" where
  "signalsInv su s \<longleftrightarrow>
     (\<forall>sig \<in> set (sy_updateSignals s). sig_Phase sig \<noteq> ''PHASE_ROLLED_BACK'' \<and> acked su s (sig_Phase sig)) \<and>
     (\<forall>sig \<in> set (sy_rollbackSignals s). sig_Phase sig = ''PHASE_ROLLED_BACK'' \<and> acked su s (sig_Phase sig))"

definition verdictInv :: "'s deployment \<Rightarrow> 's system \<Rightarrow> bool" where
  "verdictInv su s \<longleftrightarrow> (\<forall>ph \<in> needs (sy_update s) \<union> rbNeeds (sy_rollback s). acked su s ph)"

text \<open>The messages to the robot: the forward command, and rollback commands once the child has started.\<close>

definition isForwardTo :: "'s deployment \<Rightarrow> message \<Rightarrow> bool" where
  "isForwardTo su m \<longleftrightarrow> m = forwardMessage (su_input su)"

definition isRollbackTo :: "'s deployment \<Rightarrow> message \<Rightarrow> bool" where
  "isRollbackTo su m \<longleftrightarrow> (\<exists>reason. m = rollbackMessage (su_input su) reason)"

definition outboxInv :: "'s deployment \<Rightarrow> 's system \<Rightarrow> bool" where
  "outboxInv su s \<longleftrightarrow>
     (\<forall>m \<in> set (cl_outbox (sy_cloud s)). isForwardTo su m \<or> isRollbackTo su m \<and> sy_rollback s \<noteq> NotStarted)"

fun rollsBack :: "updateState \<Rightarrow> bool" where
  "rollsBack (RollingBack st err) = True"
| "rollsBack (Recording res) = (sr_Phase res = SingleRolledBack)"
| "rollsBack (Ended res) = (sr_Phase res = SingleRolledBack)"
| "rollsBack st = False"

definition childInv :: "'s system \<Rightarrow> bool" where
  "childInv s \<longleftrightarrow> (sy_rollback s \<noteq> NotStarted \<longrightarrow> rollsBack (sy_update s))"

text \<open>The failure branch of the rollback workflow is never taken.\<close>

fun rbClean :: "rollbackState \<Rightarrow> bool" where
  "rbClean (RbRecording status detail err) = (status = ''ok'' \<and> err = None \<or> status = ''stuck'' \<and> err \<noteq> None)"
| "rbClean st = True"

lemmas sysInvs = robotInv_def signalsInv_def verdictInv_def outboxInv_def childInv_def

lemma acked_mono: "says su (sy_robot s) (sy_robot s') \<Longrightarrow> acked su s ph \<Longrightarrow> acked su s' ph"
  by (auto simp: says_def acked_def)

lemma acked_same: "sy_robot s' = sy_robot s \<Longrightarrow> acked su s' = acked su s"
  by (simp add: acked_def fun_eq_iff)

text \<open>Only a step of a goroutine changes the robot.\<close>

lemmas step_defs = sendAttempt_def deliver_def turn_def bridgeHandles_def signalWorkflow_def takeSignal_def
  timerFires_def startRollback_def rbSendAttempt_def rbTakeSignal_def rbTimerFires_def rbRecord_def
  joinRollback_def recordResult_def

lemmas step_splits = updateState.splits rollbackState.splits prod.splits option.splits list.splits if_splits
  task.splits

lemma sysStep_robot:
  "sysStep su e s = Some s' \<Longrightarrow> \<not> (\<exists>i. e = Turn i) \<Longrightarrow> sy_robot s' = sy_robot s"
  by (cases "(su, e, s)" rule: sysStep.cases) (auto simp: step_defs split: step_splits)

lemma sysStep_tasks:
  "sysStep su e s = Some s' \<Longrightarrow> \<not> (\<exists>i n body. e = Turn i \<or> e = Deliver n \<or> e = OtherCommand body) \<Longrightarrow>
     sy_tasks s' = sy_tasks s"
  by (cases "(su, e, s)" rule: sysStep.cases) (auto simp: step_defs split: step_splits)

lemma sysStep_signals:
  "sysStep su e s = Some s' \<Longrightarrow> \<not> (\<exists>n. e = BridgeHandles n) \<Longrightarrow>
     set (sy_updateSignals s') \<subseteq> set (sy_updateSignals s) \<and>
     set (sy_rollbackSignals s') \<subseteq> set (sy_rollbackSignals s)"
  by (cases "(su, e, s)" rule: sysStep.cases) (auto simp: step_defs split: step_splits)

lemma resultOf_phase [simp]: "sr_Phase (resultOf su ph d) = ph"
  by (simp add: resultOf_def)

lemma sysStep_needs:
  "sysStep su e s = Some s' \<Longrightarrow> e \<noteq> TakeSignal \<Longrightarrow> needs (sy_update s') \<subseteq> needs (sy_update s)"
  by (cases "(su, e, s)" rule: sysStep.cases)
    (auto simp: step_defs single_defs split: step_splits sum.splits)

lemma sysStep_rbNeeds:
  "sysStep su e s = Some s' \<Longrightarrow> e \<noteq> RbTakeSignal \<Longrightarrow> rbNeeds (sy_rollback s') \<subseteq> rbNeeds (sy_rollback s)"
proof (cases "\<exists>es. e = RbRecord es")
  case True
  assume "sysStep su e s = Some s'"
  with True obtain status detail err where "sy_rollback s = RbRecording status detail err" "sy_rollback s' = RbEnded err"
    by (auto simp: rbRecord_def split: rollbackState.splits)
  then show ?thesis by (cases err) simp_all
next
  case False
  assume "sysStep su e s = Some s'"
  with False show ?thesis if "e \<noteq> RbTakeSignal"
    using that by (cases "(su, e, s)" rule: sysStep.cases) (auto simp: step_defs split: step_splits sum.splits)
qed

lemma turn_says:
  assumes "turn i s = Some s'" and "robotInv su s"
  shows "says su (sy_robot s) (sy_robot s')" and "robotInv su s'"
proof -
  obtain f x t where f: "i < length (sy_tasks s)" "sy_tasks s ! i = Step f" "f (sy_robot s) = (x, t)"
    and s': "s' = s\<lparr>sy_robot := x, sy_tasks := (sy_tasks s)[i := t]\<rparr>"
    using assms(1) by (auto simp: turn_def split: if_splits task.splits prod.splits)
  then have "keeps (says su) (Step f)" using assms(2) nth_mem [OF f(1)] by (auto simp: robotInv_def)
  then have k: "says su (sy_robot s) x \<and> keeps (says su) t" using f(3) by (metis keeps_StepE fst_conv snd_conv)
  then show "says su (sy_robot s) (sy_robot s')" by (simp add: s')
  from k obtain ms where "ex_published x = ex_published (sy_robot s) @ ms" "list_all (ourAck su) ms"
    by (auto simp: says_def)
  then show "robotInv su s'" using k assms(2) set_update_subset_insert [of "sy_tasks s" i t]
    by (auto simp: robotInv_def s')
qed

lemma sysStep_says:
  "sysStep su e s = Some s' \<Longrightarrow> robotInv su s \<Longrightarrow> says su (sy_robot s) (sy_robot s')"
  using sysStep_robot [of su e s s'] turn_says(1) [of _ s s' su] says_refl by (cases e) auto

subsection \<open>The robot\<close>

lemma outbox_says:
  assumes "siteOk su" and "outboxInv su s" and "(topic, qos, body) \<in> set (cl_outbox (sy_cloud s))"
  shows "keeps (says su) (handleSteps (su_cfg su) (Some body))"
proof (rule handleSteps_says [OF assms(1)])
  fix cmd
  assume cmd: "unmarshalCommand (Some body) = Inr cmd"
  have "in_i64 (SmokeTimeout (si_Spec (su_input su)))" using assms(1) by (simp add: siteOk_def)
  note dec = forwardCommand_decodes [OF this] rollbackCommand_decodes
  have "(\<exists>m. m = (topic, qos, body) \<and> (isForwardTo su m \<or> isRollbackTo su m))"
    using assms(2,3) by (auto simp: outboxInv_def)
  then have "cmd_RolloutID cmd = rolloutOf su"
    using cmd dec by (auto simp: isForwardTo_def isRollbackTo_def forwardMessage_def rollbackMessage_def
        forwardCommand_def rollbackCommand_def)
  then show "length (cmd_RolloutID cmd) = length (rolloutOf su)" by simp
qed

lemma robotInv_new_task:
  "robotInv su s \<Longrightarrow> keeps (says su) t \<Longrightarrow> robotInv su (s\<lparr>sy_tasks := sy_tasks s @ [t]\<rparr>)"
  by (auto simp: robotInv_def)

lemma robotInv_step:
  assumes "siteOk su" and "robotInv su s" and "outboxInv su s" and "sysStep su e s = Some s'"
  shows "robotInv su s'"
proof -
  consider i where "e = Turn i" | n where "e = Deliver n" | body where "e = OtherCommand body"
    | "\<not> (\<exists>i n body. e = Turn i \<or> e = Deliver n \<or> e = OtherCommand body)" by blast
  then show ?thesis
  proof cases
    case 1
    then show ?thesis using turn_says(2) [of i s s' su] assms(2,4) by simp
  next
    case 2
    obtain topic qos body where m: "cl_outbox (sy_cloud s) ! n = (topic, qos, body)" by (metis prod_cases3)
    then have "(topic, qos, body) \<in> set (cl_outbox (sy_cloud s))"
      and s': "s' = s\<lparr>sy_tasks := sy_tasks s @ [handleSteps (su_cfg su) (Some body)]\<rparr>"
      using 2 assms(4) nth_mem [of n "cl_outbox (sy_cloud s)"] by (auto simp: deliver_def split: if_splits)
    from outbox_says [OF assms(1,3) this(1)] show ?thesis unfolding s' using assms(2) by (intro robotInv_new_task)
  next
    case 3
    then show ?thesis
      using assms(2,4) handleSteps_says [OF assms(1), of body]
      by (auto simp: foreign_def intro!: robotInv_new_task split: if_splits sum.splits)
  next
    case 4
    then show ?thesis using sysStep_tasks [OF assms(4)] sysStep_robot [OF assms(4)] assms(2)
      by (auto simp: robotInv_def)
  qed
qed

subsection \<open>The bridge\<close>

lemma childID_eq [simp]: "childID ro r = childID ro' r \<longleftrightarrow> ro = ro'"
  by (simp add: childID_def)

lemma rollbackID_eq [simp]: "rollbackID ro r = rollbackID ro' r \<longleftrightarrow> ro = ro'"
  by (simp add: rollbackID_def)

lemma rollbackID_childID: "length ro = length ro' \<Longrightarrow> rollbackID ro r \<noteq> childID ro' r"
  by (auto simp: rollbackID_def childID_def dest: arg_cong [where f = length])

text \<open>
  What the bridge does with an ack of the robot: nothing when it is of another rollout, else a signal
  to the rollback child or to the update workflow, by its phase, if that workflow is open.
\<close>

lemma bridgeHandles_ack:
  assumes "siteOk su" and "robotInv su s" and "bridgeHandles su n s = Some s'"
  shows "\<exists>a. ackMessage (robotOf su) a \<in> set (ex_published (sy_robot s)) \<and> s' =
    (if ack_RolloutID a \<noteq> rolloutOf su then s
     else if ack_Phase a = ''PHASE_ROLLED_BACK'' then
       (if rollbackOpen s then s\<lparr>sy_rollbackSignals := sy_rollbackSignals s @ [ackSignalOf a]\<rparr> else s)
     else if updateOpen s then s\<lparr>sy_updateSignals := sy_updateSignals s @ [ackSignalOf a]\<rparr> else s)"
proof -
  let ?pub = "ex_published (sy_robot s)"
  have n: "n < length ?pub" using assms(3) by (simp add: bridgeHandles_def split: if_splits)
  then have "ourAck su (?pub ! n)" using assms(2) by (auto simp: robotInv_def list_all_length)
  then obtain a where a: "?pub ! n = ackMessage (robotOf su) a" "length (ack_RolloutID a) = length (rolloutOf su)"
    by (auto simp: ourAck_def)
  have sf: "slashFree (robotOf su)" using assms(1) unfolding siteOk_def by blast
  have "s' = signalWorkflow su (if ack_Phase a = ''PHASE_ROLLED_BACK'' then rollbackID (ack_RolloutID a) (robotOf su)
        else childID (ack_RolloutID a) (robotOf su)) (ackSignalOf a) s"
    using assms(3) n a(1) ack_reaches_workflow [OF sf, of a] by (simp add: bridgeHandles_def ackMessage_def)
  moreover have "rollbackID (ack_RolloutID a) (robotOf su) \<noteq> childID (rolloutOf su) (robotOf su)"
    "childID (ack_RolloutID a) (robotOf su) \<noteq> rollbackID (rolloutOf su) (robotOf su)"
    using rollbackID_childID [OF a(2)] rollbackID_childID [OF a(2) [symmetric]] by metis+
  moreover have "ackMessage (robotOf su) a \<in> set ?pub" using n a(1) nth_mem by metis
  ultimately show ?thesis by (intro exI [of _ a]) (simp add: signalWorkflow_def)
qed

lemma signalsInv_step:
  assumes "siteOk su" and "robotInv su s" and "signalsInv su s" and "sysStep su e s = Some s'"
  shows "signalsInv su s'"
proof -
  have mono: "acked su s ph \<Longrightarrow> acked su s' ph" for ph
    using acked_mono [OF sysStep_says [OF assms(4,2)]] .
  have fewer: "signalsInv su s'" if "set (sy_updateSignals s') \<subseteq> set (sy_updateSignals s)"
    "set (sy_rollbackSignals s') \<subseteq> set (sy_rollbackSignals s)"
    using that assms(3) mono unfolding signalsInv_def by blast
  show ?thesis
  proof (cases "\<exists>n. e = BridgeHandles n")
    case True
    then obtain n where "bridgeHandles su n s = Some s'" using assms(4) by auto
    from bridgeHandles_ack [OF assms(1,2) this] obtain a where
      a: "ackMessage (robotOf su) a \<in> set (ex_published (sy_robot s))"
      and s': "s' = (if ack_RolloutID a \<noteq> rolloutOf su then s
        else if ack_Phase a = ''PHASE_ROLLED_BACK'' then
          (if rollbackOpen s then s\<lparr>sy_rollbackSignals := sy_rollbackSignals s @ [ackSignalOf a]\<rparr> else s)
        else if updateOpen s then s\<lparr>sy_updateSignals := sy_updateSignals s @ [ackSignalOf a]\<rparr> else s)" by blast
    have "ack_RolloutID a = rolloutOf su \<Longrightarrow> acked su s (ack_Phase a)" using a by (auto simp: acked_def)
    moreover have "acked su s' = acked su s" by (rule acked_same) (simp add: s')
    ultimately show ?thesis using assms(3) unfolding s' signalsInv_def by (auto simp: ackSignalOf_def split: if_splits)
  next
    case False
    then show ?thesis using sysStep_signals [OF assms(4)] fewer by blast
  qed
qed

subsection \<open>The workflows\<close>

lemma react_Passed: "react want sig = Passed \<Longrightarrow> sig_Phase sig = want"
  by (simp add: react_def split: if_splits)

lemma needs_take:
  assumes "sy_update s = Awaiting st" and "takeSignal su s = Some s'"
  shows "\<exists>sig. sig \<in> set (sy_updateSignals s) \<and> needs (sy_update s') \<subseteq> insert (sig_Phase sig) (needs (Awaiting st))"
proof -
  obtain sig rest where sig: "sy_updateSignals s = sig # rest" using assms by (auto simp: takeSignal_def split: list.splits)
  have "needs (sy_update s') \<subseteq> insert (sig_Phase sig) (needs (Awaiting st))"
    using assms sig react_Passed [of "wanted st" sig]
    by (cases st) (auto simp: takeSignal_def resultOf_def split: reaction.splits option.splits if_splits)
  then show ?thesis by (intro exI [of _ sig]) (simp add: sig)
qed

lemma verdictInv_step:
  assumes "siteOk su" and "robotInv su s" and "signalsInv su s" and "verdictInv su s"
    and "sysStep su e s = Some s'"
  shows "verdictInv su s'"
proof -
  have mono: "acked su s ph \<Longrightarrow> acked su s' ph" for ph
    using acked_mono [OF sysStep_says [OF assms(5,2)]] .
  have old: "ph \<in> needs (sy_update s) \<union> rbNeeds (sy_rollback s) \<Longrightarrow> acked su s' ph" for ph
    using assms(4) mono by (auto simp: verdictInv_def)
  have update: "acked su s' ph" if ph: "ph \<in> needs (sy_update s')" for ph
  proof (cases "e = TakeSignal")
    case True
    then have take: "takeSignal su s = Some s'" using assms(5) by simp
    then obtain st where st: "sy_update s = Awaiting st" by (auto simp: takeSignal_def split: updateState.splits)
    from needs_take [OF st take] obtain sig where
      "sig \<in> set (sy_updateSignals s)" "needs (sy_update s') \<subseteq> insert (sig_Phase sig) (needs (Awaiting st))" by blast
    then show ?thesis using assms(3) mono old ph by (auto simp: signalsInv_def st)
  next
    case False
    then show ?thesis using sysStep_needs [OF assms(5)] old ph by blast
  qed
  have rollback: "acked su s' ph" if ph: "ph \<in> rbNeeds (sy_rollback s')" for ph
  proof (cases "e = RbTakeSignal")
    case True
    then obtain sig rest where st: "sy_rollback s = RbAwaiting" "sy_rollbackSignals s = sig # rest"
      using assms(5) by (auto simp: rbTakeSignal_def split: rollbackState.splits list.splits)
    then have sig: "sig_Phase sig = ''PHASE_ROLLED_BACK''" "acked su s (sig_Phase sig)"
      using assms(3) by (auto simp: signalsInv_def)
    then have "rbNeeds (sy_rollback s') = {''PHASE_ROLLED_BACK''}"
      using True st assms(5) by (auto simp: rbTakeSignal_def)
    with sig mono ph show ?thesis by auto
  next
    case False
    then show ?thesis using sysStep_rbNeeds [OF assms(5)] old ph by blast
  qed
  from update rollback show ?thesis by (auto simp: verdictInv_def)
qed

subsection \<open>The messages to the robot\<close>

definition forwardsSent :: "'s deployment \<Rightarrow> 's system \<Rightarrow> nat" where
  "forwardsSent su s = length (filter (isForwardTo su) (cl_outbox (sy_cloud s)))"

definition rollbacksSent :: "'s deployment \<Rightarrow> 's system \<Rightarrow> nat" where
  "rollbacksSent su s = length (filter (isRollbackTo su) (cl_outbox (sy_cloud s)))"

fun sendsLeft :: "updateState \<Rightarrow> nat" where
  "sendsLeft (Sending n) = n"
| "sendsLeft st = 0"

fun rbSendsLeft :: "rollbackState \<Rightarrow> nat" where
  "rbSendsLeft NotStarted = maxAttempts"
| "rbSendsLeft (RbSending n reason) = n"
| "rbSendsLeft st = 0"

lemma SendOTACommand_outbox:
  "SendOTACommand ro r spec tok w = (res, w') \<Longrightarrow>
     cl_outbox w' = cl_outbox w @ [forwardMessage \<lparr>si_RolloutID = ro, si_RobotID = r, si_Spec = spec\<rparr>]"
  by (auto simp: SendOTACommand_def mqttPublish_def forwardMessage_def)

lemma SendRollbackCommand_outbox:
  "SendRollbackCommand ro r reason tok w = (res, w') \<Longrightarrow>
     cl_outbox w' = cl_outbox w @ [rollbackMessage \<lparr>si_RolloutID = ro, si_RobotID = r, si_Spec = spec\<rparr> reason]"
  by (auto simp: SendRollbackCommand_def mqttPublish_def rollbackMessage_def)

lemma recorded_outbox:
  "cl_outbox (snd (executeForever (actRecordRobotResult x res) es w)) = cl_outbox w"
  by (simp add: executeForever_def record_outbox)

lemma forward_neq_rollback [simp]: "forwardMessage inp \<noteq> rollbackMessage inp reason"
  "rollbackMessage inp reason \<noteq> forwardMessage inp"
  by (simp_all add: forwardMessage_def rollbackMessage_def otaCommandBody_def rollbackCommandBody_def)

lemma input_eta [simp]: "\<lparr>si_RolloutID = si_RolloutID i, si_RobotID = si_RobotID i, si_Spec = si_Spec i\<rparr> = i"
  by simp

lemma sysStep_outbox:
  assumes "sysStep su e s = Some s'"
  shows "(case e of
      SendAttempt tok \<Rightarrow> cl_outbox (sy_cloud s') = cl_outbox (sy_cloud s) @ [forwardMessage (su_input su)]
    | RbSendAttempt tok \<Rightarrow> (\<exists>n reason. sy_rollback s = RbSending n reason \<and>
        cl_outbox (sy_cloud s') = cl_outbox (sy_cloud s) @ [rollbackMessage (su_input su) reason])
    | _ \<Rightarrow> cl_outbox (sy_cloud s') = cl_outbox (sy_cloud s))"
  using assms
  by (cases "(su, e, s)" rule: sysStep.cases)
    (auto simp: step_defs record_outbox recorded_outbox split: step_splits
      dest!: SendOTACommand_outbox SendRollbackCommand_outbox [where spec = "si_Spec (su_input su)"])

lemma outboxInv_step:
  assumes "outboxInv su s" and "sysStep su e s = Some s'"
  shows "outboxInv su s'"
proof -
  have started: "sy_rollback s \<noteq> NotStarted \<Longrightarrow> sy_rollback s' \<noteq> NotStarted"
    using assms(2) by (cases "(su, e, s)" rule: sysStep.cases) (auto simp: step_defs split: step_splits sum.splits)
  consider tok where "e = SendAttempt tok" | tok where "e = RbSendAttempt tok"
    | "cl_outbox (sy_cloud s') = cl_outbox (sy_cloud s)"
    using sysStep_outbox [OF assms(2)] by (cases e) auto
  then show ?thesis
    using sysStep_outbox [OF assms(2)] assms(1) started
    by cases (auto simp: outboxInv_def isForwardTo_def isRollbackTo_def)
qed

lemma childInv_step:
  assumes "childInv s" and "sysStep su e s = Some s'"
  shows "childInv s'"
  using assms
  by (cases "(su, e, s)" rule: sysStep.cases) (auto simp: step_defs childInv_def split: step_splits sum.splits)

lemma sysStep_sending:
  assumes "sysStep su e s = Some s'" and "\<not> (\<exists>tok. e = SendAttempt tok)"
  shows "sy_update s' = sy_update s \<or> sendsLeft (sy_update s') = 0 \<and> (\<forall>n. sy_update s' \<noteq> Sending n)"
  using assms
  by (cases "(su, e, s)" rule: sysStep.cases) (auto simp: step_defs split: step_splits reaction.splits)

lemma sysStep_rbSending:
  assumes "sysStep su e s = Some s'" and "\<not> (\<exists>tok. e = RbSendAttempt tok)"
  shows "sy_rollback s' = sy_rollback s \<or> (\<exists>reason. sy_rollback s = NotStarted \<and> sy_rollback s' = RbSending maxAttempts reason) \<or>
    rbSendsLeft (sy_rollback s') = 0 \<and> (\<forall>n reason. sy_rollback s' \<noteq> RbSending n reason)"
  using assms
  by (cases "(su, e, s)" rule: sysStep.cases) (auto simp: step_defs split: step_splits)

text \<open>A step sends at most as much as it takes from what is left.\<close>

lemma sends_step:
  assumes "sysStep su e s = Some s'"
    and "\<forall>n. sy_update s = Sending n \<longrightarrow> 1 \<le> n" and "\<forall>n reason. sy_rollback s = RbSending n reason \<longrightarrow> 1 \<le> n"
  shows "forwardsSent su s' + sendsLeft (sy_update s') \<le> forwardsSent su s + sendsLeft (sy_update s) \<and>
    rollbacksSent su s' + rbSendsLeft (sy_rollback s') \<le> rollbacksSent su s + rbSendsLeft (sy_rollback s) \<and>
    (\<forall>n. sy_update s' = Sending n \<longrightarrow> 1 \<le> n) \<and> (\<forall>n reason. sy_rollback s' = RbSending n reason \<longrightarrow> 1 \<le> n)"
proof (cases "\<exists>tok. e = SendAttempt tok \<or> e = RbSendAttempt tok")
  case True
  then show ?thesis
    using sysStep_outbox [OF assms(1)] assms
    by (auto simp: forwardsSent_def rollbacksSent_def isForwardTo_def isRollbackTo_def
        sendAttempt_def rbSendAttempt_def split: updateState.splits rollbackState.splits prod.splits sum.splits if_splits)
next
  case False
  then have "cl_outbox (sy_cloud s') = cl_outbox (sy_cloud s)"
    using sysStep_outbox [OF assms(1)] by (cases e) auto
  then have same: "forwardsSent su s' = forwardsSent su s" "rollbacksSent su s' = rollbacksSent su s"
    by (simp_all add: forwardsSent_def rollbacksSent_def)
  have "sendsLeft (sy_update s') \<le> sendsLeft (sy_update s) \<and> (\<forall>n. sy_update s' = Sending n \<longrightarrow> 1 \<le> n)"
    using sysStep_sending [OF assms(1)] False assms(2) by auto
  moreover have "rbSendsLeft (sy_rollback s') \<le> rbSendsLeft (sy_rollback s) \<and>
      (\<forall>n reason. sy_rollback s' = RbSending n reason \<longrightarrow> 1 \<le> n)"
    using sysStep_rbSending [OF assms(1)] False assms(3) by (auto simp: maxAttempts_def dest!: sym [of "RbSending _ _"])
  ultimately show ?thesis by (simp add: same)
qed

subsection \<open>All together\<close>

definition flowInv :: "'s deployment \<Rightarrow> 's system \<Rightarrow> bool" where
  "flowInv su s \<longleftrightarrow> robotInv su s \<and> signalsInv su s \<and> verdictInv su s \<and> outboxInv su s \<and> childInv s \<and>
     rbClean (sy_rollback s)"

lemma rbClean_step:
  assumes "signalsInv su s" and "rbClean (sy_rollback s)" and "sysStep su e s = Some s'"
  shows "rbClean (sy_rollback s')"
  using assms
  by (cases "(su, e, s)" rule: sysStep.cases)
    (auto simp: step_defs signalsInv_def split: step_splits sum.splits)

lemma flowInv_step:
  assumes "siteOk su" and "flowInv su s" and st: "sysStep su e s = Some s'"
  shows "flowInv su s'"
proof -
  from assms(2) have inv: "robotInv su s" "signalsInv su s" "verdictInv su s" "outboxInv su s" "childInv s"
    "rbClean (sy_rollback s)" by (simp_all add: flowInv_def)
  show ?thesis
    unfolding flowInv_def
    using robotInv_step [OF assms(1) inv(1,4) st] signalsInv_step [OF assms(1) inv(1,2) st]
      verdictInv_step [OF assms(1) inv(1-3) st] outboxInv_step [OF inv(4) st] childInv_step [OF inv(5) st]
      rbClean_step [OF inv(2,6) st] by blast
qed

lemma flowInv_start: "flowInv su (sysStart x db)"
  by (simp add: flowInv_def sysInvs sysStart_def)

section \<open>Properties\<close>

text \<open>
  C10: a rollback child that waits for its ack takes any ROLLED_BACK ack the robot has ever published
  for the rollout, so the one of a self-rollback answers a command the robot has not received: the
  bridge and the workflow alone bring the child to its end without error and the outcome \<^verbatim>\<open>ok\<close>
  into the table, while the robot does nothing.
\<close>

theorem self_rollback_answers_command:
  assumes "siteOk su" and "sy_rollback s = RbAwaiting" and "sy_rollbackSignals s = []"
    and "n < length (ex_published (sy_robot s))"
    and "ex_published (sy_robot s) ! n = ackMessage (robotOf su) a"
    and "ack_RolloutID a = rolloutOf su" and "ack_Phase a = ''PHASE_ROLLED_BACK''" and "dbe_fault d = None"
  shows "\<exists>s'. sysRun su [BridgeHandles n, RbTakeSignal, RbRecord [d]] s = Some s' \<and>
    sy_rollback s' = RbEnded None \<and> sy_robot s' = sy_robot s \<and> sy_tasks s' = sy_tasks s \<and>
    ota_rollbacks (cl_db (sy_cloud s')) = ota_rollbacks (cl_db (sy_cloud s)) @
      [\<lparr>rb_rollout_id = rolloutOf su, rb_robot_id = robotOf su, rb_status = ''ok'', rb_detail = ack_Detail a,
        rb_at = pgTime (dbe_now d)\<rparr>]"
proof -
  have sf: "slashFree (robotOf su)" using assms(1) unfolding siteOk_def by blast
  have neq: "rollbackID (rolloutOf su) (robotOf su) \<noteq> childID (rolloutOf su) (robotOf su)" by simp
  have "bridgeHandles su n s = Some (s\<lparr>sy_rollbackSignals := [ackSignalOf a]\<rparr>)"
    using assms(2-7) ack_reaches_workflow [OF sf, of a] neq
    by (simp add: bridgeHandles_def ackMessage_def signalWorkflow_def rollbackOpen_def)
  then show ?thesis
    using assms(2,7,8) by (simp add: rbTakeSignal_def rbRecord_def ackSignalOf_def actRecordRollbackOutcome_def
        dbActivity_def RecordRollbackOutcome_def execStmt_def maxAttempts_def)
qed

text \<open>The events of the cloud's own machinery: activity results, timers, starts and ends of workflows.\<close>

fun ofWorkflows :: "event \<Rightarrow> bool" where
  "ofWorkflows (Deliver n) = False"
| "ofWorkflows (OtherCommand body) = False"
| "ofWorkflows (Turn i) = False"
| "ofWorkflows (BridgeHandles n) = False"
| "ofWorkflows TakeSignal = False"
| "ofWorkflows RbTakeSignal = False"
| "ofWorkflows e = True"

definition canEnd :: "'s deployment \<Rightarrow> nat \<Rightarrow> 's system \<Rightarrow> bool" where
  "canEnd su n s \<longleftrightarrow> (\<exists>es s' res. length es \<le> n \<and> list_all ofWorkflows es \<and> sysRun su es s = Some s' \<and>
     sy_update s' = Ended res)"

lemma canEnd_step:
  assumes "sysStep su e s = Some s'" and "ofWorkflows e" and "canEnd su n s'"
  shows "canEnd su (Suc n) s"
proof -
  obtain es t res where "length es \<le> n" "list_all ofWorkflows es" "sysRun su es s' = Some t" "sy_update t = Ended res"
    using assms(3) by (auto simp: canEnd_def)
  then show ?thesis using assms(1,2) unfolding canEnd_def by (intro exI [of _ "e # es"]) auto
qed

lemma canEnd_mono: "canEnd su m s \<Longrightarrow> m \<le> n \<Longrightarrow> canEnd su n s"
  unfolding canEnd_def by (meson order.trans)

lemma canEnd_ended: "(\<exists>res. sy_update s = Ended res) \<Longrightarrow> canEnd su n s"
  unfolding canEnd_def by (elim exE, intro exI [of _ "[]"]) simp

lemma canEnd_recording: "(\<exists>res. sy_update s = Recording res) \<Longrightarrow> canEnd su 1 s"
  using canEnd_step [of su "Record []" s _ 0] by (auto simp: recordResult_def canEnd_ended)

lemma canEnd_rollback:
  assumes "\<exists>st err. sy_update s = RollingBack st err"
  shows "canEnd su 6 s"
proof -
  let ?waits = "\<lambda>s. \<exists>st err. sy_update s = RollingBack st err"
  have ended: "canEnd su 2 s" if "?waits s" "\<exists>e. sy_rollback s = RbEnded e" for s
    using canEnd_step [of su Join s _ 1] canEnd_recording [where su = su] that
    by (auto simp: joinRollback_def numeral_2_eq_2)
  have recording: "canEnd su 3 s" if "?waits s" "\<exists>p d e. sy_rollback s = RbRecording p d e" for s
    using canEnd_step [of su "RbRecord []" s _ 2] ended that by (auto simp: rbRecord_def eval_nat_numeral)
  have awaiting: "canEnd su 4 s" if "?waits s" "sy_rollback s = RbAwaiting" for s
    using canEnd_step [of su RbTimerFires s _ 3] recording that by (auto simp: rbTimerFires_def eval_nat_numeral)
  have sending: "canEnd su 5 s" if "?waits s" "\<exists>n r. sy_rollback s = RbSending n r" for s
    using canEnd_step [of su "RbSendAttempt (Completed None)" s _ 4] awaiting that
    by (auto simp: rbSendAttempt_def SendRollbackCommand_def mqttPublish_def eval_nat_numeral)
  have fresh: "canEnd su 6 s" if "?waits s" "sy_rollback s = NotStarted" for s
    using canEnd_step [of su "StartRollback None" s _ 5] sending that by (auto simp: startRollback_def eval_nat_numeral)
  show ?thesis
  proof (cases "sy_rollback s")
    case NotStarted
    with fresh assms show ?thesis by blast
  next
    case (RbSending n r)
    with sending assms have "canEnd su 5 s" by blast
    then show ?thesis by (rule canEnd_mono) simp
  next
    case RbAwaiting
    with awaiting assms have "canEnd su 4 s" by blast
    then show ?thesis by (rule canEnd_mono) simp
  next
    case (RbRecording p d e)
    with recording assms have "canEnd su 3 s" by blast
    then show ?thesis by (rule canEnd_mono) simp
  next
    case (RbEnded e)
    with ended assms have "canEnd su 2 s" by blast
    then show ?thesis by (rule canEnd_mono) simp
  qed
qed

text \<open>
  C18: no state is a dead end: whatever has happened, the update workflow can end within eight events
  of its own, results of activities, timers and the end of the child, without the robot, the broker
  or the bridge.
\<close>

theorem update_never_stuck:
  "\<exists>es s' res. length es \<le> 8 \<and> list_all ofWorkflows es \<and> sysRun su es s = Some s' \<and> sy_update s' = Ended res"
proof -
  have awaiting: "canEnd su 7 s" if "\<exists>st. sy_update s = Awaiting st" for s
    using canEnd_step [of su TimerFires s _ 6] canEnd_rollback [where su = su] that by (auto simp: timerFires_def eval_nat_numeral)
  have sending: "canEnd su 8 s" if "\<exists>n. sy_update s = Sending n" for s
    using canEnd_step [of su "SendAttempt (Completed None)" s _ 7] awaiting that
    by (auto simp: sendAttempt_def SendOTACommand_def mqttPublish_def eval_nat_numeral)
  note small = canEnd_recording [THEN canEnd_mono] canEnd_rollback [THEN canEnd_mono] awaiting [THEN canEnd_mono]
  have "canEnd su 8 s" by (cases "sy_update s") (auto intro: small sending canEnd_ended)
  then show ?thesis unfolding canEnd_def .
qed

section \<open>The machine and the workflow\<close>

text \<open>The machine of the waits, driven by signals with arrival times and by the timers.\<close>

fun drive :: "rolloutSpec \<Rightarrow> stage \<Rightarrow> time \<Rightarrow> time \<Rightarrow> signals \<Rightarrow> waitsOutcome" where
  "drive spec st deadline now [] =
     WaitFailed (reasonPrefix st) (timeoutError (wanted st) (stageTimeout spec st))"
| "drive spec st deadline now ((arr, sig) # rest) =
     (if deadline < arr then WaitFailed (reasonPrefix st) (timeoutError (wanted st) (stageTimeout spec st))
      else (case react (wanted st) sig of
              Ignored \<Rightarrow> drive spec st deadline (max now arr) rest
            | Broken err \<Rightarrow> WaitFailed (reasonPrefix st) err
            | Passed \<Rightarrow> (case nextStage st of
                None \<Rightarrow> AllAcked
              | Some st' \<Rightarrow> drive spec st' (max now arr + max 0 (stageTimeout spec st')) (max now arr) rest)))"

text \<open>What is still to come in a wait of a stage.\<close>

function waitsFrom :: "rolloutSpec \<Rightarrow> stage \<Rightarrow> time \<Rightarrow> signals \<Rightarrow> waitsOutcome" where
  "waitsFrom spec AwaitHealthy now sigs =
     (case waitForPhase ''PHASE_HEALTHY'' (SmokeTimeout spec) now sigs of
        (Some err, n, rest) \<Rightarrow> WaitFailed ''smoke check failed: '' err
      | (None, n, rest) \<Rightarrow> AllAcked)"
| "waitsFrom spec AwaitSwapped now sigs =
     (case waitForPhase ''PHASE_SWAPPED'' (SwapTimeout spec) now sigs of
        (Some err, n, rest) \<Rightarrow> WaitFailed ''swap timeout/error: '' err
      | (None, n, rest) \<Rightarrow> waitsFrom spec AwaitHealthy n rest)"
| "waitsFrom spec AwaitPulled now sigs =
     (case waitForPhase ''PHASE_PULLED'' (PullTimeout spec) now sigs of
        (Some err, n, rest) \<Rightarrow> WaitFailed ''pull timeout/error: '' err
      | (None, n, rest) \<Rightarrow> waitsFrom spec AwaitSwapped n rest)"
  by pat_completeness auto

fun stagesLeft :: "stage \<Rightarrow> nat" where
  "stagesLeft AwaitPulled = 2"
| "stagesLeft AwaitSwapped = 1"
| "stagesLeft AwaitHealthy = 0"

termination waitsFrom
  by (relation "measure (\<lambda>(spec, st, now, sigs). stagesLeft st)") simp_all

definition waitThen :: "rolloutSpec \<Rightarrow> stage \<Rightarrow> go_error option \<times> time \<times> signals \<Rightarrow> waitsOutcome" where
  "waitThen spec st r = (case r of
     (Some err, n, rest) \<Rightarrow> WaitFailed (reasonPrefix st) err
   | (None, n, rest) \<Rightarrow> (case nextStage st of None \<Rightarrow> AllAcked | Some st' \<Rightarrow> waitsFrom spec st' n rest))"

lemma waitsFrom_eq:
  "waitsFrom spec st now sigs = waitThen spec st (waitForPhase (wanted st) (stageTimeout spec st) now sigs)"
  by (cases st) (simp_all add: waitThen_def split: prod.split option.split)

lemma drive_eq:
  "drive spec st deadline now sigs = waitThen spec st (waitLoop (wanted st) (stageTimeout spec st) deadline now sigs)"
proof (induction spec st deadline now sigs rule: drive.induct)
  case (1 spec st deadline now)
  then show ?case by (simp add: waitThen_def)
next
  case (2 spec st deadline now arr sig rest)
  then show ?case
    by (auto simp: react_def waitThen_def waitsFrom_eq waitForPhase_def split: option.splits)
qed

lemma drive_waits:
  "waitsOutcome e spec =
     drive spec AwaitPulled (sg_sent e + max 0 (PullTimeout spec)) (sg_sent e) (sg_signals e)"
proof -
  have "waitsOutcome e spec = waitsFrom spec AwaitPulled (sg_sent e) (sg_signals e)"
    by (simp add: waitsOutcome_def split: prod.split option.split)
  then show ?thesis by (simp add: drive_eq waitsFrom_eq waitForPhase_def)
qed

text \<open>The same as events: signals are taken while they come before the deadline of the wait.\<close>

fun driveEvents :: "rolloutSpec \<Rightarrow> stage \<Rightarrow> time \<Rightarrow> time \<Rightarrow> signals \<Rightarrow> event list" where
  "driveEvents spec st deadline now [] = [TimerFires]"
| "driveEvents spec st deadline now ((arr, sig) # rest) =
     (if deadline < arr then [TimerFires]
      else TakeSignal # (case react (wanted st) sig of
              Ignored \<Rightarrow> driveEvents spec st deadline (max now arr) rest
            | Broken err \<Rightarrow> []
            | Passed \<Rightarrow> (case nextStage st of
                None \<Rightarrow> []
              | Some st' \<Rightarrow> driveEvents spec st' (max now arr + max 0 (stageTimeout spec st')) (max now arr) rest)))"

text \<open>The phase and detail a state of the update workflow is bound to report.\<close>

fun verdictOf :: "updateState \<Rightarrow> (string \<times> string) option" where
  "verdictOf (Recording res) = Some (sr_Phase res, sr_Detail res)"
| "verdictOf (Ended res) = Some (sr_Phase res, sr_Detail res)"
| "verdictOf (RollingBack st err) = Some (SingleRolledBack, error_text err)"
| "verdictOf st = None"

fun outcomeVerdict :: "waitsOutcome \<Rightarrow> string \<times> string" where
  "outcomeVerdict AllAcked = (SingleOK, '''')"
| "outcomeVerdict (WaitFailed what err) = (SingleRolledBack, error_text err)"

lemma drive_runs:
  "sy_update s = Awaiting st \<Longrightarrow> sy_updateSignals s = map snd sigs \<Longrightarrow> spec = si_Spec (su_input su) \<Longrightarrow>
   \<exists>s'. sysRun su (driveEvents spec st deadline now sigs) s = Some s' \<and>
     verdictOf (sy_update s') = Some (outcomeVerdict (drive spec st deadline now sigs))"
proof (induction spec st deadline now sigs arbitrary: s rule: drive.induct)
  case (1 spec st deadline now)
  then show ?case by (simp add: timerFires_def)
next
  case (2 spec st deadline now arr sig rest)
  show ?case
  proof (cases "deadline < arr")
    case True
    then show ?thesis using "2.prems" by (simp add: timerFires_def)
  next
    case early: False
    show ?thesis
    proof (cases "react (wanted st) sig")
      case Ignored
      then show ?thesis using early "2.prems" "2.IH"(1) [of "s\<lparr>sy_updateSignals := map snd rest, sy_update := Awaiting st\<rparr>"]
        by (simp add: takeSignal_def)
    next
      case Passed
      show ?thesis
      proof (cases "nextStage st")
        case None
        then show ?thesis using early Passed "2.prems" by (simp add: takeSignal_def resultOf_def)
      next
        case (Some st')
        then show ?thesis using early Passed "2.prems"
            "2.IH"(2) [of st' "s\<lparr>sy_updateSignals := map snd rest, sy_update := Awaiting st'\<rparr>"]
          by (simp add: takeSignal_def)
      qed
    next
      case (Broken err)
      then show ?thesis using early "2.prems" by (simp add: takeSignal_def)
    qed
  qed
qed

text \<open>
  C6: the machine is the workflow: with its command accepted and the same signals in its queue, taken
  while they come before the deadline of the wait it is in, it is bound to the phase and the detail
  that \<^verbatim>\<open>OTASingleRobot\<close> reports.
\<close>

theorem machine_is_workflow:
  assumes "sy_update s = Awaiting AwaitPulled" and "sy_updateSignals s = map snd (sg_signals e)"
    and "fst (executeActivity maxAttempts
      (SendOTACommand (rolloutOf su) (robotOf su) (si_Spec (su_input su))) (sg_send e) w) = Inr ()"
  shows "\<exists>s'. sysRun su (driveEvents (si_Spec (su_input su)) AwaitPulled
        (sg_sent e + max 0 (PullTimeout (si_Spec (su_input su)))) (sg_sent e) (sg_signals e)) s = Some s' \<and>
    verdictOf (sy_update s') =
      Some (sr_Phase (fst (OTASingleRobot e (su_input su) w)), sr_Detail (fst (OTASingleRobot e (su_input su) w)))"
proof -
  let ?spec = "si_Spec (su_input su)"
  have "outcomeVerdict (waitsOutcome e ?spec) =
      (sr_Phase (fst (OTASingleRobot e (su_input su) w)), sr_Detail (fst (OTASingleRobot e (su_input su) w)))"
    using assms(3)
    by (auto simp: OTASingleRobot_outcome finishRolledBack_def Let_def split: prod.split sum.splits waitsOutcome.split)
  then show ?thesis
    using drive_runs [OF assms(1,2) HOL.refl, of su "sg_sent e + max 0 (PullTimeout ?spec)" "sg_sent e"]
    unfolding drive_waits by simp
qed

section \<open>Witnesses\<close>

definition demoSite :: "string \<Rightarrow> (string \<Rightarrow> string option) deployment" where
  "demoSite smoke = \<lparr>su_cfg = demoConfig, su_input = \<lparr>si_RolloutID = ''rollout-1'', si_RobotID = ''r1'',
     si_Spec = demoSpec\<lparr>SmokeCommand := smoke\<rparr>\<rparr>, su_started = 0, su_ended = minute, su_errText = (\<lambda>t. t)\<rparr>"

text \<open>A run in which the smoke check fails; the rollback command is sent and not delivered.\<close>

definition demoSelfRun :: "event list" where
  "demoSelfRun = [SendAttempt (Completed None), Deliver 0] @ replicate 15 (Turn 0) @
     [BridgeHandles 1, BridgeHandles 2, BridgeHandles 3, TakeSignal, TakeSignal, TakeSignal,
      StartRollback None, RbSendAttempt (Completed None)]"

definition demoSelf :: "(string \<Rightarrow> string option) system" where
  "demoSelf = the (sysRun (demoSite ''false'') demoSelfRun (sysStart demoStart emptyDb))"

lemma demoSite_ok: "siteOk (demoSite smoke)"
  by (auto simp: siteOk_def demoSite_def demoConfig_def slashFree_def demoSpec_def defaultsApplied_def Let_def in_i64_def)

definition demoSelfAck :: otaAck where
  "demoSelfAck = \<lparr>ack_RolloutID = ''rollout-1'', ack_RobotID = ''r1'', ack_Phase = ''PHASE_ROLLED_BACK'',
     ack_Detail = ''self-rollback after smoke failure'', ack_At = ''2026-01-01T00:00:00Z'', ack_ImageDigest = '''',
     ack_PreviousImageDigest = ''''\<rparr>"

lemma demo_evaluated:
  "case sysRun (demoSite ''false'') demoSelfRun (sysStart demoStart emptyDb) of None \<Rightarrow> False | Some s \<Rightarrow>
     sy_rollback s = RbAwaiting \<and> sy_rollbackSignals s = [] \<and> length (ex_published (sy_robot s)) = 5 \<and>
     ex_published (sy_robot s) ! 4 = ackMessage ''r1'' demoSelfAck \<and> length (sy_tasks s) = 1 \<and>
     ota_rollbacks (cl_db (sy_cloud s)) = []"
  by code_simp

lemma demo_runs:
  "sysRun (demoSite ''false'') demoSelfRun (sysStart demoStart emptyDb) = Some demoSelf"
  using demo_evaluated by (auto simp: demoSelf_def split: option.splits)

lemmas demo_states = demo_evaluated [unfolded demo_runs option.case]

text \<open>The robot has been given one command only, the forward command.\<close>

theorem self_rollback_answers_command_witness:
  "\<exists>s'. sysRun (demoSite ''false'') (demoSelfRun @ [BridgeHandles 4, RbTakeSignal, RbRecord [demoDbEnv]])
      (sysStart demoStart emptyDb) = Some s' \<and> sy_rollback s' = RbEnded None \<and> length (sy_tasks s') = 1 \<and>
    map rb_status (ota_rollbacks (cl_db (sy_cloud s'))) = [''ok'']"
proof -
  have 1: "sy_rollback demoSelf = RbAwaiting" "sy_rollbackSignals demoSelf = []" "4 < length (ex_published (sy_robot demoSelf))"
    using demo_states by simp_all
  have 2: "ex_published (sy_robot demoSelf) ! 4 = ackMessage (robotOf (demoSite ''false'')) demoSelfAck"
    using demo_states by (simp add: demoSite_def)
  have 3: "ack_RolloutID demoSelfAck = rolloutOf (demoSite ''false'')" "ack_Phase demoSelfAck = ''PHASE_ROLLED_BACK''"
    "dbe_fault demoDbEnv = None" by (simp_all add: demoSelfAck_def demoSite_def demoDbEnv_def)
  from self_rollback_answers_command [OF demoSite_ok 1 2 3] demo_states show ?thesis
    by (auto simp: sys.run_append demo_runs)
qed

text \<open>A robot whose smoke check fails, after a signal that is out of turn.\<close>

theorem machine_is_workflow_witness:
  "sr_Phase (fst (OTASingleRobot (demoOrder [''PHASE_SWAPPED'', ''PHASE_PULLED'', ''PHASE_SWAPPED'', ''PHASE_FAILED''])
     (su_input (demoSite ''false'')) demoCloud)) = ''rolled_back''"
proof -
  let ?e = "demoOrder [''PHASE_SWAPPED'', ''PHASE_PULLED'', ''PHASE_SWAPPED'', ''PHASE_FAILED'']"
  let ?su = "demoSite ''false''" and ?spec = "demoSpec\<lparr>SmokeCommand := ''false''\<rparr>"
  let ?s = "(sysStart demoStart emptyDb)\<lparr>sy_update := Awaiting AwaitPulled, sy_updateSignals := map snd (sg_signals ?e)\<rparr>"
  have 1: "sy_update ?s = Awaiting AwaitPulled" "sy_updateSignals ?s = map snd (sg_signals ?e)" by simp_all
  have 2: "fst (executeActivity maxAttempts (SendOTACommand (rolloutOf ?su) (robotOf ?su)
      (si_Spec (su_input ?su))) (sg_send ?e) demoCloud) = Inr ()" by code_simp
  have events: "driveEvents (si_Spec (su_input ?su)) AwaitPulled
      (sg_sent ?e + max 0 (PullTimeout (si_Spec (su_input ?su)))) (sg_sent ?e) (sg_signals ?e) =
    [TakeSignal, TakeSignal, TakeSignal, TakeSignal]" by code_simp
  have 3: "map_option (\<lambda>s'. map_option fst (verdictOf (sy_update s')))
      (sysRun ?su [TakeSignal, TakeSignal, TakeSignal, TakeSignal] ?s) = Some (Some ''rolled_back'')" by code_simp
  from machine_is_workflow [OF 1 2] 3 show ?thesis unfolding events by auto
qed

end
