(* ===== verification/Abort.thy ===== *)
theory Abort
  imports Rollout
begin

text \<open>
  Cancellation of a rollout (\<^verbatim>\<open>POST /v1/ota/rollouts/{id}/abort\<close> calls \<^verbatim>\<open>CancelWorkflow\<close>):
  the workflows of \<^verbatim>\<open>workflow_rollout.go\<close>, \<^verbatim>\<open>workflow_singlerobot.go\<close> and
  \<^verbatim>\<open>workflow_rollback.go\<close> once more, with their context.  A context is cancelled at one time or
  never; the request reaches a child no earlier than its parent.  As Temporal documents it, a timer of a
  cancelled context is ready at once, an activity is not started and one that is running is not
  waited for, and a child workflow is not started and one that is running is not waited for; each
  gives the error \<^verbatim>\<open>canceled\<close>.
\<close>

section \<open>The context\<close>

type_synonym ctx = "time option"

definition cancelledAt :: "ctx \<Rightarrow> time \<Rightarrow> bool" where
  "cancelledAt c t = (case c of None \<Rightarrow> False | Some k \<Rightarrow> k \<le> t)"

text \<open>When something that starts at \<open>now\<close> and would be ready at \<open>d\<close> is ready, or given up.\<close>

definition ctxReady :: "ctx \<Rightarrow> time \<Rightarrow> time \<Rightarrow> time" where
  "ctxReady c now d = (case c of None \<Rightarrow> d | Some k \<Rightarrow> max now (min d k))"

text \<open>An activity that starts at \<open>t1\<close> and whose last attempt ends at \<open>t2\<close>.\<close>

definition ctxActivity ::
  "ctx \<Rightarrow> time \<Rightarrow> time \<Rightarrow> nat \<Rightarrow> ('e \<Rightarrow> 'w \<Rightarrow> (go_error + 'a) \<times> 'w) \<Rightarrow> 'e list \<Rightarrow> 'w \<Rightarrow> (go_error + 'a) \<times> 'w" where
  "ctxActivity c t1 t2 n act es w =
     (if cancelledAt c t1 then (Inl canceled, w)
      else if cancelledAt c t2 then (Inl canceled, snd (executeActivity n act es w))
      else executeActivity n act es w)"

text \<open>An activity whose result is ignored, started at \<open>t\<close>: its effect.\<close>

definition unlessCancelled :: "ctx \<Rightarrow> time \<Rightarrow> ('w \<Rightarrow> 'w) \<Rightarrow> 'w \<Rightarrow> 'w" where
  "unlessCancelled c t f w = (if cancelledAt c t then w else f w)"

lemma cancelledAt_simps [simp]: "\<not> cancelledAt None t" "cancelledAt (Some k) t \<longleftrightarrow> k \<le> t"
  by (simp_all add: cancelledAt_def)

lemma ctxReady_simps [simp]: "ctxReady None now d = d" "ctxReady (Some k) now d = max now (min d k)"
  by (simp_all add: ctxReady_def)

lemma ctxActivity_None [simp]: "ctxActivity None t1 t2 n act es w = executeActivity n act es w"
  by (simp add: ctxActivity_def)

lemma ctxActivity_frame:
  "(\<And>e v. P (snd (act e v)) = P v) \<Longrightarrow> P (snd (ctxActivity c t1 t2 n act es w)) = P w"
  by (simp add: ctxActivity_def executeActivity_frame)

lemma unlessCancelled_None [simp]: "unlessCancelled None t f w = f w"
  by (simp add: unlessCancelled_def)

section \<open>Rollback of one robot\<close>

text \<open>The loop, with the time it ends.\<close>

fun rollbackLoopCtx :: "time \<Rightarrow> time \<Rightarrow> signals \<Rightarrow> rollbackAck \<times> time" where
  "rollbackLoopCtx deadline now [] = (NoAck, deadline)"
| "rollbackLoopCtx deadline now ((arr, sig) # rest) =
     (if deadline < arr then (NoAck, deadline)
      else if sig_Phase sig = ''PHASE_ROLLED_BACK'' then (AckRolledBack (sig_Detail sig), max now arr)
      else if sig_Phase sig = ''PHASE_FAILED'' then (AckFailed (sig_Detail sig), max now arr)
      else rollbackLoopCtx deadline (max now arr) rest)"

definition OTARollbackCtx ::
  "ctx \<Rightarrow> time \<Rightarrow> rollback_env \<Rightarrow> rollbackInput \<Rightarrow> cloud \<Rightarrow> go_error option \<times> cloud" where
  "OTARollbackCtx c now e inp w =
     (case ctxActivity c now (rv_sent e) maxAttempts
            (SendRollbackCommand (ri_RolloutID inp) (ri_RobotID inp) (ri_Reason inp)) (rv_send e) w of
        (Inl err, w1) \<Rightarrow>
          (Some (GoError (''send rollback failed: '' @ rv_errText e (error_text err))), w1)
      | (Inr u, w1) \<Rightarrow>
          (case rollbackLoopCtx (ctxReady c (rv_sent e) (rv_sent e + 5 * minute)) (rv_sent e) (rv_signals e) of
             (ack, t) \<Rightarrow>
              (let rec = (\<lambda>status detail. unlessCancelled c t (\<lambda>v. snd (executeActivity maxAttempts
                     (actRecordRollbackOutcome (ri_RolloutID inp) (ri_RobotID inp) status detail)
                     (rv_record e) v)) w1)
               in case ack of
                    NoAck \<Rightarrow> (Some (GoError ''rollback stuck: no ack within 5m''),
                      rec ''stuck'' ''no rollback ack within 5m'')
                  | AckRolledBack detail \<Rightarrow> (None, rec ''ok'' detail)
                  | AckFailed detail \<Rightarrow>
                      (Some (GoError (''rollback failed: '' @ detail)), rec ''failed'' detail))))"

section \<open>Update of one robot\<close>

definition waitForPhaseCtx ::
  "ctx \<Rightarrow> string \<Rightarrow> duration \<Rightarrow> time \<Rightarrow> signals \<Rightarrow> go_error option \<times> time \<times> signals" where
  "waitForPhaseCtx c want timeout now sigs =
     waitLoop want timeout (ctxReady c now (now + max 0 timeout)) now sigs"

definition executeRollbackCtx ::
  "ctx \<Rightarrow> time \<Rightarrow> single_env \<Rightarrow> singleInput \<Rightarrow> string \<Rightarrow> cloud \<Rightarrow> go_error option \<times> cloud" where
  "executeRollbackCtx c now e inp reason w =
     (if cancelledAt c now then (Some canceled, w)
      else case sg_rollbackStart e of Some err \<Rightarrow> (Some err, w) | None \<Rightarrow>
       OTARollbackCtx c now (sg_rollback e)
         \<lparr>ri_RolloutID = si_RolloutID inp, ri_RobotID = si_RobotID inp, ri_Reason = reason\<rparr> w)"

text \<open>The ends of the workflow, reached at \<open>now\<close> or, after a rollback, later.\<close>

definition finishFailedCtx ::
  "ctx \<Rightarrow> time \<Rightarrow> single_env \<Rightarrow> singleResult \<Rightarrow> string \<Rightarrow> cloud \<Rightarrow> singleResult \<times> cloud" where
  "finishFailedCtx c now e res detail w =
     (let res' = res\<lparr>sr_Phase := SingleFailed, sr_Detail := detail, sr_EndedAt := sg_ended e\<rparr>
      in (res', unlessCancelled c (max now (sg_ended e))
            (\<lambda>v. snd (executeForever (actRecordRobotResult '''' res') (sg_record e) v)) w))"

definition finishRolledBackCtx ::
  "ctx \<Rightarrow> time \<Rightarrow> single_env \<Rightarrow> singleResult \<Rightarrow> string \<Rightarrow> cloud \<Rightarrow> singleResult \<times> cloud" where
  "finishRolledBackCtx c now e res detail w =
     (let res' = res\<lparr>sr_Phase := SingleRolledBack, sr_Detail := detail, sr_EndedAt := sg_ended e\<rparr>
      in (res', unlessCancelled c (max now (sg_ended e))
            (\<lambda>v. snd (executeForever (actRecordRobotResult '''' res') (sg_record e) v)) w))"

definition OTASingleRobotCtx :: "ctx \<Rightarrow> single_env \<Rightarrow> singleInput \<Rightarrow> cloud \<Rightarrow> singleResult \<times> cloud" where
  "OTASingleRobotCtx c e inp w =
     (let res = \<lparr>sr_RobotID = si_RobotID inp, sr_Phase = '''', sr_Detail = '''',
            sr_StartedAt = sg_started e, sr_EndedAt = 0\<rparr>;
          spec = si_Spec inp in
      case ctxActivity c (sg_started e) (sg_sent e) maxAttempts
             (SendOTACommand (si_RolloutID inp) (si_RobotID inp) spec) (sg_send e) w of
        (Inl err, w1) \<Rightarrow>
          finishFailedCtx c (ctxReady c (sg_started e) (sg_sent e)) e res
            (''send command failed: '' @ sg_errText e (error_text err)) w1
      | (Inr u, w1) \<Rightarrow>
         (case waitForPhaseCtx c ''PHASE_PULLED'' (PullTimeout spec) (sg_sent e) (sg_signals e) of
            (Some err, now1, sigs1) \<Rightarrow>
              finishRolledBackCtx c now1 e res (error_text err)
                (snd (executeRollbackCtx c now1 e inp (''pull timeout/error: '' @ error_text err) w1))
          | (None, now1, sigs1) \<Rightarrow>
         (case waitForPhaseCtx c ''PHASE_SWAPPED'' (SwapTimeout spec) now1 sigs1 of
            (Some err, now2, sigs2) \<Rightarrow>
              finishRolledBackCtx c now2 e res (error_text err)
                (snd (executeRollbackCtx c now2 e inp (''swap timeout/error: '' @ error_text err) w1))
          | (None, now2, sigs2) \<Rightarrow>
         (case waitForPhaseCtx c ''PHASE_HEALTHY'' (SmokeTimeout spec) now2 sigs2 of
            (Some err, now3, sigs3) \<Rightarrow>
              finishRolledBackCtx c now3 e res (error_text err)
                (snd (executeRollbackCtx c now3 e inp (''smoke check failed: '' @ error_text err) w1))
          | (None, now3, sigs3) \<Rightarrow>
             (let res' = res\<lparr>sr_Phase := SingleOK, sr_EndedAt := sg_ended e\<rparr>
              in (res', unlessCancelled c (max now3 (sg_ended e)) (\<lambda>v. snd (executeActivity maxAttempts
                    (actRecordRobotResult (si_RolloutID inp) res') (sg_record e) v)) w1))))))"

text \<open>The waits, with the time they end.\<close>

definition waitsCtx :: "ctx \<Rightarrow> single_env \<Rightarrow> rolloutSpec \<Rightarrow> waitsOutcome \<times> time" where
  "waitsCtx c e spec =
     (case waitForPhaseCtx c ''PHASE_PULLED'' (PullTimeout spec) (sg_sent e) (sg_signals e) of
        (Some err, now1, sigs1) \<Rightarrow> (WaitFailed ''pull timeout/error: '' err, now1)
      | (None, now1, sigs1) \<Rightarrow>
     (case waitForPhaseCtx c ''PHASE_SWAPPED'' (SwapTimeout spec) now1 sigs1 of
        (Some err, now2, sigs2) \<Rightarrow> (WaitFailed ''swap timeout/error: '' err, now2)
      | (None, now2, sigs2) \<Rightarrow>
     (case waitForPhaseCtx c ''PHASE_HEALTHY'' (SmokeTimeout spec) now2 sigs2 of
        (Some err, now3, sigs3) \<Rightarrow> (WaitFailed ''smoke check failed: '' err, now3)
      | (None, now3, sigs3) \<Rightarrow> (AllAcked, now3))))"

lemma OTASingleRobotCtx_outcome:
  "OTASingleRobotCtx c e inp w =
     (let res = \<lparr>sr_RobotID = si_RobotID inp, sr_Phase = '''', sr_Detail = '''',
            sr_StartedAt = sg_started e, sr_EndedAt = 0\<rparr> in
      case ctxActivity c (sg_started e) (sg_sent e) maxAttempts
             (SendOTACommand (si_RolloutID inp) (si_RobotID inp) (si_Spec inp)) (sg_send e) w of
        (Inl err, w1) \<Rightarrow>
          finishFailedCtx c (ctxReady c (sg_started e) (sg_sent e)) e res
            (''send command failed: '' @ sg_errText e (error_text err)) w1
      | (Inr u, w1) \<Rightarrow>
         (case waitsCtx c e (si_Spec inp) of
            (WaitFailed what err, now) \<Rightarrow>
              finishRolledBackCtx c now e res (error_text err)
                (snd (executeRollbackCtx c now e inp (what @ error_text err) w1))
          | (AllAcked, now) \<Rightarrow>
              (let res' = res\<lparr>sr_Phase := SingleOK, sr_EndedAt := sg_ended e\<rparr>
               in (res', unlessCancelled c (max now (sg_ended e)) (\<lambda>v. snd (executeActivity maxAttempts
                    (actRecordRobotResult (si_RolloutID inp) res') (sg_record e) v)) w1))))"
  by (simp add: OTASingleRobotCtx_def waitsCtx_def Let_def split: prod.split sum.split option.split)

section \<open>The rollout\<close>

text \<open>
  When things end: the first two activities, and each child of a batch as the server reports it; and
  how long the request to cancel it takes to reach a child.
\<close>

record rollout_times =
  rt_started :: time
  rt_recorded :: time
  rt_resolved :: time
  rt_ends :: "string \<Rightarrow> nat \<Rightarrow> time"
  rt_delay :: "string \<Rightarrow> nat \<Rightarrow> nat"

text \<open>The context of a child is cancelled when the request has reached it.\<close>

definition childCtx :: "nat \<Rightarrow> ctx \<Rightarrow> ctx" where
  "childCtx delay c = map_option (\<lambda>k. k + int delay) c"

lemma childCtx_None [simp]: "childCtx delay None = None"
  by (simp add: childCtx_def)

definition runChildCtx ::
  "ctx \<Rightarrow> time \<Rightarrow> time \<Rightarrow> nat \<Rightarrow> child_env \<Rightarrow> string \<Rightarrow> rolloutSpec \<Rightarrow> string \<Rightarrow> cloud \<Rightarrow> singleResult \<times> cloud" where
  "runChildCtx c now ends delay ce rolloutID spec robot w =
     (let failed = (\<lambda>err. \<lparr>sr_RobotID = robot, sr_Phase = SingleFailed, sr_Detail = error_text err,
                       sr_StartedAt = 0, sr_EndedAt = 0\<rparr>) in
      if cancelledAt c now then (failed canceled, w)
      else case ch_error ce of
        Some err \<Rightarrow> (failed err, w)
      | None \<Rightarrow>
         (case OTASingleRobotCtx (childCtx delay c) (ch_single ce)
             \<lparr>si_RolloutID = rolloutID, si_RobotID = robot, si_Spec = spec\<rparr> w of
            (res, w1) \<Rightarrow> (if cancelledAt c ends then (failed canceled, w1) else (res, w1))))"

fun runBatchCtx ::
  "ctx \<Rightarrow> time \<Rightarrow> (nat \<Rightarrow> time) \<Rightarrow> (nat \<Rightarrow> nat) \<Rightarrow> (nat \<Rightarrow> child_env) \<Rightarrow> nat \<Rightarrow> string \<Rightarrow> rolloutSpec \<Rightarrow> string list \<Rightarrow> cloud \<Rightarrow>
     singleResult list \<times> cloud" where
  "runBatchCtx c now ends delays env i rolloutID spec [] w = ([], w)"
| "runBatchCtx c now ends delays env i rolloutID spec (r # rs) w =
     (case runChildCtx c now (ends i) (delays i) (env i) rolloutID spec r w of (res, w1) \<Rightarrow>
      (case runBatchCtx c now ends delays env (Suc i) rolloutID spec rs w1 of (ress, w2) \<Rightarrow> (res # ress, w2)))"

text \<open>The batch is over when the last of its children is.\<close>

definition batchEnd :: "ctx \<Rightarrow> time \<Rightarrow> (nat \<Rightarrow> time) \<Rightarrow> nat \<Rightarrow> time" where
  "batchEnd c now ends n = foldl max now (map (\<lambda>i. ctxReady c now (ends i)) [0..<n])"

definition endRolloutCtx :: "ctx \<Rightarrow> time \<Rightarrow> rollout_env \<Rightarrow> string \<Rightarrow> string \<Rightarrow> cloud \<Rightarrow> cloud" where
  "endRolloutCtx c now e status detail w = unlessCancelled c now (endRollout e status detail) w"

definition runRestCtx ::
  "ctx \<Rightarrow> time \<Rightarrow> rollout_times \<Rightarrow> rollout_env \<Rightarrow> rolloutSpec \<Rightarrow> string list \<Rightarrow> cloud \<Rightarrow>
     (string \<times> go_error option) go \<times> cloud" where
  "runRestCtx c now tm e spec rest w =
     (if rest = [] then (Ok (StatusCompleted, None), endRolloutCtx c now e StatusCompleted '''' w)
      else
        let batchSize = batchSizeOf spec rest;
            n = minInt batchSize (int (length rest)) in
        case sliceTo n rest of None \<Rightarrow> (Panic slicePanic, w) | Some batchRobots \<Rightarrow>
        (case runBatchCtx c now (rt_ends tm ''batch1'') (rt_delay tm ''batch1'') (ro_child e ''batch1'') 0 (ro_id e) spec batchRobots w of
           (batchResults, w1) \<Rightarrow>
          (let now1 = batchEnd c now (rt_ends tm ''batch1'') (length batchRobots) in
           if failureCount batchResults > FailureBudget spec then
             (Ok (StatusAborted, None), endRolloutCtx c now1 e StatusAborted
               (''batch1 failures '' @ showInt (failureCount batchResults) @ '' exceeded budget '' @
                showInt (FailureBudget spec)) w1)
           else
             let remainder = drop (nat n) rest in
             if remainder = [] then (Ok (StatusCompleted, None), endRolloutCtx c now1 e StatusCompleted '''' w1)
             else
               (case runBatchCtx c now1 (rt_ends tm ''batch2'') (rt_delay tm ''batch2'') (ro_child e ''batch2'') 0 (ro_id e) spec remainder w1 of
                  (remResults, w2) \<Rightarrow>
                 (let now2 = batchEnd c now1 (rt_ends tm ''batch2'') (length remainder) in
                  if failureCount remResults > i64 (FailureBudget spec * 4) then
                    (Ok (StatusAborted, None), endRolloutCtx c now2 e StatusAborted
                      (''batch2 failures '' @ showInt (failureCount remResults) @ '' exceeded scaled budget'') w2)
                  else (Ok (StatusCompleted, None), endRolloutCtx c now2 e StatusCompleted '''' w2))))))"

definition OTARolloutCtx ::
  "ctx \<Rightarrow> rollout_times \<Rightarrow> rollout_env \<Rightarrow> rolloutSpec \<Rightarrow> cloud \<Rightarrow> (string \<times> go_error option) go \<times> cloud" where
  "OTARolloutCtx c tm e spec0 w0 =
     (let spec = defaultsApplied spec0 in
      case ctxActivity c (rt_started tm) (rt_recorded tm) maxAttempts
             (actRecordRolloutStarted (ro_specJSON e) (ro_id e) spec) (ro_start e) w0 of
        (Inl err, w1) \<Rightarrow> (Ok ('''', Some err), w1)
      | (Inr u, w1) \<Rightarrow>
     (case ctxActivity c (rt_recorded tm) (rt_resolved tm) maxAttempts
             (ResolveCohort (CohortSelector spec)) (ro_cohort e) w1 of
        (Inl err, w2) \<Rightarrow>
          (Ok (StatusAborted, Some err),
           endRolloutCtx c (ctxReady c (rt_recorded tm) (rt_resolved tm)) e StatusAborted
             (''resolve cohort failed: '' @ ro_errText e (error_text err)) w2)
      | (Inr cohort, w2) \<Rightarrow>
         (if cohort = [] then
            (Ok (StatusEmptyCohort, None),
             endRolloutCtx c (rt_resolved tm) e StatusEmptyCohort ''no robots matched selector'' w2)
          else
            let canarySize = minInt (CanarySize spec) (int (length cohort)) in
            case sliceTo canarySize cohort of None \<Rightarrow> (Panic slicePanic, w2) | Some canaryRobots \<Rightarrow>
            (case runBatchCtx c (rt_resolved tm) (rt_ends tm ''canary'') (rt_delay tm ''canary'') (ro_child e ''canary'') 0 (ro_id e) spec
                    canaryRobots w2 of (canaryResults, w3) \<Rightarrow>
              (let now = batchEnd c (rt_resolved tm) (rt_ends tm ''canary'') (length canaryRobots) in
               if failureCount canaryResults > 0 then
                 (Ok (StatusCanaryFailed, None), endRolloutCtx c now e StatusCanaryFailed
                   (''canary failed on '' @ showInt (failureCount canaryResults) @ '' robot(s)'') w3)
               else runRestCtx c now tm e spec (drop (nat canarySize) cohort) w3)))))"

section \<open>A context that is not cancelled\<close>

lemma rollbackLoopCtx_fst: "fst (rollbackLoopCtx deadline now sigs) = rollbackLoop deadline sigs"
  by (induction deadline now sigs rule: rollbackLoopCtx.induct) auto

lemma OTARollbackCtx_None: "OTARollbackCtx None now e inp w = OTARollback e inp w"
  using rollbackLoopCtx_fst [of "rv_sent e + 5 * minute" "rv_sent e" "rv_signals e"]
  by (cases "rollbackLoopCtx (rv_sent e + 5 * minute) (rv_sent e) (rv_signals e)")
    (simp add: OTARollbackCtx_def OTARollback_def Let_def split: sum.split prod.split)

lemma executeRollbackCtx_None: "executeRollbackCtx None now e inp reason w = executeRollback e inp reason w"
  by (simp add: executeRollbackCtx_def executeRollback_def OTARollbackCtx_None split: option.split)

lemma waitsCtx_None: "fst (waitsCtx None e spec) = waitsOutcome e spec"
  by (simp add: waitsCtx_def waitsOutcome_def waitForPhaseCtx_def waitForPhase_def
      split: prod.split option.split)

lemma OTASingleRobotCtx_None: "OTASingleRobotCtx None e inp w = OTASingleRobot e inp w"
  using waitsCtx_None [of e "si_Spec inp"]
  by (cases "waitsCtx None e (si_Spec inp)")
    (auto simp: OTASingleRobotCtx_outcome OTASingleRobot_outcome executeRollbackCtx_None
      finishFailedCtx_def finishFailed_def finishRolledBackCtx_def finishRolledBack_def Let_def
      split: sum.split prod.split waitsOutcome.split)

lemma runBatchCtx_None: "runBatchCtx None now ends delays env i ro spec robots w = runBatch env i ro spec robots w"
  by (induction robots arbitrary: i w)
    (simp_all add: runChildCtx_def runChild_def OTASingleRobotCtx_None Let_def split: option.split prod.split)

lemma runRestCtx_None: "runRestCtx None now tm e spec rest w = runRest e spec rest w"
  by (simp add: runRestCtx_def runRest_def runBatchCtx_None endRolloutCtx_def Let_def split: option.split prod.split)

lemma OTARolloutCtx_None: "OTARolloutCtx None tm e spec w = OTARollout e spec w"
  by (simp add: OTARolloutCtx_def OTARollout_def runBatchCtx_None runRestCtx_None endRolloutCtx_def Let_def
      split: option.split prod.split sum.split)

section \<open>Waits that are cancelled\<close>

lemma waitLoop_time: "waitLoop want timeout d now sigs = (r, n, rest) \<Longrightarrow> now \<le> d \<Longrightarrow> now \<le> n \<and> n \<le> d"
  by (induction want timeout d now sigs rule: waitLoop.induct) (auto split: if_splits)

text \<open>A timer that is ready earlier: the wait ends as before, or at the timer.\<close>

lemma waitLoop_earlier:
  assumes "now \<le> d'" and "d' \<le> d" and "waitLoop want timeout d now sigs = (r, n, rest)"
  shows "if n \<le> d' then waitLoop want timeout d' now sigs = (r, n, rest)
    else \<exists>rest'. waitLoop want timeout d' now sigs = (Some (timeoutError want timeout), d', rest')"
  using assms
proof (induction want timeout d now sigs rule: waitLoop.induct)
  case (1 want timeout d now)
  then show ?case by (cases "d' = d") auto
next
  case (2 want timeout d now arr sig sigs)
  show ?case
  proof (cases "d' < arr")
    case True
    have "n \<le> d' \<Longrightarrow> r = Some (timeoutError want timeout) \<and> n = d' \<and> rest = (arr, sig) # sigs"
      using "2.prems" True waitLoop_time [of want timeout d "max now arr" sigs r n rest]
      by (auto split: if_splits)
    then show ?thesis using True by auto
  next
    case False
    then show ?thesis using "2.prems" "2.IH" by (auto split: if_splits)
  qed
qed

lemma waitForPhaseCtx_cancelled:
  assumes "now \<le> k" and "waitForPhaseCtx None want timeout now sigs = (r, n, rest)"
  shows "now \<le> n" and "if n \<le> k then waitForPhaseCtx (Some k) want timeout now sigs = (r, n, rest)
    else \<exists>rest'. waitForPhaseCtx (Some k) want timeout now sigs = (Some (timeoutError want timeout), k, rest')"
proof -
  let ?d = "now + max 0 timeout"
  have run: "waitLoop want timeout ?d now sigs = (r, n, rest)" using assms(2) by (simp add: waitForPhaseCtx_def)
  have t: "now \<le> n \<and> n \<le> ?d" using waitLoop_time [OF run] by simp
  then show "now \<le> n" ..
  have ready: "max now (min ?d k) = min ?d k" using assms(1) by simp
  show "if n \<le> k then waitForPhaseCtx (Some k) want timeout now sigs = (r, n, rest)
    else \<exists>rest'. waitForPhaseCtx (Some k) want timeout now sigs = (Some (timeoutError want timeout), k, rest')"
    using waitLoop_earlier [of now "min ?d k" ?d, OF _ _ run] assms(1) t
    by (simp add: waitForPhaseCtx_def ready split: if_splits)
qed

lemma waitsCtx_cancelled:
  assumes "sg_sent e \<le> k"
  shows "if snd (waitsCtx None e spec) \<le> k then waitsCtx (Some k) e spec = waitsCtx None e spec
    else \<exists>what err. waitsCtx (Some k) e spec = (WaitFailed what err, k)"
proof -
  obtain r1 n1 s1 where 1: "waitForPhaseCtx None ''PHASE_PULLED'' (PullTimeout spec) (sg_sent e) (sg_signals e) = (r1, n1, s1)"
    by (metis prod_cases3)
  obtain r2 n2 s2 where 2: "waitForPhaseCtx None ''PHASE_SWAPPED'' (SwapTimeout spec) n1 s1 = (r2, n2, s2)"
    by (metis prod_cases3)
  obtain r3 n3 s3 where 3: "waitForPhaseCtx None ''PHASE_HEALTHY'' (SmokeTimeout spec) n2 s2 = (r3, n3, s3)"
    by (metis prod_cases3)
  note w1 = waitForPhaseCtx_cancelled [OF assms 1]
  note w2 = waitForPhaseCtx_cancelled [OF _ 2, of k]
  note w3 = waitForPhaseCtx_cancelled [OF _ 3, of k]
  have le: "n1 \<le> n2" "n2 \<le> n3"
    using waitForPhaseCtx_cancelled(1) [OF order_refl 2] waitForPhaseCtx_cancelled(1) [OF order_refl 3] .
  show ?thesis
  proof (cases "n1 \<le> k \<and> r1 = None")
    case False
    then show ?thesis using 1 w1(2) le
      by (cases r1; auto simp: waitsCtx_def 2 3 split: if_splits option.splits)
  next
    case True
    then have 11: "waitForPhaseCtx (Some k) ''PHASE_PULLED'' (PullTimeout spec) (sg_sent e) (sg_signals e) = (None, n1, s1)"
      using w1(2) by simp
    show ?thesis
    proof (cases "n2 \<le> k \<and> r2 = None")
      case False
      then show ?thesis using True w2(2) le
        by (cases r2; auto simp: waitsCtx_def 1 2 3 11 split: if_splits option.splits)
    next
      case r2: True
      then have 22: "waitForPhaseCtx (Some k) ''PHASE_SWAPPED'' (SwapTimeout spec) n1 s1 = (None, n2, s2)"
        using w2(2) True by simp
      show ?thesis using True r2 w3(2)
        by (cases r3; auto simp: waitsCtx_def 1 2 3 11 22 split: if_splits)
    qed
  qed
qed

section \<open>Who is written to\<close>

text \<open>Messages go to the named robots only, and the states of the rollouts stay.\<close>

definition toOnly :: "string set \<Rightarrow> cloud \<Rightarrow> cloud \<Rightarrow> bool" where
  "toOnly robots w w' \<longleftrightarrow> ota_rollouts (cl_db w') = ota_rollouts (cl_db w) \<and>
     (\<exists>ms. cl_outbox w' = cl_outbox w @ ms \<and> fst ` set ms \<subseteq> cmdOtaTopic ` robots)"

lemma toOnly_refl [simp]: "toOnly R w w"
  by (simp add: toOnly_def)

lemma toOnly_trans:
  assumes "toOnly R w w1" and "toOnly R w1 w2"
  shows "toOnly R w w2"
proof -
  from assms obtain ms ns where "cl_outbox w1 = cl_outbox w @ ms" "cl_outbox w2 = cl_outbox w1 @ ns"
    "fst ` set ms \<subseteq> cmdOtaTopic ` R" "fst ` set ns \<subseteq> cmdOtaTopic ` R"
    unfolding toOnly_def by (elim conjE exE)
  then show ?thesis using assms unfolding toOnly_def by (intro conjI exI [of _ "ms @ ns"]) (simp_all add: image_Un)
qed

lemma toOnly_mono: "toOnly R w w' \<Longrightarrow> R \<subseteq> R' \<Longrightarrow> toOnly R' w w'"
  using subset_trans [OF _ image_mono, of _ cmdOtaTopic R R'] unfolding toOnly_def by metis

lemma toOnly_status: "toOnly R w w' \<Longrightarrow> rolloutStatus (cl_db w') = rolloutStatus (cl_db w)"
  by (simp add: toOnly_def rolloutStatus_def fun_eq_iff)

lemma toOnly_outbox:
  "toOnly R w w' \<Longrightarrow> \<exists>ms. cl_outbox w' = cl_outbox w @ ms \<and> fst ` set ms \<subseteq> cmdOtaTopic ` R"
  by (simp add: toOnly_def)

lemma executeActivity_toOnly:
  "(\<And>e v. toOnly R v (snd (act e v))) \<Longrightarrow> toOnly R w (snd (executeActivity n act es w))"
proof (induction n act es w rule: executeActivity.induct)
  case (2 n act e es w)
  obtain q v where q: "act e w = (q, v)" by fastforce
  then have v: "toOnly R w v" using "2.prems" [of w e] by simp
  show ?case
  proof (cases q)
    case (Inl err)
    then show ?thesis using q v "2.IH" [OF q [symmetric] Inl] "2.prems"
      by (cases "n \<le> 1") (auto intro: toOnly_trans)
  qed (use q v in simp)
qed simp

lemma activities_toOnly:
  "toOnly {rb} w (snd (executeActivity n (SendOTACommand ro rb spec) toks w))"
  "toOnly {rb} w (snd (executeActivity n (SendRollbackCommand ro rb reason) toks w))"
  "toOnly R w (snd (executeActivity n (actRecordRobotResult x res) ds w))"
  "toOnly R w (snd (executeActivity n (actRecordRollbackOutcome ro rb st det) ds w))"
  by (rule executeActivity_toOnly,
      simp add: toOnly_def SendOTACommand_def SendRollbackCommand_def mqttPublish_def actRecordRobotResult_def
        actRecordRollbackOutcome_def dbActivity_def RecordRobotResult_def RecordRollbackOutcome_def
        execStmt_def split: option.split prod.split)+

lemma ctxActivity_toOnly:
  "toOnly R w (snd (executeActivity n act es w)) \<Longrightarrow> toOnly R w (snd (ctxActivity c t1 t2 n act es w))"
  by (simp add: ctxActivity_def)

lemma unlessCancelled_toOnly: "toOnly R w (f w) \<Longrightarrow> toOnly R w (unlessCancelled c t f w)"
  by (simp add: unlessCancelled_def)

lemma OTARollbackCtx_toOnly: "toOnly {ri_RobotID inp} w (snd (OTARollbackCtx c now e inp w))"
proof -
  obtain r w1 where x: "ctxActivity c now (rv_sent e) maxAttempts
      (SendRollbackCommand (ri_RolloutID inp) (ri_RobotID inp) (ri_Reason inp)) (rv_send e) w = (r, w1)" by fastforce
  have w1: "toOnly {ri_RobotID inp} w w1"
    using ctxActivity_toOnly [OF activities_toOnly(2), of "ri_RobotID inp" w c now "rv_sent e" maxAttempts
        "ri_RolloutID inp" "ri_Reason inp" "rv_send e"] x by simp
  have "toOnly {ri_RobotID inp} w1 (snd (OTARollbackCtx c now e inp w))"
    unfolding OTARollbackCtx_def x
    by (auto simp: Let_def unlessCancelled_toOnly activities_toOnly split: sum.split prod.split rollbackAck.split)
  with w1 show ?thesis by (rule toOnly_trans)
qed

lemma OTASingleRobotCtx_toOnly: "toOnly {si_RobotID inp} w (snd (OTASingleRobotCtx c e inp w))"
proof -
  let ?R = "{si_RobotID inp}"
  obtain r w1 where x: "ctxActivity c (sg_started e) (sg_sent e) maxAttempts (SendOTACommand (si_RolloutID inp)
      (si_RobotID inp) (si_Spec inp)) (sg_send e) w = (r, w1)" by fastforce
  have w1: "toOnly ?R w w1"
    using ctxActivity_toOnly [OF activities_toOnly(1), of "si_RobotID inp" w c "sg_started e" "sg_sent e" maxAttempts
        "si_RolloutID inp" "si_Spec inp" "sg_send e"] x by simp
  have rb: "toOnly ?R w1 (snd (executeRollbackCtx c now e inp reason w1))" for now reason
    using OTARollbackCtx_toOnly [of "\<lparr>ri_RolloutID = si_RolloutID inp, ri_RobotID = si_RobotID inp, ri_Reason = reason\<rparr>"]
    by (simp add: executeRollbackCtx_def split: option.split)
  have fin: "toOnly ?R w1 (snd (finishRolledBackCtx c now e res d (snd (executeRollbackCtx c now e inp reason w1))))"
    for now res d reason
    by (rule toOnly_trans [OF rb [of now reason]])
      (simp add: finishRolledBackCtx_def Let_def unlessCancelled_toOnly executeForever_def activities_toOnly)
  have "toOnly ?R w1 (snd (OTASingleRobotCtx c e inp w))"
    unfolding OTASingleRobotCtx_outcome x
    by (auto simp: Let_def fin unlessCancelled_toOnly activities_toOnly finishFailedCtx_def executeForever_def
        split: sum.split prod.split waitsOutcome.split)
  with w1 show ?thesis by (rule toOnly_trans)
qed

lemma runChildCtx_toOnly: "toOnly {robot} w (snd (runChildCtx c now fin delay ce ro spec robot w))"
  using OTASingleRobotCtx_toOnly [of "\<lparr>si_RolloutID = ro, si_RobotID = robot, si_Spec = spec\<rparr>" w "childCtx delay c" "ch_single ce"]
  by (auto simp: runChildCtx_def Let_def split: option.split prod.split)

lemma runBatchCtx_toOnly: "toOnly (set robots) w (snd (runBatchCtx c now fin delays env i ro spec robots w))"
proof (induction robots arbitrary: i w)
  case (Cons r rs)
  obtain res w1 where 1: "runChildCtx c now (fin i) (delays i) (env i) ro spec r w = (res, w1)" by fastforce
  have "toOnly (set (r # rs)) w w1"
    using runChildCtx_toOnly [of r w c now "fin i" "delays i" "env i" ro spec] 1 by (auto intro: toOnly_mono)
  moreover have "toOnly (set (r # rs)) w1 (snd (runBatchCtx c now fin delays env (Suc i) ro spec rs w1))"
    using Cons.IH [of w1 "Suc i"] by (rule toOnly_mono) auto
  ultimately show ?case using 1 by (auto split: prod.split intro: toOnly_trans)
qed simp

section \<open>Batches that are cancelled\<close>

lemma runChildCtx_cancelled:
  "cancelledAt c now \<or> cancelledAt c fin \<Longrightarrow>
     sr_Phase (fst (runChildCtx c now fin delay ce ro spec robot w)) = SingleFailed"
  by (auto simp: runChildCtx_def Let_def split: option.split prod.split)

lemma failureCount_Cons:
  "failureCount (r # rs) = (if sr_Phase r = SingleOK then failureCount rs else 1 + failureCount rs)"
  by (simp add: failureCount_def)

lemma failureCount_nonneg: "0 \<le> failureCount rs"
  by (simp add: failureCount_def)

text \<open>A child that has not ended when the context is cancelled counts as failed.\<close>

lemma runBatchCtx_failure:
  assumes "j < length robots" and "cancelledAt c (fin (i + j))"
  shows "0 < failureCount (fst (runBatchCtx c now fin delays env i ro spec robots w))"
  using assms
proof (induction robots arbitrary: i j w)
  case (Cons r rs)
  obtain res w1 where 1: "runChildCtx c now (fin i) (delays i) (env i) ro spec r w = (res, w1)" by fastforce
  obtain ress w2 where 2: "runBatchCtx c now fin delays env (Suc i) ro spec rs w1 = (ress, w2)" by fastforce
  show ?case
  proof (cases j)
    case 0
    then have "sr_Phase res = SingleFailed"
      using runChildCtx_cancelled [of c now "fin i" "delays i" "env i" ro spec r w] Cons.prems 1 by simp
    then show ?thesis using 1 2 failureCount_nonneg [of ress] by (simp add: failureCount_Cons single_defs)
  next
    case (Suc m)
    then have "0 < failureCount ress" using Cons.IH [of m "Suc i" w1] Cons.prems 2 by simp
    then show ?thesis using 1 2 by (simp add: failureCount_Cons)
  qed
qed simp

text \<open>A batch that starts after the cancellation starts nothing.\<close>

lemma runBatchCtx_state: "cancelledAt c now \<Longrightarrow> snd (runBatchCtx c now fin delays env i ro spec robots w) = w"
  by (induction robots arbitrary: i w) (auto simp: runChildCtx_def Let_def split: prod.split, metis snd_conv)

lemma runBatchCtx_length: "length (fst (runBatchCtx c now fin delays env i ro spec robots w)) = length robots"
  by (induction robots arbitrary: i w) (auto split: prod.split, metis fst_conv)

lemma runBatchCtx_failures:
  "failureCount (fst (runBatchCtx c now fin delays env i ro spec robots w)) \<le> int (length robots)"
  using failureCount_le runBatchCtx_length by metis

lemma foldl_max_ge: "a \<le> foldl max a xs \<and> (\<forall>x \<in> set xs. x \<le> foldl max a xs)" for a :: int
proof (induction xs arbitrary: a)
  case (Cons x xs)
  from Cons.IH [of "max a x"] show ?case by auto
qed simp

lemma batchEnd_cancelled:
  assumes "cancelledAt c now \<or> (\<exists>i<n. cancelledAt c (fin i))"
  shows "cancelledAt c (batchEnd c now fin n)"
proof (cases c)
  case (Some k)
  from assms Some consider "k \<le> now" | i where "i < n" "k \<le> fin i" by auto
  then show ?thesis
  proof cases
    case 1
    with foldl_max_ge [of now "map (\<lambda>i. ctxReady c now (fin i)) [0..<n]"] Some show ?thesis
      by (auto simp: batchEnd_def)
  next
    case 2
    then have "k \<le> ctxReady c now (fin i)" using Some by simp
    moreover have "ctxReady c now (fin i) \<le> batchEnd c now fin n"
      unfolding batchEnd_def using 2 by (intro foldl_max_ge [THEN conjunct2, rule_format]) simp
    ultimately show ?thesis unfolding Some cancelledAt_simps by linarith
  qed
qed (use assms in auto)

section \<open>Properties\<close>

text \<open>
  Without a cancellation the workflows with a context are the workflows without one: the
  rollout, the update of a robot and its rollback do the same and return the same.
\<close>

theorem uncancelled_context_agrees:
  "OTARolloutCtx None tm e spec w = OTARollout e spec w \<and>
   OTASingleRobotCtx None se inp w = OTASingleRobot se inp w \<and>
   OTARollbackCtx None now re ri w = OTARollback re ri w"
  by (simp add: OTARolloutCtx_None OTASingleRobotCtx_None OTARollbackCtx_None)

text \<open>When the last wait of an update ends if nobody interferes.\<close>

definition verdictAt :: "single_env \<Rightarrow> rolloutSpec \<Rightarrow> time" where
  "verdictAt e spec = snd (waitsCtx None e spec)"

text \<open>
  An abort after the command was accepted and before the robot's verdict leaves the robot in
  the middle of its update: the workflow reports \<^verbatim>\<open>rolled_back\<close>, but the robot has received the
  forward command only, no rollback command, and nothing is recorded.
\<close>

theorem abort_strands_robot:
  assumes "sendAccepted maxAttempts (sg_send e)"
    and "sg_started e < k" and "sg_sent e < k" and "k < verdictAt e (si_Spec inp)"
  shows "\<exists>n. 1 \<le> n \<and> n \<le> 5 \<and> sr_Phase (fst (OTASingleRobotCtx (Some k) e inp w)) = SingleRolledBack \<and>
    snd (OTASingleRobotCtx (Some k) e inp w) = w\<lparr>cl_outbox := cl_outbox w @ replicate n (forwardMessage inp)\<rparr>"
proof -
  obtain u w1 where x: "executeActivity maxAttempts (SendOTACommand (si_RolloutID inp) (si_RobotID inp)
      (si_Spec inp)) (sg_send e) w = (Inr u, w1)"
    using assms(1) SendOTACommand_accepted [of maxAttempts "si_RolloutID inp" "si_RobotID inp" "si_Spec inp" "sg_send e" w]
    by blast
  have "sg_send e \<noteq> []" using assms(1) by auto
  with SendOTACommand_trace [OF x] obtain n where
    n: "w1 = w\<lparr>cl_outbox := cl_outbox w @ replicate n (forwardMessage inp)\<rparr>" "1 \<le> n" "n \<le> 5"
    by (auto simp: maxAttempts_def forwardMessage_def)
  obtain what err where "waitsCtx (Some k) e (si_Spec inp) = (WaitFailed what err, k)"
    using waitsCtx_cancelled [of e k "si_Spec inp"] assms(3,4) by (auto simp: verdictAt_def split: if_splits)
  with x n show ?thesis using assms(2,3)
    by (intro exI [of _ n]) (simp add: OTASingleRobotCtx_outcome ctxActivity_def finishRolledBackCtx_def
        executeRollbackCtx_def unlessCancelled_def Let_def)
qed

text \<open>What is left to do once the cohort is known in time.\<close>

lemma OTARolloutCtx_resolved:
  assumes "resolved e spec w cohort" and "cohort \<noteq> []" and "0 \<le> CanarySize spec"
    and "rt_started tm < k" and "rt_recorded tm < k" and "rt_resolved tm < k"
  shows "OTARolloutCtx (Some k) tm e spec w =
    (case runBatchCtx (Some k) (rt_resolved tm) (rt_ends tm ''canary'') (rt_delay tm ''canary'') (ro_child e ''canary'') 0 (ro_id e)
        (defaultsApplied spec) (canaryOf (defaultsApplied spec) cohort) (snd (rolloutOpened e spec w)) of
      (canaryResults, w3) \<Rightarrow>
        (let now = batchEnd (Some k) (rt_resolved tm) (rt_ends tm ''canary'') (length (canaryOf (defaultsApplied spec) cohort)) in
         if failureCount canaryResults > 0 then
           (Ok (StatusCanaryFailed, None), endRolloutCtx (Some k) now e StatusCanaryFailed
             (''canary failed on '' @ showInt (failureCount canaryResults) @ '' robot(s)'') w3)
         else runRestCtx (Some k) now tm e (defaultsApplied spec) (restOf (defaultsApplied spec) cohort) w3))"
proof -
  let ?s = "defaultsApplied spec"
  have 1: "executeActivity maxAttempts (actRecordRolloutStarted (ro_specJSON e) (ro_id e) ?s) (ro_start e) w =
      (Inr (), snd (rolloutOpened e spec w))"
    using assms(1) by (simp add: resolved_def rolloutOpened_def prod_eq_iff)
  have 2: "executeActivity maxAttempts (ResolveCohort (CohortSelector ?s)) (ro_cohort e) (snd (rolloutOpened e spec w)) =
      (Inr cohort, snd (rolloutOpened e spec w))"
    using assms(1) by (simp add: resolved_def ResolveCohort_state prod_eq_iff)
  note slices = slice_canary [of ?s cohort] defaults_canary [OF assms(3)]
  show ?thesis
    using assms(2,4-6) slices by (simp add: OTARolloutCtx_def ctxActivity_def 1 2 Let_def split: prod.split del: append.simps)
qed

text \<open>
  An abort while a robot of the canary is being updated ends the rollout as \<^verbatim>\<open>canary_failed\<close>,
  without an error; no robot outside the canary is ever contacted, and since the end cannot be
  recorded any more, a rollout that was new stays \<^verbatim>\<open>pending\<close> in the table.
\<close>

theorem abort_during_canary:
  assumes "resolved e spec w cohort" and "cohort \<noteq> []" and "0 \<le> CanarySize spec"
    and "rt_started tm < k" and "rt_recorded tm < k" and "rt_resolved tm < k"
    and "i < length (canaryOf (defaultsApplied spec) cohort)" and "k \<le> rt_ends tm ''canary'' i"
  shows "fst (OTARolloutCtx (Some k) tm e spec w) = Ok (StatusCanaryFailed, None) \<and>
    (\<exists>ms. cl_outbox (snd (OTARolloutCtx (Some k) tm e spec w)) = cl_outbox w @ ms \<and>
      fst ` set ms \<subseteq> cmdOtaTopic ` set (canaryOf (defaultsApplied spec) cohort)) \<and>
    (rolloutStatus (cl_db w) (ro_id e) = None \<longrightarrow>
     rolloutStatus (cl_db (snd (OTARolloutCtx (Some k) tm e spec w))) (ro_id e) = Some ''pending'')"
proof -
  let ?s = "defaultsApplied spec" and ?w1 = "snd (rolloutOpened e spec w)"
  let ?canary = "canaryOf ?s cohort"
  obtain res w3 where run: "runBatchCtx (Some k) (rt_resolved tm) (rt_ends tm ''canary'') (rt_delay tm ''canary'') (ro_child e ''canary'')
      0 (ro_id e) ?s ?canary ?w1 = (res, w3)" by fastforce
  have fails: "0 < failureCount res"
    using runBatchCtx_failure [OF assms(7), of "Some k" "rt_ends tm ''canary''" 0] assms(8) run by (metis
      add_0 cancelledAt_simps(2) fst_conv)
  have late: "cancelledAt (Some k) (batchEnd (Some k) (rt_resolved tm) (rt_ends tm ''canary'') (length ?canary))"
    using assms(7,8) by (intro batchEnd_cancelled) auto
  have x: "OTARolloutCtx (Some k) tm e spec w = (Ok (StatusCanaryFailed, None), w3)"
    using late fails
    by (simp add: OTARolloutCtx_resolved [OF assms(1-6)] run endRolloutCtx_def unlessCancelled_def Let_def)
  have only: "toOnly (set ?canary) ?w1 w3"
    using runBatchCtx_toOnly [of ?canary ?w1 "Some k" "rt_resolved tm" "rt_ends tm ''canary''" "rt_delay tm ''canary''" "ro_child e ''canary''" 0
        "ro_id e" ?s] run by simp
  have "rolloutOpened e spec w = (Inr (), ?w1)" using assms(1) by (simp add: resolved_def prod_eq_iff)
  from opened_status [OF this [unfolded rolloutOpened_def]]
  have "rolloutStatus (cl_db w) (ro_id e) = None \<longrightarrow> rolloutStatus (cl_db ?w1) (ro_id e) = Some ''pending''"
    by (simp add: rolloutOpened_def)
  moreover have "cl_outbox ?w1 = cl_outbox w" by (simp add: rolloutOpened_def startRollout_outbox)
  ultimately show ?thesis using toOnly_outbox [OF only] unfolding x fst_conv snd_conv toOnly_status [OF only] by simp
qed

text \<open>
  C22: an abort during the first batch, or before it, is not told from a success when the failure
  budget covers the rest of the cohort: the rollout returns \<^verbatim>\<open>completed\<close> although no robot
  of the remainder has been contacted, and its status in the table stays as it was.
\<close>

theorem abort_can_complete:
  assumes "rest \<noteq> []" and "int (length rest) \<le> FailureBudget spec" and "in_i64 (FailureBudget spec * 4)"
    and "k \<le> now \<or> (\<exists>i < length (take (nat (batchSizeOf spec rest)) rest). k \<le> rt_ends tm ''batch1'' i)"
  shows "fst (runRestCtx (Some k) now tm e spec rest w) = Ok (StatusCompleted, None) \<and>
    (\<exists>ms. cl_outbox (snd (runRestCtx (Some k) now tm e spec rest w)) = cl_outbox w @ ms \<and>
      fst ` set ms \<subseteq> cmdOtaTopic ` set (take (nat (batchSizeOf spec rest)) rest)) \<and>
    rolloutStatus (cl_db (snd (runRestCtx (Some k) now tm e spec rest w))) = rolloutStatus (cl_db w)"
proof -
  let ?c = "Some k" and ?ends = "rt_ends tm ''batch1''"
  define batch remainder where parts: "batch = take (nat (batchSizeOf spec rest)) rest"
    "remainder = drop (nat (batchSizeOf spec rest)) rest"
  have size: "length batch \<le> length rest" "length remainder \<le> length rest" by (simp_all add: parts)
  obtain bres w1 where b: "runBatchCtx ?c now ?ends (rt_delay tm ''batch1'') (ro_child e ''batch1'') 0 (ro_id e) spec batch w = (bres, w1)"
    by fastforce
  define now1 where "now1 = batchEnd ?c now ?ends (length batch)"
  have late: "cancelledAt ?c now1" unfolding now1_def using assms(4) [folded parts] by (intro batchEnd_cancelled) auto
  obtain rres w2 where r: "runBatchCtx ?c now1 (rt_ends tm ''batch2'') (rt_delay tm ''batch2'') (ro_child e ''batch2'') 0 (ro_id e) spec
      remainder w1 = (rres, w2)" by fastforce
  have w2: "w2 = w1"
    using runBatchCtx_state [OF late, of "rt_ends tm ''batch2''" "rt_delay tm ''batch2''" "ro_child e ''batch2''" 0 "ro_id e" spec remainder w1] r
    by simp
  have late2: "cancelledAt ?c (batchEnd ?c now1 (rt_ends tm ''batch2'') n)" for n
    using late by (intro batchEnd_cancelled) simp
  have fb: "failureCount bres \<le> FailureBudget spec" "failureCount rres \<le> i64 (FailureBudget spec * 4)"
    using runBatchCtx_failures [of ?c now ?ends "rt_delay tm ''batch1''" "ro_child e ''batch1''" 0 "ro_id e" spec batch w] b
      runBatchCtx_failures [of ?c now1 "rt_ends tm ''batch2''" "rt_delay tm ''batch2''" "ro_child e ''batch2''" 0 "ro_id e" spec remainder w1] r
      assms(2,3) size by simp_all
  have x: "runRestCtx ?c now tm e spec rest w = (Ok (StatusCompleted, None), w1)"
    using assms(1) slice_batch [of spec rest, folded parts] fb late late2
    by (simp add: runRestCtx_def Let_def b r w2 now1_def [symmetric] endRolloutCtx_def unlessCancelled_def
        del: append.simps)
  have "toOnly (set batch) w w1"
    using runBatchCtx_toOnly [of batch w ?c now ?ends "rt_delay tm ''batch1''" "ro_child e ''batch1''" 0 "ro_id e" spec] b by simp
  from toOnly_outbox [OF this] toOnly_status [OF this] show ?thesis by (simp add: x parts)
qed

section \<open>Witnesses\<close>

text \<open>The good robot of the demo, aborted between its second and its third ack.\<close>

definition demoTimes :: rollout_times where
  "demoTimes = \<lparr>rt_started = 0, rt_recorded = 1, rt_resolved = 2, rt_ends = (\<lambda>name i. 5 * second),
     rt_delay = (\<lambda>name i. 1)\<rparr>"

theorem abort_strands_robot_witness:
  "sr_Phase (fst (OTASingleRobotCtx (Some (2 * second + 1)) (ch_single goodChild) silentInput demoCloud)) = ''rolled_back'' \<and>
   (\<forall>reason. rollbackMessage silentInput reason
     \<notin> set (cl_outbox (snd (OTASingleRobotCtx (Some (2 * second + 1)) (ch_single goodChild) silentInput demoCloud)))) \<and>
   sr_Phase (fst (OTASingleRobot (ch_single goodChild) silentInput demoCloud)) = ''ok''"
proof -
  have 1: "sendAccepted maxAttempts (sg_send (ch_single goodChild))"
    "sg_started (ch_single goodChild) < 2 * second + 1" "sg_sent (ch_single goodChild) < 2 * second + 1"
    "2 * second + 1 < verdictAt (ch_single goodChild) (si_Spec silentInput)" by code_simp+
  have 2: "cl_outbox demoCloud = []" "SingleRolledBack = ''rolled_back''"
    "sr_Phase (fst (OTASingleRobot (ch_single goodChild) silentInput demoCloud)) = ''ok''" by code_simp+
  have 3: "rollbackMessage silentInput reason \<noteq> forwardMessage silentInput" for reason
    by (simp add: rollbackMessage_def forwardMessage_def rollbackCommandBody_def otaCommandBody_def)
  from abort_strands_robot [OF 1, of demoCloud] 2 3 show ?thesis by auto
qed

theorem abort_during_canary_witness:
  "rolloutStatus (cl_db (snd (OTARolloutCtx (Some second) demoTimes goodRollout demoSpec demoCloud))) ''rollout-1''
     = Some ''pending'' \<and>
   fst (OTARollout goodRollout demoSpec demoCloud) = Ok (''completed'', None)"
proof -
  have 1: "[''r1'', ''r2'', ''r3''] \<noteq> []" by simp
  have 2: "rt_started demoTimes < second" "rt_recorded demoTimes < second" "rt_resolved demoTimes < second"
    "0 < length (canaryOf (defaultsApplied demoSpec) [''r1'', ''r2'', ''r3''])"
    "second \<le> rt_ends demoTimes ''canary'' 0" by code_simp+
  have 3: "ro_id goodRollout = ''rollout-1''" "rolloutStatus (cl_db demoCloud) ''rollout-1'' = None"
    "fst (OTARollout goodRollout demoSpec demoCloud) = Ok (''completed'', None)" by code_simp+
  from abort_during_canary [OF good_resolved 1 demo_canary 2] 3 show ?thesis by simp
qed

theorem abort_can_complete_witness:
  "fst (runRestCtx (Some second) 0 demoTimes goodRollout (demoSpec\<lparr>FailureBudget := 2\<rparr>) [''r2'', ''r3''] demoCloud) =
     Ok (''completed'', None) \<and>
   cmdOtaTopic ''r3'' \<notin> fst ` set (cl_outbox (snd (runRestCtx (Some second) 0 demoTimes goodRollout
       (demoSpec\<lparr>FailureBudget := 2\<rparr>) [''r2'', ''r3''] demoCloud)))"
proof -
  let ?s = "demoSpec\<lparr>FailureBudget := 2\<rparr>"
  have 1: "[''r2'', ''r3''] \<noteq> []" "int (length [''r2'', ''r3'']) \<le> FailureBudget ?s" "in_i64 (FailureBudget ?s * 4)"
    by code_simp+
  have batch: "take (nat (batchSizeOf ?s [''r2'', ''r3''])) [''r2'', ''r3''] = [''r2'']" by code_simp
  have 2: "second \<le> 0 \<or> (\<exists>i < length (take (nat (batchSizeOf ?s [''r2'', ''r3''])) [''r2'', ''r3'']).
      second \<le> rt_ends demoTimes ''batch1'' i)"
    unfolding batch by (simp add: demoTimes_def)
  have 3: "cl_outbox demoCloud = []" "StatusCompleted = ''completed''" by code_simp+
  have 4: "cmdOtaTopic ` set [''r2''] = {cmdOtaTopic ''r2''}" "cmdOtaTopic ''r2'' \<noteq> cmdOtaTopic ''r3''" by code_simp+
  from abort_can_complete [OF 1 2, of goodRollout demoCloud] 3 4 show ?thesis unfolding batch by fastforce
qed

end
