(* ===== verification/Interruption.thy ===== *)
theory Interruption
  imports Distributed Abort
begin

text \<open>
  The update of one robot with a context that is cancelled (\<^verbatim>\<open>POST .../abort\<close>), as an event
  system.  The request reaches the update workflow and its rollback child at any two moments; what
  was running then is not waited for, but an attempt of an activity that was under way may still
  happen.  A workflow that the server ends with its parent is one that takes no further step, so
  every run contains it.
\<close>

section \<open>What the workflows do when they are cancelled\<close>

text \<open>The timers are ready at once; signals that are already there are taken first.\<close>

fun drainSignals :: "rolloutSpec \<Rightarrow> stage \<Rightarrow> ackSignal list \<Rightarrow> waitsOutcome" where
  "drainSignals spec st [] =
     WaitFailed (reasonPrefix st) (timeoutError (wanted st) (stageTimeout spec st))"
| "drainSignals spec st (sig # rest) =
     (case react (wanted st) sig of
        Ignored \<Rightarrow> drainSignals spec st rest
      | Broken err \<Rightarrow> WaitFailed (reasonPrefix st) err
      | Passed \<Rightarrow> (case nextStage st of None \<Rightarrow> AllAcked | Some st' \<Rightarrow> drainSignals spec st' rest))"

fun drainAcks :: "ackSignal list \<Rightarrow> rollbackAck" where
  "drainAcks [] = NoAck"
| "drainAcks (sig # rest) =
     (if sig_Phase sig = ''PHASE_ROLLED_BACK'' then AckRolledBack (sig_Detail sig)
      else if sig_Phase sig = ''PHASE_FAILED'' then AckFailed (sig_Detail sig)
      else drainAcks rest)"

text \<open>What may still happen of what was under way: an attempt of an activity, the start of the child.\<close>

datatype lateActivity =
    LateForward
  | LateRollback string
  | LateResult string singleResult
  | LateOutcome string string
  | LateStart string

record 's abortable =
  ab_sys :: "'s system"
  ab_cancelled :: bool
  ab_late :: "lateActivity list"

datatype abortEvent =
    Usual event
  | CancelUpdate
  | CancelRollback
  | LatePublish nat token
  | LateStatement nat db_env
  | LateChild nat

text \<open>The update workflow ends with a result, records nothing, and leaves something under way.\<close>

definition closeUpdate ::
  "singleResult \<Rightarrow> lateActivity list \<Rightarrow> 's abortable \<Rightarrow> 's abortable" where
  "closeUpdate res late a = a\<lparr>ab_sys := (ab_sys a)\<lparr>sy_update := Ended res\<rparr>, ab_cancelled := True,
     ab_late := ab_late a @ late\<rparr>"

fun drainedResult :: "'s deployment \<Rightarrow> waitsOutcome \<Rightarrow> singleResult" where
  "drainedResult su AllAcked = resultOf su SingleOK ''''"
| "drainedResult su (WaitFailed what err) = resultOf su SingleRolledBack (error_text err)"

definition cancelUpdate :: "'s deployment \<Rightarrow> 's abortable \<Rightarrow> 's abortable option" where
  "cancelUpdate su a =
     (if ab_cancelled a then None else
      case sy_update (ab_sys a) of
        Sending n \<Rightarrow> Some (closeUpdate (resultOf su SingleFailed
          (''send command failed: '' @ su_errText su (error_text canceled))) [LateForward] a)
      | Awaiting st \<Rightarrow> Some (closeUpdate (drainedResult su
          (drainSignals (si_Spec (su_input su)) st (sy_updateSignals (ab_sys a)))) [] a)
      | RollingBack st err \<Rightarrow> Some (closeUpdate (resultOf su SingleRolledBack (error_text err))
          (if sy_rollback (ab_sys a) = NotStarted then [LateStart (reasonPrefix st @ error_text err)] else []) a)
      | Recording res \<Rightarrow> Some (closeUpdate res
          [LateResult (if sr_Phase res = SingleOK then rolloutOf su else '''') res] a)
      | Ended res \<Rightarrow> None)"

definition closeRollback ::
  "go_error option \<Rightarrow> lateActivity list \<Rightarrow> 's abortable \<Rightarrow> 's abortable" where
  "closeRollback e late a = a\<lparr>ab_sys := (ab_sys a)\<lparr>sy_rollback := RbEnded e\<rparr>, ab_late := ab_late a @ late\<rparr>"

fun drainedError :: "rollbackAck \<Rightarrow> go_error option" where
  "drainedError NoAck = Some (GoError ''rollback stuck: no ack within 5m'')"
| "drainedError (AckRolledBack detail) = None"
| "drainedError (AckFailed detail) = Some (GoError (''rollback failed: '' @ detail))"

definition cancelRollback :: "'s deployment \<Rightarrow> 's abortable \<Rightarrow> 's abortable option" where
  "cancelRollback su a =
     (if \<not> ab_cancelled a then None else
      case sy_rollback (ab_sys a) of
        RbSending n reason \<Rightarrow> Some (closeRollback (Some (GoError
          (''send rollback failed: '' @ su_errText su (error_text canceled)))) [LateRollback reason] a)
      | RbAwaiting \<Rightarrow> Some (closeRollback (drainedError (drainAcks (sy_rollbackSignals (ab_sys a)))) [] a)
      | RbRecording status detail err \<Rightarrow> Some (closeRollback err [LateOutcome status detail] a)
      | _ \<Rightarrow> None)"

section \<open>Events\<close>

definition overCloud :: "(cloud \<Rightarrow> cloud) \<Rightarrow> 's abortable \<Rightarrow> 's abortable" where
  "overCloud f a = a\<lparr>ab_sys := (ab_sys a)\<lparr>sy_cloud := f (sy_cloud (ab_sys a))\<rparr>\<rparr>"

definition dropLate :: "nat \<Rightarrow> 's abortable \<Rightarrow> 's abortable" where
  "dropLate i a = a\<lparr>ab_late := take i (ab_late a) @ drop (Suc i) (ab_late a)\<rparr>"

definition latePublish :: "'s deployment \<Rightarrow> lateActivity \<Rightarrow> token \<Rightarrow> 's abortable \<Rightarrow> 's abortable option" where
  "latePublish su l tok a =
     (case l of
        LateForward \<Rightarrow> Some (overCloud (\<lambda>w. snd (SendOTACommand (rolloutOf su) (robotOf su) (si_Spec (su_input su)) tok w)) a)
      | LateRollback reason \<Rightarrow> Some (overCloud (\<lambda>w. snd (SendRollbackCommand (rolloutOf su) (robotOf su) reason tok w)) a)
      | _ \<Rightarrow> None)"

definition lateStatement :: "'s deployment \<Rightarrow> lateActivity \<Rightarrow> db_env \<Rightarrow> 's abortable \<Rightarrow> 's abortable option" where
  "lateStatement su l d a =
     (case l of
        LateResult ro res \<Rightarrow> Some (overCloud (\<lambda>w. snd (actRecordRobotResult ro res d w)) a)
      | LateOutcome status detail \<Rightarrow>
          Some (overCloud (\<lambda>w. snd (actRecordRollbackOutcome (rolloutOf su) (robotOf su) status detail d w)) a)
      | _ \<Rightarrow> None)"

definition lateChild :: "lateActivity \<Rightarrow> 's abortable \<Rightarrow> 's abortable option" where
  "lateChild l a =
     (case l of
        LateStart reason \<Rightarrow> Some (a\<lparr>ab_sys := (ab_sys a)\<lparr>sy_rollback := RbSending maxAttempts reason\<rparr>\<rparr>)
      | _ \<Rightarrow> None)"

definition lateRuns :: "nat \<Rightarrow> (lateActivity \<Rightarrow> 's abortable \<Rightarrow> 's abortable option) \<Rightarrow> 's abortable \<Rightarrow> 's abortable option" where
  "lateRuns i f a = (if i < length (ab_late a) then map_option (dropLate i) (f (ab_late a ! i) a) else None)"

fun abortStep :: "'s deployment \<Rightarrow> abortEvent \<Rightarrow> 's abortable \<Rightarrow> 's abortable option" where
  "abortStep su (Usual e) a = map_option (\<lambda>s. a\<lparr>ab_sys := s\<rparr>) (sysStep su e (ab_sys a))"
| "abortStep su CancelUpdate a = cancelUpdate su a"
| "abortStep su CancelRollback a = cancelRollback su a"
| "abortStep su (LatePublish i tok) a = lateRuns i (\<lambda>l. latePublish su l tok) a"
| "abortStep su (LateStatement i d) a = lateRuns i (\<lambda>l. lateStatement su l d) a"
| "abortStep su (LateChild i) a = lateRuns i lateChild a"

fun abortRun :: "'s deployment \<Rightarrow> abortEvent list \<Rightarrow> 's abortable \<Rightarrow> 's abortable option" where
  "abortRun su [] a = Some a"
| "abortRun su (e # es) a = (case abortStep su e a of None \<Rightarrow> None | Some b \<Rightarrow> abortRun su es b)"

definition uncancelled :: "'s system \<Rightarrow> 's abortable" where
  "uncancelled s = \<lparr>ab_sys = s, ab_cancelled = False, ab_late = []\<rparr>"

definition abortReach :: "'s deployment \<Rightarrow> 's abortable \<Rightarrow> bool" where
  "abortReach su a \<longleftrightarrow> (\<exists>x db es. abortRun su es (uncancelled (sysStart x db)) = Some a)"

text \<open>Without a cancellation the runs are those of \<open>Distributed\<close>.\<close>

interpretation ab: embedding "sysStep su" "sysRun su" "abortStep su" "abortRun su" Usual uncancelled
  by unfold_locales (simp_all add: uncancelled_def [abs_def])

section \<open>What holds in every reachable state\<close>

fun isLateStart :: "lateActivity \<Rightarrow> bool" where
  "isLateStart (LateStart reason) = True"
| "isLateStart l = False"

fun isLateRollback :: "lateActivity \<Rightarrow> bool" where
  "isLateRollback (LateRollback reason) = True"
| "isLateRollback l = False"

definition lateForwards :: "'s abortable \<Rightarrow> nat" where
  "lateForwards a = length (filter (\<lambda>l. l = LateForward) (ab_late a))"

text \<open>
  Nothing is late before the cancellation; a late start means that the update is over, its child not
  started and nothing of a rollback sent; a late command counts as one still to be sent.
\<close>

definition lateInv :: "'s deployment \<Rightarrow> 's abortable \<Rightarrow> bool" where
  "lateInv su a \<longleftrightarrow>
     (\<not> ab_cancelled a \<longrightarrow> ab_late a = []) \<and>
     (ab_cancelled a \<longrightarrow> (\<exists>res. sy_update (ab_sys a) = Ended res \<and>
        (sr_Phase res = SingleOK \<longrightarrow> LateForward \<notin> set (ab_late a)))) \<and>
     (\<forall>l \<in> set (ab_late a). isLateStart l \<longrightarrow>
        sy_rollback (ab_sys a) = NotStarted \<and> rollsBack (sy_update (ab_sys a))) \<and>
     length (filter isLateStart (ab_late a)) \<le> 1 \<and>
     (\<forall>l \<in> set (ab_late a). isLateRollback l \<longrightarrow> sy_rollback (ab_sys a) \<noteq> NotStarted)"

definition sendsInv :: "'s deployment \<Rightarrow> 's abortable \<Rightarrow> bool" where
  "sendsInv su a \<longleftrightarrow>
     forwardsSent su (ab_sys a) + sendsLeft (sy_update (ab_sys a)) + lateForwards a \<le> maxAttempts \<and>
     (\<forall>n. sy_update (ab_sys a) = Sending n \<longrightarrow> 1 \<le> n) \<and>
     (\<forall>n reason. sy_rollback (ab_sys a) = RbSending n reason \<longrightarrow> 1 \<le> n)"

definition abortInv :: "'s deployment \<Rightarrow> 's abortable \<Rightarrow> bool" where
  "abortInv su a \<longleftrightarrow> flowInv su (ab_sys a) \<and> sendsInv su a \<and> lateInv su a"

subsection \<open>The parts of the state one at a time\<close>

lemma acked_frame [simp]:
  "acked su (s\<lparr>sy_update := u\<rparr>) = acked su s" "acked su (s\<lparr>sy_rollback := r\<rparr>) = acked su s"
  "acked su (s\<lparr>sy_cloud := w\<rparr>) = acked su s"
  by (rule acked_same, simp)+

lemma flowInv_update:
  "flowInv su s \<Longrightarrow> (\<And>ph. ph \<in> needs u \<Longrightarrow> acked su s ph) \<Longrightarrow> (sy_rollback s \<noteq> NotStarted \<Longrightarrow> rollsBack u) \<Longrightarrow>
     flowInv su (s\<lparr>sy_update := u\<rparr>)"
  by (auto simp: flowInv_def sysInvs)

lemma flowInv_rollback:
  "flowInv su s \<Longrightarrow> rollsBack (sy_update s) \<Longrightarrow> (\<And>ph. ph \<in> rbNeeds r \<Longrightarrow> acked su s ph) \<Longrightarrow> rbClean r \<Longrightarrow>
     r \<noteq> NotStarted \<Longrightarrow> flowInv su (s\<lparr>sy_rollback := r\<rparr>)"
  by (auto simp: flowInv_def sysInvs)

lemma flowInv_cloud:
  "flowInv su s \<Longrightarrow> (\<And>m. m \<in> set (cl_outbox w) \<Longrightarrow> isForwardTo su m \<or> isRollbackTo su m \<and> sy_rollback s \<noteq> NotStarted) \<Longrightarrow>
     flowInv su (s\<lparr>sy_cloud := w\<rparr>)"
  by (auto simp: flowInv_def sysInvs)

lemma flowInv_child: "flowInv su s \<Longrightarrow> sy_rollback s \<noteq> NotStarted \<Longrightarrow> rollsBack (sy_update s)"
  by (simp add: flowInv_def childInv_def)

text \<open>An update that is over stays over, and without a child.\<close>

lemma ended_step:
  "sysStep su e s = Some s' \<Longrightarrow> sy_update s = Ended res \<Longrightarrow>
     sy_update s' = Ended res \<and> (sy_rollback s' = NotStarted \<longleftrightarrow> sy_rollback s = NotStarted)"
  by (cases "(su, e, s)" rule: sysStep.cases) (auto simp: step_defs split: step_splits sum.splits)

lemma quiet_step:
  "sysStep su e s = Some s' \<Longrightarrow> sy_update s = Ended res \<Longrightarrow> sy_rollback s = NotStarted \<Longrightarrow>
     sy_update s' = Ended res \<and> sy_rollback s' = NotStarted \<and> sy_cloud s' = sy_cloud s"
  by (cases "(su, e, s)" rule: sysStep.cases) (auto simp: step_defs split: step_splits sum.splits)

lemma drainSignals_acked:
  assumes "drainSignals spec st sigs = AllAcked" and "\<And>sig. sig \<in> set sigs \<Longrightarrow> acked su s (sig_Phase sig)"
    and "\<And>ph. ph \<in> needs (Awaiting st) \<Longrightarrow> acked su s ph"
  shows "ph \<in> {''PHASE_PULLED'', ''PHASE_SWAPPED'', ''PHASE_HEALTHY''} \<Longrightarrow> acked su s ph"
  using assms
proof (induction spec st sigs rule: drainSignals.induct)
  case (2 spec st sig rest)
  show ?case
  proof (cases "react (wanted st) sig")
    case Passed
    then have now: "acked su s (wanted st)" using "2.prems"(3) [of sig] react_Passed [of "wanted st" sig] by simp
    show ?thesis
    proof (cases "nextStage st")
      case None
      then have "st = AwaitHealthy" by (cases st) simp_all
      then show ?thesis using now "2.prems"(1,4) by auto
    next
      case (Some st')
      have "needs (Awaiting st') \<subseteq> insert (wanted st) (needs (Awaiting st))" using Some by (cases st) auto
      then have "\<And>ph. ph \<in> needs (Awaiting st') \<Longrightarrow> acked su s ph" using now "2.prems"(4) by blast
      then show ?thesis using "2.IH"(2) [OF Passed Some] "2.prems" Passed Some by simp
    qed
  qed (use 2 in auto)
qed simp

lemma drainAcks_acked: "drainAcks sigs = AckRolledBack d \<Longrightarrow> \<exists>sig \<in> set sigs. sig_Phase sig = ''PHASE_ROLLED_BACK''"
  by (induction sigs) (auto split: if_splits)

subsection \<open>The cancellations\<close>

lemma closeUpdate_simps [simp]:
  "ab_sys (closeUpdate res late a) = (ab_sys a)\<lparr>sy_update := Ended res\<rparr>"
  "ab_late (closeUpdate res late a) = ab_late a @ late" "ab_cancelled (closeUpdate res late a)"
  by (simp_all add: closeUpdate_def)

lemma closeRollback_simps [simp]:
  "ab_sys (closeRollback e late a) = (ab_sys a)\<lparr>sy_rollback := RbEnded e\<rparr>"
  "ab_late (closeRollback e late a) = ab_late a @ late" "ab_cancelled (closeRollback e late a) = ab_cancelled a"
  by (simp_all add: closeRollback_def)

lemma cancelUpdate_inv:
  assumes "abortInv su a" and "cancelUpdate su a = Some b"
  shows "abortInv su b"
proof -
  let ?s = "ab_sys a"
  from assms(1) have inv: "flowInv su ?s" "sendsInv su a" "lateInv su a" by (simp_all add: abortInv_def)
  have fresh: "\<not> ab_cancelled a" using assms(2) by (auto simp: cancelUpdate_def split: if_splits)
  then have late: "ab_late a = []" using inv(3) by (simp add: lateInv_def)
  have ok: "acked su ?s ph" if "ph \<in> needs (sy_update ?s)" for ph
    using that inv(1) by (simp add: flowInv_def verdictInv_def)
  have queue: "acked su ?s (sig_Phase sig)" if "sig \<in> set (sy_updateSignals ?s)" for sig
    using that inv(1) by (simp add: flowInv_def signalsInv_def)
  show ?thesis
  proof (cases "sy_update ?s")
    case (Sending n)
    then have n: "forwardsSent su ?s + n \<le> maxAttempts" "1 \<le> n"
      using inv(2) late by (auto simp: sendsInv_def lateForwards_def)
    have "sy_rollback ?s = NotStarted" using flowInv_child [OF inv(1)] Sending by (cases "sy_rollback ?s") auto
    then have "flowInv su (?s\<lparr>sy_update := Ended (resultOf su SingleFailed d)\<rparr>)" for d
      by (intro flowInv_update [OF inv(1)]) (simp_all add: single_defs)
    then show ?thesis using assms(2) fresh Sending n inv(2) late
      by (auto simp: cancelUpdate_def abortInv_def sendsInv_def lateInv_def lateForwards_def forwardsSent_def single_defs)
  next
    case (Awaiting st)
    let ?o = "drainSignals (si_Spec (su_input su)) st (sy_updateSignals ?s)"
    have "sy_rollback ?s = NotStarted" using flowInv_child [OF inv(1)] Awaiting by (cases "sy_rollback ?s") auto
    moreover have "acked su ?s ph" if "ph \<in> needs (Ended (drainedResult su ?o))" for ph
      using that drainSignals_acked [of "si_Spec (su_input su)" st "sy_updateSignals ?s" su ?s ph] queue ok Awaiting
      by (cases ?o) (auto simp: single_defs)
    ultimately have "flowInv su (?s\<lparr>sy_update := Ended (drainedResult su ?o)\<rparr>)"
      by (intro flowInv_update [OF inv(1)]) simp_all
    then show ?thesis using assms(2) fresh Awaiting inv(2) late
      by (auto simp: cancelUpdate_def abortInv_def sendsInv_def lateInv_def lateForwards_def forwardsSent_def)
  next
    case (RollingBack st err)
    have "flowInv su (?s\<lparr>sy_update := Ended (resultOf su SingleRolledBack d)\<rparr>)" for d
      by (rule flowInv_update [OF inv(1)]) (simp_all add: single_defs)
    then show ?thesis using assms(2) fresh RollingBack inv(2) late
      by (auto simp: cancelUpdate_def abortInv_def sendsInv_def lateInv_def lateForwards_def forwardsSent_def single_defs)
  next
    case (Recording res)
    have "flowInv su (?s\<lparr>sy_update := Ended res\<rparr>)"
      by (rule flowInv_update [OF inv(1)]) (use Recording ok flowInv_child [OF inv(1)] in \<open>auto split: if_splits\<close>)
    then show ?thesis using assms(2) fresh Recording inv(2) late
      by (auto simp: cancelUpdate_def abortInv_def sendsInv_def lateInv_def lateForwards_def forwardsSent_def)
  next
    case (Ended res)
    then show ?thesis using assms(2) fresh by (simp add: cancelUpdate_def)
  qed
qed

lemma cancelRollback_inv:
  assumes "abortInv su a" and "cancelRollback su a = Some b"
  shows "abortInv su b"
proof -
  let ?s = "ab_sys a"
  from assms(1) have inv: "flowInv su ?s" "sendsInv su a" "lateInv su a" by (simp_all add: abortInv_def)
  have started: "sy_rollback ?s \<noteq> NotStarted" using assms(2) by (auto simp: cancelRollback_def split: if_splits)
  then have undone: "rollsBack (sy_update ?s)" by (rule flowInv_child [OF inv(1)])
  have rb: "acked su ?s ph" if "ph \<in> rbNeeds (sy_rollback ?s)" for ph
    using that inv(1) by (simp add: flowInv_def verdictInv_def)
  have queue: "sig_Phase sig = ''PHASE_ROLLED_BACK'' \<and> acked su ?s ''PHASE_ROLLED_BACK''"
    if "sig \<in> set (sy_rollbackSignals ?s)" for sig
    using that inv(1) by (auto simp: flowInv_def signalsInv_def)
  have shut: "abortInv su (closeRollback e late a)"
    if "\<And>ph. ph \<in> rbNeeds (RbEnded e) \<Longrightarrow> acked su ?s ph" "list_all (\<lambda>l. \<not> isLateStart l \<and> l \<noteq> LateForward) late"
      "ab_cancelled a" for e late
  proof -
    have "flowInv su (?s\<lparr>sy_rollback := RbEnded e\<rparr>)" using that(1) by (intro flowInv_rollback [OF inv(1) undone]) simp_all
    then show ?thesis using inv(2,3) started that(2,3)
      by (auto simp: abortInv_def sendsInv_def lateInv_def lateForwards_def forwardsSent_def list_all_iff filter_empty_conv)
  qed
  show ?thesis
  proof (cases "sy_rollback ?s")
    case (RbSending n reason)
    then show ?thesis using assms(2) by (auto simp: cancelRollback_def intro!: shut split: if_splits)
  next
    case RbAwaiting
    let ?d = "drainAcks (sy_rollbackSignals ?s)"
    have "acked su ?s ph" if "ph \<in> rbNeeds (RbEnded (drainedError ?d))" for ph
      using that drainAcks_acked [of "sy_rollbackSignals ?s"] queue by (cases ?d) auto
    then show ?thesis using assms(2) shut [of "drainedError ?d" "[]"] RbAwaiting by (auto simp: cancelRollback_def split: if_splits)
  next
    case (RbRecording status detail err)
    have "acked su ?s ph" if "ph \<in> rbNeeds (RbEnded err)" for ph using that rb RbRecording by (cases err) auto
    then show ?thesis using assms(2) shut [of err "[LateOutcome status detail]"] RbRecording
      by (auto simp: cancelRollback_def split: if_splits)
  qed (use assms(2) in \<open>simp_all add: cancelRollback_def split: if_splits\<close>)
qed

subsection \<open>What happens late\<close>

lemma overCloud_simps [simp]:
  "ab_sys (overCloud f a) = (ab_sys a)\<lparr>sy_cloud := f (sy_cloud (ab_sys a))\<rparr>"
  "ab_late (overCloud f a) = ab_late a" "ab_cancelled (overCloud f a) = ab_cancelled a"
  by (simp_all add: overCloud_def)

lemma dropLate_simps [simp]:
  "ab_sys (dropLate i a) = ab_sys a" "ab_cancelled (dropLate i a) = ab_cancelled a"
  "ab_late (dropLate i a) = take i (ab_late a) @ drop (Suc i) (ab_late a)"
  by (simp_all add: dropLate_def)

lemma dropLate_filter:
  "i < length ls \<Longrightarrow> length (filter P ls) =
     length (filter P (take i ls @ drop (Suc i) ls)) + (if P (ls ! i) then 1 else 0)"
  by (subst id_take_nth_drop [of i ls], simp) (simp del: append_take_drop_id)

lemma dropLate_set: "set (take i ls @ drop (Suc i) ls) \<subseteq> set ls"
  using set_take_subset set_drop_subset by fastforce

text \<open>A late event takes one entry out and changes the broker, a table or the child accordingly.\<close>

lemma late_inv:
  assumes "abortInv su a" and "i < length (ab_late a)" and "ab_late a ! i = l"
    and "flowInv su s" and "sy_update s = sy_update (ab_sys a)"
    and "forwardsSent su s \<le> forwardsSent su (ab_sys a) + (if l = LateForward then 1 else 0)"
    and "\<forall>n reason. sy_rollback s = RbSending n reason \<longrightarrow> 1 \<le> n"
    and "sy_rollback (ab_sys a) \<noteq> NotStarted \<Longrightarrow> sy_rollback s \<noteq> NotStarted"
    and "sy_rollback s = NotStarted \<or> sy_rollback (ab_sys a) \<noteq> NotStarted \<or> isLateStart l"
  shows "abortInv su (dropLate i (a\<lparr>ab_sys := s\<rparr>))"
proof -
  let ?ls = "ab_late a" and ?ms = "take i (ab_late a) @ drop (Suc i) (ab_late a)"
  from assms(1) have inv: "sendsInv su a" "lateInv su a" by (simp_all add: abortInv_def)
  have sub: "set ?ms \<subseteq> set ?ls" by (rule dropLate_set)
  have cancelled: "ab_cancelled a" using inv(2) assms(2) by (auto simp: lateInv_def)
  have "sendsInv su (dropLate i (a\<lparr>ab_sys := s\<rparr>))"
    using inv(1) assms(5-7) dropLate_filter [OF assms(2), of "\<lambda>l. l = LateForward"] assms(3)
    by (auto simp: sendsInv_def lateForwards_def split: if_splits)
  moreover have "lateInv su (dropLate i (a\<lparr>ab_sys := s\<rparr>))"
  proof -
    have one: "length (filter isLateStart ?ms) + (if isLateStart l then 1 else 0) \<le> 1"
      using inv(2) dropLate_filter [OF assms(2), of isLateStart] assms(3) by (simp add: lateInv_def)
    have start: "sy_rollback s = NotStarted" if "m \<in> set ?ms" "isLateStart m" for m
    proof -
      have "filter isLateStart ?ms \<noteq> []" using that by (auto simp: filter_empty_conv)
      then have "\<not> isLateStart l" using one by (cases "filter isLateStart ?ms") auto
      moreover have "sy_rollback (ab_sys a) = NotStarted" using inv(2) that sub unfolding lateInv_def by blast
      ultimately show ?thesis using assms(9) by blast
    qed
    have undone: "rollsBack (sy_update s)" if "m \<in> set ?ms" "isLateStart m" for m
      using inv(2) that sub unfolding lateInv_def assms(5) by blast
    have roll: "sy_rollback s \<noteq> NotStarted" if "m \<in> set ?ms" "isLateRollback m" for m
      using inv(2) that sub assms(8) unfolding lateInv_def by blast
    obtain res where res: "sy_update s = Ended res" "sr_Phase res = SingleOK \<longrightarrow> LateForward \<notin> set ?ls"
      using inv(2) cancelled unfolding lateInv_def assms(5) by blast
    have few: "length (filter isLateStart ?ms) \<le> 1" using one by simp
    have fields: "ab_sys (a\<lparr>ab_sys := s\<rparr>) = s" "ab_late (a\<lparr>ab_sys := s\<rparr>) = ?ls"
      "ab_cancelled (a\<lparr>ab_sys := s\<rparr>) = ab_cancelled a" by simp_all
    show ?thesis unfolding lateInv_def dropLate_simps fields
      using start undone roll res few sub cancelled by blast
  qed
  ultimately show ?thesis using assms(4) by (simp add: abortInv_def)
qed

lemma statement_outbox:
  "cl_outbox (snd (actRecordRobotResult ro res d w)) = cl_outbox w"
  "cl_outbox (snd (actRecordRollbackOutcome ro rb status detail d w)) = cl_outbox w"
  by (simp_all add: actRecordRobotResult_def actRecordRollbackOutcome_def dbActivity_outbox)

lemma publish_outbox:
  "cl_outbox (snd (SendOTACommand (rolloutOf su) (robotOf su) (si_Spec (su_input su)) tok w)) =
     cl_outbox w @ [forwardMessage (su_input su)]"
  "cl_outbox (snd (SendRollbackCommand (rolloutOf su) (robotOf su) reason tok w)) =
     cl_outbox w @ [rollbackMessage (su_input su) reason]"
  by (simp_all add: SendOTACommand_outbox [OF prod.collapse [symmetric]]
      SendRollbackCommand_outbox [OF prod.collapse [symmetric], where spec = "si_Spec (su_input su)"])

lemma late_cloud:
  assumes "abortInv su a" and "i < length (ab_late a)" and "ab_late a ! i = l"
    and "cl_outbox (f (sy_cloud (ab_sys a))) = cl_outbox (sy_cloud (ab_sys a)) @ ms"
    and "\<And>m. m \<in> set ms \<Longrightarrow> l = LateForward \<and> m = forwardMessage (su_input su) \<or> isLateRollback l \<and> isRollbackTo su m"
    and "length ms \<le> 1"
  shows "abortInv su (dropLate i (overCloud f a))"
proof -
  let ?s = "ab_sys a" and ?w = "f (sy_cloud (ab_sys a))"
  from assms(1) have inv: "flowInv su ?s" "sendsInv su a" "lateInv su a" by (simp_all add: abortInv_def)
  have "l \<in> set (ab_late a)" using assms(2,3) nth_mem by blast
  then have started: "sy_rollback ?s \<noteq> NotStarted" if "isLateRollback l" using inv(3) that unfolding lateInv_def by blast
  have old: "isForwardTo su m \<or> isRollbackTo su m \<and> sy_rollback ?s \<noteq> NotStarted"
    if "m \<in> set (cl_outbox (sy_cloud ?s))" for m
    using inv(1) that by (auto simp: flowInv_def outboxInv_def)
  have flow: "flowInv su (?s\<lparr>sy_cloud := ?w\<rparr>)"
  proof (rule flowInv_cloud [OF inv(1)])
    fix m
    assume "m \<in> set (cl_outbox ?w)"
    then consider "m \<in> set (cl_outbox (sy_cloud ?s))" | "m \<in> set ms" unfolding assms(4) by auto
    then show "isForwardTo su m \<or> isRollbackTo su m \<and> sy_rollback ?s \<noteq> NotStarted"
    proof cases
      case 2
      from assms(5) [OF this] started show ?thesis unfolding isForwardTo_def by blast
    qed (rule old)
  qed
  have "\<not> isForwardTo su m" if "m \<in> set ms" "l \<noteq> LateForward" for m
    using assms(5) [OF that(1)] that(2) by (auto simp: isForwardTo_def isRollbackTo_def)
  then have "filter (isForwardTo su) ms = []" if "l \<noteq> LateForward" using that by (simp add: filter_empty_conv)
  then have "length (filter (isForwardTo su) ms) \<le> (if l = LateForward then 1 else 0)"
    using assms(6) by (cases "l = LateForward") (auto intro: order_trans [OF length_filter_le])
  then have sent: "forwardsSent su (?s\<lparr>sy_cloud := ?w\<rparr>) \<le> forwardsSent su ?s + (if l = LateForward then 1 else 0)"
    by (simp add: forwardsSent_def assms(4))
  have some: "\<forall>n reason. sy_rollback ?s = RbSending n reason \<longrightarrow> 1 \<le> n" using inv(2) unfolding sendsInv_def by blast
  show ?thesis
    unfolding overCloud_def
  proof (rule late_inv [OF assms(1-3) flow _ sent])
    show "\<forall>n reason. sy_rollback (?s\<lparr>sy_cloud := ?w\<rparr>) = RbSending n reason \<longrightarrow> 1 \<le> n" using some by simp
    show "sy_update (?s\<lparr>sy_cloud := ?w\<rparr>) = sy_update ?s" by simp
    show "sy_rollback (?s\<lparr>sy_cloud := ?w\<rparr>) \<noteq> NotStarted" if "sy_rollback ?s \<noteq> NotStarted" using that by simp
    show "sy_rollback (?s\<lparr>sy_cloud := ?w\<rparr>) = NotStarted \<or> sy_rollback ?s \<noteq> NotStarted \<or> isLateStart l" by simp
  qed
qed

lemma abortStep_inv:
  assumes "siteOk su" and "abortInv su a" and "abortStep su e a = Some b"
  shows "abortInv su b"
proof (cases e)
  case (Usual ev)
  then obtain s where s: "sysStep su ev (ab_sys a) = Some s" "b = a\<lparr>ab_sys := s\<rparr>" using assms(3) by auto
  from assms(2) have inv: "flowInv su (ab_sys a)" "sendsInv su a" "lateInv su a" by (simp_all add: abortInv_def)
  have b: "ab_sys b = s" "lateForwards b = lateForwards a" by (simp_all add: s(2) lateForwards_def)
  from inv(2) have "\<forall>n. sy_update (ab_sys a) = Sending n \<longrightarrow> 1 \<le> n"
    "\<forall>n reason. sy_rollback (ab_sys a) = RbSending n reason \<longrightarrow> 1 \<le> n" unfolding sendsInv_def by blast+
  from sends_step [OF s(1) this] inv(2) have "sendsInv su b"
    unfolding sendsInv_def b by (elim conjE) (intro conjI; (linarith | assumption))
  moreover have "lateInv su b"
  proof (cases "ab_cancelled a")
    case True
    then obtain res where res: "sy_update (ab_sys a) = Ended res" using inv(3) unfolding lateInv_def by blast
    from ended_step [OF s(1) this] inv(3) res show ?thesis by (simp add: lateInv_def s(2))
  qed (use inv(3) in \<open>simp add: lateInv_def s(2)\<close>)
  ultimately show ?thesis using flowInv_step [OF assms(1) inv(1) s(1)] by (simp add: abortInv_def s(2))
next
  case CancelUpdate
  then show ?thesis using cancelUpdate_inv assms(2,3) by simp
next
  case CancelRollback
  then show ?thesis using cancelRollback_inv assms(2,3) by simp
next
  case (LatePublish i tok)
  then show ?thesis using assms(3)
    by (auto simp: lateRuns_def latePublish_def publish_outbox isRollbackTo_def
        intro!: late_cloud [OF assms(2)] split: if_splits lateActivity.splits)
next
  case (LateStatement i d)
  then show ?thesis using assms(3)
    by (auto simp: lateRuns_def lateStatement_def statement_outbox
        intro!: late_cloud [OF assms(2), where ms = "[]"] split: if_splits lateActivity.splits)
next
  case (LateChild i)
  then obtain reason where l: "i < length (ab_late a)" "ab_late a ! i = LateStart reason"
    and b: "b = dropLate i (a\<lparr>ab_sys := (ab_sys a)\<lparr>sy_rollback := RbSending maxAttempts reason\<rparr>\<rparr>)"
    using assms(3) by (auto simp: lateRuns_def lateChild_def split: if_splits lateActivity.splits)
  from assms(2) have inv: "flowInv su (ab_sys a)" "lateInv su a" by (simp_all add: abortInv_def)
  have "LateStart reason \<in> set (ab_late a)" using l nth_mem by metis
  then have now: "sy_rollback (ab_sys a) = NotStarted" "rollsBack (sy_update (ab_sys a))"
    using inv(2) unfolding lateInv_def by (metis isLateStart.simps(1))+
  have flow: "flowInv su ((ab_sys a)\<lparr>sy_rollback := RbSending maxAttempts reason\<rparr>)"
    by (rule flowInv_rollback [OF inv(1) now(2)]) simp_all
  show ?thesis unfolding b
    by (rule late_inv [OF assms(2) l flow]) (simp_all add: forwardsSent_def maxAttempts_def)
qed

lemma abortInv_reach:
  assumes "siteOk su" and "abortReach su a"
  shows "abortInv su a"
proof -
  obtain x db es where run: "abortRun su es (uncancelled (sysStart x db)) = Some a"
    using assms(2) by (auto simp: abortReach_def)
  have "abortInv su (uncancelled (sysStart x db))"
    using flowInv_start [of su x db]
    by (simp add: abortInv_def sendsInv_def lateInv_def lateForwards_def uncancelled_def sysStart_def
        forwardsSent_def maxAttempts_def)
  then show ?thesis using ab.outer.run_invariant [OF run] abortStep_inv [OF assms(1)] by blast
qed

section \<open>Properties\<close>

text \<open>
  C3: in every run of the distributed system, with messages late, lost, doubled and reordered,
  timers that fire at any moment and an abort that reaches the workflows whenever, an update that
  ends as \<^verbatim>\<open>ok\<close> has had PULLED, SWAPPED and HEALTHY acks published by that robot for that
  rollout, and its rollback child was never started: no more than five forward commands have been sent
  and nothing else.
\<close>

theorem ok_verdict_sound:
  assumes "siteOk su" and "abortReach su a" and "sy_update (ab_sys a) = Ended res" and "sr_Phase res = SingleOK"
  shows "acked su (ab_sys a) ''PHASE_PULLED'' \<and> acked su (ab_sys a) ''PHASE_SWAPPED'' \<and>
    acked su (ab_sys a) ''PHASE_HEALTHY'' \<and> sy_rollback (ab_sys a) = NotStarted \<and>
    set (cl_outbox (sy_cloud (ab_sys a))) \<subseteq> {forwardMessage (su_input su)} \<and>
    length (cl_outbox (sy_cloud (ab_sys a))) \<le> 5"
proof -
  let ?s = "ab_sys a"
  have inv: "verdictInv su ?s" "outboxInv su ?s" "childInv ?s" "sendsInv su a"
    using abortInv_reach [OF assms(1,2)] by (simp_all add: abortInv_def flowInv_def)
  have no: "sy_rollback ?s = NotStarted" using inv(3) assms(3,4) by (auto simp: childInv_def single_defs)
  then have only: "\<forall>m \<in> set (cl_outbox (sy_cloud ?s)). isForwardTo su m" using inv(2) by (auto simp: outboxInv_def)
  then have "filter (isForwardTo su) (cl_outbox (sy_cloud ?s)) = cl_outbox (sy_cloud ?s)" by simp
  then have "length (cl_outbox (sy_cloud ?s)) \<le> 5"
    using inv(4) by (simp add: sendsInv_def forwardsSent_def maxAttempts_def)
  then show ?thesis using inv(1) no only assms(3,4) by (auto simp: verdictInv_def isForwardTo_def)
qed

text \<open>
  C14: the bridge's routing separates the two workflows of a robot in every run, an abort or not: the
  update workflow is never signalled ROLLED_BACK and the rollback child nothing else, so the branch
  for an independent rollback in \<^verbatim>\<open>waitForPhase\<close> and the one for a failure in
  \<^verbatim>\<open>OTARollback\<close> are dead, and a rollback is recorded \<^verbatim>\<open>ok\<close> or \<^verbatim>\<open>stuck\<close>, never
  \<^verbatim>\<open>failed\<close>.
\<close>

theorem routing_separates_workflows:
  assumes "siteOk su" and "abortReach su a"
  shows "''PHASE_ROLLED_BACK'' \<notin> sig_Phase ` set (sy_updateSignals (ab_sys a)) \<and>
    sig_Phase ` set (sy_rollbackSignals (ab_sys a)) \<subseteq> {''PHASE_ROLLED_BACK''} \<and>
    (\<forall>detail err. sy_rollback (ab_sys a) \<noteq> RbRecording ''failed'' detail err)"
proof -
  have inv: "signalsInv su (ab_sys a)" "rbClean (sy_rollback (ab_sys a))"
    using abortInv_reach [OF assms] by (simp_all add: abortInv_def flowInv_def)
  have "\<forall>detail err. sy_rollback (ab_sys a) \<noteq> RbRecording ''failed'' detail err" using inv(2) by auto
  then show ?thesis using inv(1) by (auto simp: signalsInv_def)
qed

text \<open>
  C21: an abort that finds the update waiting for the robot, with no verdict among the signals that
  are there, leaves the robot in the middle of its update for good: the workflow ends as
  \<^verbatim>\<open>rolled_back\<close>, and whatever happens afterwards, neither the messages sent nor the tables
  change: the robot has been sent the forward command only, and no result is recorded.
\<close>

theorem abort_strands_update:
  assumes "siteOk su" and "abortReach su a" and "sy_update (ab_sys a) = Awaiting st"
    and "abortStep su CancelUpdate a = Some b" and "sy_update (ab_sys b) = Ended res" and "sr_Phase res \<noteq> SingleOK"
    and "abortRun su es b = Some c"
  shows "sr_Phase res = SingleRolledBack \<and> sy_update (ab_sys c) = Ended res \<and>
    sy_rollback (ab_sys c) = NotStarted \<and> sy_cloud (ab_sys c) = sy_cloud (ab_sys a) \<and>
    set (cl_outbox (sy_cloud (ab_sys c))) \<subseteq> {forwardMessage (su_input su)}"
proof -
  have inv: "childInv (ab_sys a)" "outboxInv su (ab_sys a)" "lateInv su a"
    using abortInv_reach [OF assms(1,2)] by (simp_all add: abortInv_def flowInv_def)
  let ?o = "drainSignals (si_Spec (su_input su)) st (sy_updateSignals (ab_sys a))"
  have fresh: "\<not> ab_cancelled a" and b: "b = closeUpdate (drainedResult su ?o) [] a"
    using assms(3,4) by (auto simp: cancelUpdate_def split: if_splits)
  have no: "sy_rollback (ab_sys a) = NotStarted" using inv(1) assms(3) by (auto simp: childInv_def)
  define quiet where "quiet t \<longleftrightarrow> sy_update (ab_sys t) = Ended res \<and> sy_rollback (ab_sys t) = NotStarted \<and>
      sy_cloud (ab_sys t) = sy_cloud (ab_sys a) \<and> ab_cancelled t \<and> ab_late t = []" for t :: "'a abortable"
  have "quiet b" using assms(5) fresh inv(3) no by (auto simp: quiet_def b lateInv_def)
  moreover have "quiet t'" if "quiet t" "abortStep su e t = Some t'" for t e t'
    using that
    by (cases "(su, e, t)" rule: abortStep.cases)
      (auto simp: quiet_def cancelUpdate_def cancelRollback_def lateRuns_def dest: quiet_step)
  ultimately have "quiet c" using ab.outer.run_invariant [OF assms(7)] by blast
  moreover have "set (cl_outbox (sy_cloud (ab_sys a))) \<subseteq> {forwardMessage (su_input su)}"
    using inv(2) no by (auto simp: outboxInv_def isForwardTo_def)
  moreover have "sr_Phase res = SingleRolledBack" using assms(5,6) by (cases ?o) (auto simp: b)
  ultimately show ?thesis by (simp add: quiet_def)
qed

section \<open>The two models of a cancellation\<close>

text \<open>The signals that have arrived by a time, in their order.\<close>

definition arrivedBy :: "time \<Rightarrow> signals \<Rightarrow> ackSignal list" where
  "arrivedBy k sigs = map snd (takeWhile (\<lambda>(arr, sig). arr \<le> k) sigs)"

definition nextDrain :: "rolloutSpec \<Rightarrow> stage \<Rightarrow> ackSignal list \<Rightarrow> waitsOutcome" where
  "nextDrain spec st sigs = (case nextStage st of None \<Rightarrow> AllAcked | Some st' \<Rightarrow> drainSignals spec st' sigs)"

lemma arrivedBy_simps [simp]:
  "arrivedBy k [] = []" "arrivedBy k ((arr, sig) # sigs) = (if arr \<le> k then sig # arrivedBy k sigs else [])"
  by (simp_all add: arrivedBy_def)

lemma drain_waitLoop:
  "waitLoop want timeout d now sigs = (r, n, rest) \<Longrightarrow> want = wanted st \<Longrightarrow> timeout = stageTimeout spec st \<Longrightarrow>
     now \<le> k \<Longrightarrow> now \<le> d \<Longrightarrow>
   if n \<le> k
   then (r = None \<longrightarrow> drainSignals spec st (arrivedBy k sigs) = nextDrain spec st (arrivedBy k rest)) \<and>
     (\<forall>err. r = Some err \<and> n = k \<longrightarrow> drainSignals spec st (arrivedBy k sigs) = WaitFailed (reasonPrefix st) err)
   else drainSignals spec st (arrivedBy k sigs) =
     WaitFailed (reasonPrefix st) (timeoutError (wanted st) (stageTimeout spec st))"
proof (induction want timeout d now sigs rule: waitLoop.induct)
  case (1 want timeout d now)
  then show ?case by (auto simp del: timeoutError_def)
next
  case (2 want timeout d now arr sig sigs)
  show ?case
  proof (cases "d < arr \<or> k < arr")
    case True
    have "n \<le> k \<Longrightarrow> d < arr"
      using "2.prems"(1,4,5) True waitLoop_time [of want timeout d "max now arr" sigs r n rest]
      by (auto split: if_splits)
    moreover have "d < arr \<Longrightarrow> r = Some (timeoutError want timeout) \<and> n = d" using "2.prems"(1) by simp
    ultimately show ?thesis using True "2.prems"(2,3) by (auto simp del: timeoutError_def)
  next
    case False
    then show ?thesis using 2
      by (auto simp: react_def nextDrain_def split: if_splits)
  qed
qed

lemma stage_passed:
  assumes "waitForPhaseCtx None (wanted st) (stageTimeout spec st) now sigs = (None, n, rest)" and "now \<le> k" and "n \<le> k"
  shows "waitForPhaseCtx (Some k) (wanted st) (stageTimeout spec st) now sigs = (None, n, rest)"
    and "drainSignals spec st (arrivedBy k sigs) = nextDrain spec st (arrivedBy k rest)"
  using waitForPhaseCtx_cancelled(2) [OF assms(2,1)] assms drain_waitLoop [OF _ HOL.refl HOL.refl assms(2)]
  by (auto simp: waitForPhaseCtx_def)

lemma stage_stopped:
  assumes "waitForPhaseCtx None (wanted st) (stageTimeout spec st) now sigs = (r, n, rest)" and "now \<le> k"
    and "k < n \<or> n = k \<and> r \<noteq> None"
  shows "\<exists>err n' rest'. waitForPhaseCtx (Some k) (wanted st) (stageTimeout spec st) now sigs = (Some err, n', rest') \<and>
    drainSignals spec st (arrivedBy k sigs) = WaitFailed (reasonPrefix st) err"
proof -
  have run: "waitLoop (wanted st) (stageTimeout spec st) (now + max 0 (stageTimeout spec st)) now sigs = (r, n, rest)"
    using assms(1) by (simp add: waitForPhaseCtx_def)
  have "now \<le> now + max 0 (stageTimeout spec st)" by simp
  from drain_waitLoop [OF run HOL.refl HOL.refl assms(2) this] waitForPhaseCtx_cancelled(2) [OF assms(2,1)] assms(3)
  show ?thesis by (cases r) (auto simp del: timeoutError_def)
qed

text \<open>Up to the verdict, the signals that are there decide as the waits of a cancelled context do.\<close>

lemma drain_waits:
  assumes "sg_sent e \<le> k" and "k \<le> verdictAt e spec"
  shows "fst (waitsCtx (Some k) e spec) = drainSignals spec AwaitPulled (arrivedBy k (sg_signals e))"
proof -
  obtain r1 n1 s1 where 1: "waitForPhaseCtx None (wanted AwaitPulled) (stageTimeout spec AwaitPulled)
      (sg_sent e) (sg_signals e) = (r1, n1, s1)" by (metis prod_cases3)
  obtain r2 n2 s2 where 2: "waitForPhaseCtx None (wanted AwaitSwapped) (stageTimeout spec AwaitSwapped) n1 s1 = (r2, n2, s2)"
    by (metis prod_cases3)
  obtain r3 n3 s3 where 3: "waitForPhaseCtx None (wanted AwaitHealthy) (stageTimeout spec AwaitHealthy) n2 s2 = (r3, n3, s3)"
    by (metis prod_cases3)
  have late: "k \<le> snd (waitsCtx None e spec)" using assms(2) by (simp add: verdictAt_def)
  note runs = 1 [simplified] 2 [simplified] 3 [simplified]
  show ?thesis
  proof (cases "r1 = None \<and> n1 \<le> k")
    case False
    then have "k < n1 \<or> n1 = k \<and> r1 \<noteq> None" using late runs by (cases r1) (auto simp: waitsCtx_def)
    from stage_stopped [OF 1 assms(1) this] show ?thesis by (auto simp: waitsCtx_def)
  next
    case True
    then have n1: "r1 = None" "n1 \<le> k" by simp_all
    note p1 = stage_passed [OF 1 [unfolded n1(1)] assms(1) n1(2)]
    show ?thesis
    proof (cases "r2 = None \<and> n2 \<le> k")
      case False
      then have "k < n2 \<or> n2 = k \<and> r2 \<noteq> None" using late runs n1 by (cases r2) (auto simp: waitsCtx_def)
      from stage_stopped [OF 2 n1(2) this] p1 show ?thesis by (auto simp: waitsCtx_def nextDrain_def)
    next
      case True
      then have n2: "r2 = None" "n2 \<le> k" by simp_all
      note p2 = stage_passed [OF 2 [unfolded n2(1)] n1(2) n2(2)]
      have n3: "k \<le> n3" using late runs n1 n2 by (cases r3) (auto simp: waitsCtx_def)
      show ?thesis
      proof (cases "r3 = None \<and> n3 = k")
        case True
        with stage_passed [of AwaitHealthy spec n2 s2 n3 s3 k] 3 n2(2) p1 p2 show ?thesis
          by (auto simp: waitsCtx_def nextDrain_def)
      next
        case False
        then have "k < n3 \<or> n3 = k \<and> r3 \<noteq> None" using n3 by auto
        from stage_stopped [OF 3 n2(2) this] p1 p2 show ?thesis by (auto simp: waitsCtx_def nextDrain_def)
      qed
    qed
  qed
qed

text \<open>
  C9: the cancellation as an event is the cancelled context: an update that has been accepted and is
  cancelled before its verdict or at the same moment, with the signals in its queue that have arrived
  by then, ends with the phase and the detail that \<^verbatim>\<open>OTASingleRobot\<close> reports with a
  context cancelled at that time.
\<close>

theorem cancellation_is_context:
  assumes "fst (executeActivity maxAttempts
      (SendOTACommand (rolloutOf su) (robotOf su) (si_Spec (su_input su))) (sg_send e) w) = Inr ()"
    and "sg_started e < k" and "sg_sent e < k" and "k \<le> verdictAt e (si_Spec (su_input su))"
    and "sy_update (ab_sys a) = Awaiting AwaitPulled" and "\<not> ab_cancelled a"
    and "sy_updateSignals (ab_sys a) = arrivedBy k (sg_signals e)"
  shows "\<exists>b. abortStep su CancelUpdate a = Some b \<and>
    verdictOf (sy_update (ab_sys b)) =
      Some (sr_Phase (fst (OTASingleRobotCtx (Some k) e (su_input su) w)),
        sr_Detail (fst (OTASingleRobotCtx (Some k) e (su_input su) w)))"
proof -
  let ?spec = "si_Spec (su_input su)"
  have "sg_sent e \<le> k" using assms(3) by simp
  from drain_waits [OF this assms(4)]
  have drained: "fst (waitsCtx (Some k) e ?spec) = drainSignals ?spec AwaitPulled (arrivedBy k (sg_signals e))" .
  have "(sr_Phase (fst (OTASingleRobotCtx (Some k) e (su_input su) w)),
      sr_Detail (fst (OTASingleRobotCtx (Some k) e (su_input su) w))) =
      outcomeVerdict (fst (waitsCtx (Some k) e ?spec))"
    using assms(1-3)
    by (auto simp: OTASingleRobotCtx_outcome ctxActivity_def finishRolledBackCtx_def Let_def
        split: prod.split sum.splits waitsOutcome.split)
  moreover have "verdictOf (Ended (drainedResult su out)) = Some (outcomeVerdict out)" for out
    by (cases out) (simp_all add: resultOf_def)
  ultimately show ?thesis using assms(5-7) by (simp add: cancelUpdate_def drained)
qed

section \<open>Witnesses\<close>

text \<open>
  An abort that comes when all acks are in the queue, with some of them twice, and one that comes
  between the robot's PULLED and SWAPPED, after which the robot goes on.
\<close>

definition demoLateAbort :: "abortEvent list" where
  "demoLateAbort = map Usual ([SendAttempt Pending, SendAttempt (Completed None), Deliver 1] @ replicate 12 (Turn 0) @
     [OtherCommand (Some (rollbackCommandBody ''rollout-2'' ''r1'' '''')), BridgeHandles 1, BridgeHandles 0,
      TakeSignal, BridgeHandles 1, BridgeHandles 2, TakeSignal, BridgeHandles 3]) @ [CancelUpdate]"

definition demoEarly :: "event list" where
  "demoEarly = [SendAttempt (Completed None), Deliver 0] @ replicate 3 (Turn 0) @ [BridgeHandles 1, TakeSignal]"

definition demoRest :: "abortEvent list" where
  "demoRest = map Usual (replicate 9 (Turn 0) @ [BridgeHandles 2, BridgeHandles 3])"

abbreviation abortStart :: "(string \<Rightarrow> string option) abortable" where
  "abortStart \<equiv> uncancelled (sysStart demoStart emptyDb)"

definition demoAborted :: "(string \<Rightarrow> string option) abortable" where
  "demoAborted = the (abortRun (demoSite ''true'') demoLateAbort abortStart)"

definition demoWaiting :: "(string \<Rightarrow> string option) abortable" where
  "demoWaiting = the (abortRun (demoSite ''true'') (map Usual demoEarly) abortStart)"

definition demoStranded :: "(string \<Rightarrow> string option) abortable" where
  "demoStranded = the (abortStep (demoSite ''true'') CancelUpdate demoWaiting)"

definition demoUpdated :: "(string \<Rightarrow> string option) abortable" where
  "demoUpdated = the (abortRun (demoSite ''true'') demoRest demoStranded)"

definition demoResult :: singleResult where
  "demoResult = \<lparr>sr_RobotID = ''r1'', sr_Phase = ''ok'', sr_Detail = '''', sr_StartedAt = 0, sr_EndedAt = minute\<rparr>"

definition demoStrandedResult :: singleResult where
  "demoStrandedResult = \<lparr>sr_RobotID = ''r1'', sr_Phase = ''rolled_back'',
     sr_Detail = error_text (timeoutError ''PHASE_SWAPPED'' (SwapTimeout (si_Spec (su_input (demoSite ''true''))))),
     sr_StartedAt = 0, sr_EndedAt = minute\<rparr>"

lemma demo_aborted:
  "case abortRun (demoSite ''true'') demoLateAbort abortStart of None \<Rightarrow> False | Some a \<Rightarrow>
     sy_update (ab_sys a) = Ended demoResult \<and> ab_cancelled a \<and> length (sy_updateSignals (ab_sys a)) = 3 \<and>
     ota_robot_results (cl_db (sy_cloud (ab_sys a))) = []"
  by code_simp

lemma demo_waiting:
  "case abortRun (demoSite ''true'') (map Usual demoEarly) abortStart of None \<Rightarrow> False | Some a \<Rightarrow>
     sy_update (ab_sys a) = Awaiting AwaitSwapped \<and> length (ex_published (sy_robot (ab_sys a))) = 2 \<and>
     (case abortStep (demoSite ''true'') CancelUpdate a of None \<Rightarrow> False | Some b \<Rightarrow>
       sy_update (ab_sys b) = Ended demoStrandedResult \<and>
       (case abortRun (demoSite ''true'') demoRest b of None \<Rightarrow> False | Some c \<Rightarrow>
         length (ex_published (sy_robot (ab_sys c))) = 4))"
  by code_simp

lemma demo_abort_runs:
  "abortRun (demoSite ''true'') demoLateAbort abortStart = Some demoAborted"
  "abortRun (demoSite ''true'') (map Usual demoEarly) abortStart = Some demoWaiting"
  "abortStep (demoSite ''true'') CancelUpdate demoWaiting = Some demoStranded"
  "abortRun (demoSite ''true'') demoRest demoStranded = Some demoUpdated"
  using demo_aborted demo_waiting
  by (auto simp: demoAborted_def demoWaiting_def demoStranded_def demoUpdated_def split: option.splits)

lemmas demo_aborted_state = demo_aborted [unfolded demo_abort_runs option.case]
lemmas demo_waiting_state = demo_waiting [unfolded demo_abort_runs option.case]

lemma demo_abort_reach: "abortReach (demoSite ''true'') demoAborted" "abortReach (demoSite ''true'') demoWaiting"
  unfolding abortReach_def using demo_abort_runs(1,2) by blast+

theorem ok_verdict_sound_witness:
  "acked (demoSite ''true'') (ab_sys demoAborted) ''PHASE_HEALTHY'' \<and> ab_cancelled demoAborted \<and>
   sy_update (ab_sys demoAborted) = Ended demoResult"
proof -
  have 1: "sy_update (ab_sys demoAborted) = Ended demoResult" using demo_aborted_state by blast
  have 2: "sr_Phase demoResult = SingleOK" by (simp add: demoResult_def single_defs)
  have 3: "ab_cancelled demoAborted" using demo_aborted_state by blast
  from ok_verdict_sound [OF demoSite_ok demo_abort_reach(1) 1 2] 1 3 show ?thesis by blast
qed

theorem routing_separates_workflows_witness:
  "''PHASE_ROLLED_BACK'' \<notin> sig_Phase ` set (sy_updateSignals demoSelf) \<and>
   length (ex_published (sy_robot demoSelf)) = 5 \<and> sy_rollback demoSelf = RbAwaiting"
proof -
  have "abortRun (demoSite ''false'') (map Usual demoSelfRun) abortStart = Some (uncancelled demoSelf)"
    using ab.lift_run [of "demoSite ''false''" demoSelfRun "sysStart demoStart emptyDb"] by (simp add: demo_runs)
  then have 1: "abortReach (demoSite ''false'') (uncancelled demoSelf)" unfolding abortReach_def by blast
  have 2: "ab_sys (uncancelled demoSelf) = demoSelf" by (simp add: uncancelled_def)
  show ?thesis using routing_separates_workflows [OF demoSite_ok 1] demo_states unfolding 2 by blast
qed

theorem abort_strands_update_witness:
  "sy_update (ab_sys demoUpdated) = Ended demoStrandedResult \<and> sr_Phase demoStrandedResult = ''rolled_back'' \<and>
   set (cl_outbox (sy_cloud (ab_sys demoUpdated))) \<subseteq> {forwardMessage (su_input (demoSite ''true''))} \<and>
   length (ex_published (sy_robot (ab_sys demoUpdated))) = 4"
proof -
  have 1: "sy_update (ab_sys demoWaiting) = Awaiting AwaitSwapped" "sy_update (ab_sys demoStranded) = Ended demoStrandedResult"
    "length (ex_published (sy_robot (ab_sys demoUpdated))) = 4"
    using demo_waiting_state by blast+
  have 2: "sr_Phase demoStrandedResult \<noteq> SingleOK" "sr_Phase demoStrandedResult = ''rolled_back''"
    by (simp_all add: demoStrandedResult_def single_defs)
  from abort_strands_update [OF demoSite_ok demo_abort_reach(2) 1(1) demo_abort_runs(3) 1(2) 2(1) demo_abort_runs(4)]
  show ?thesis using 1(3) 2(2) by blast
qed

text \<open>The abort of the good robot of the rollout demo between its second and its third ack.\<close>

theorem cancellation_is_context_witness:
  "\<exists>b. abortStep (demoSite ''true'') CancelUpdate (uncancelled ((sysStart demoStart emptyDb)
      \<lparr>sy_update := Awaiting AwaitPulled,
       sy_updateSignals := arrivedBy (2 * second + 1) (sg_signals (ch_single goodChild))\<rparr>)) = Some b \<and>
    map_option fst (verdictOf (sy_update (ab_sys b))) = Some ''rolled_back'' \<and>
    arrivedBy (2 * second + 1) (sg_signals (ch_single goodChild)) = [demoSignal ''PHASE_RECEIVED'', demoSignal ''PHASE_PULLED'']"
proof -
  let ?e = "ch_single goodChild" and ?k = "2 * second + 1" and ?su = "demoSite ''true''"
  let ?a = "uncancelled ((sysStart demoStart emptyDb)
      \<lparr>sy_update := Awaiting AwaitPulled, sy_updateSignals := arrivedBy ?k (sg_signals ?e)\<rparr>)"
  have 1: "fst (executeActivity maxAttempts (SendOTACommand (rolloutOf ?su) (robotOf ?su)
      (si_Spec (su_input ?su))) (sg_send ?e) demoCloud) = Inr ()" by code_simp
  have 2: "sg_started ?e < ?k" "sg_sent ?e < ?k" "?k \<le> verdictAt ?e (si_Spec (su_input ?su))" by code_simp+
  have 3: "sy_update (ab_sys ?a) = Awaiting AwaitPulled" "\<not> ab_cancelled ?a"
    "sy_updateSignals (ab_sys ?a) = arrivedBy ?k (sg_signals ?e)" by (simp_all add: uncancelled_def)
  have 4: "sr_Phase (fst (OTASingleRobotCtx (Some ?k) ?e (su_input ?su) demoCloud)) = ''rolled_back''"
    "arrivedBy ?k (sg_signals ?e) = [demoSignal ''PHASE_RECEIVED'', demoSignal ''PHASE_PULLED'']" by code_simp+
  from cancellation_is_context [OF 1 2 3] 4 show ?thesis by auto
qed

end
