(* ===== verification/Spec2Isabelle.thy ===== *)
theory Spec2Isabelle
  imports AgentImages Workers RolloutConcurrent Interruption
begin

text \<open>
  \<^bold>\<open>Verification of a robot fleet's telemetry and update plane\<close>

  The repository has two programs in Go that talk over an MQTT broker.  The agent
  (\<^verbatim>\<open>agent/\<close>) runs on a robot: it reads samples from the on-robot ROS bridge over gRPC, keeps them
  in a bounded SQLite buffer, publishes them when there is a connection, and carries out update
  commands with the container engine's command line.  The cloud (\<^verbatim>\<open>cloud/\<close>) stores telemetry in
  TimescaleDB, runs updates as Temporal workflows (a rollout over a cohort, one child per robot, a
  rollback child), steers a robot out of a collision, and offers an HTTP API.

  \<^bold>\<open>Theories, in the order of the code\<close>

  \<^item> \<open>Prelude\<close>: results of Go calls (\<open>go_error\<close>, sums, \<open>'a go\<close> with panics), 64-bit integers
    (\<open>i64\<close>), durations in nanoseconds, the string functions the sources use, rows of a query.
  \<^item> \<open>Interfaces\<close>: the contracts between components as locales.  \<open>sample_store\<close> (what the publish
    loop needs of the buffer) is interpreted in \<open>Buffer\<close>, \<open>backoff_policy\<close> in \<open>BridgeClient\<close> and
    \<open>Pump\<close>, \<open>topic_codec\<close> and \<open>exact_topic_codec\<close> in \<open>Topics\<close>, \<open>rollout_store\<close> in \<open>Store\<close>.
  \<^item> \<open>Buffer\<close> (\<^verbatim>\<open>agent/internal/buffer\<close>): the table of samples and its statements; \<open>Append\<close>,
    \<open>Peek\<close>, \<open>Ack\<close>, \<open>Count\<close>, \<open>Open\<close>; the invariant \<open>buf_inv\<close>; refinement of the abstract queue
    \<open>fifo_push\<close>.
  \<^item> \<open>Topics\<close>: the MQTT topics as senders format and receivers parse them.
  \<^item> \<open>Mqttx\<close> (\<^verbatim>\<open>agent/internal/mqttx/publisher.go\<close>): connection policy and \<open>Publish\<close>.
  \<^item> \<open>BridgeClient\<close> (\<^verbatim>\<open>agent/internal/bridge/client.go\<close>): one session as a run over the events
    of the stream, the reconnect loop as a run over rounds.
  \<^item> \<open>Pump\<close> (\<^verbatim>\<open>agent/internal/telemetry/pump.go\<close>): ingest, publish and heartbeat; the publish
    round as a function, and split into the atomic steps of \<open>pump_step\<close>, which interleave with
    appends; invariants over the reachable states and the refinement of the round to steps.
  \<^item> \<open>Json\<close>, \<open>OtaWire\<close> (\<^verbatim>\<open>agent/internal/ota/types.go\<close>): JSON values, struct decoding, the
    command and ack messages and the phases.
  \<^item> \<open>Docker\<close>, \<open>Engine\<close> (\<^verbatim>\<open>agent/internal/ota/docker.go\<close>): the commands issued to the engine,
    \<open>Swap\<close> and \<open>Rollback\<close>; the engine's documented behaviour as the predicate \<open>docker_laws\<close>, with
    the concrete engine \<open>demoEngine\<close> that satisfies it.
  \<^item> \<open>AgentOta\<close> (\<^verbatim>\<open>agent/internal/ota/executor.go\<close>): one command handled, its acks and its
    effect on the containers.
  \<^item> \<open>Tasks\<close>: goroutines that share a state, as resumptions; their interleavings, and the rules for
    what every interleaving keeps (the locale \<open>guarantee\<close>, and \<open>preserves\<close> for invariants of the
    state), what a task makes of a part of the state that only it touches
    (\<open>interleaved_projection\<close>), how many turns tasks take and when a schedule finishes them.
  \<^item> \<open>AgentConcurrent\<close> (\<^verbatim>\<open>executor.go\<close>, \<^verbatim>\<open>docker.go\<close>): the executor with one
    goroutine per command, one step per engine command, ack and access to the remembered digest;
    refinement to \<open>AgentOta\<close>, invariants of all interleavings, commands that overtake each other.
  \<^item> \<open>AgentImages\<close> (\<^verbatim>\<open>executor.go\<close>, \<^verbatim>\<open>docker.go\<close>): which images the robot can run, as an
    invariant of all interleavings.
  \<^item> \<open>AgentMain\<close> (\<^verbatim>\<open>agent/cmd/agent/main.go\<close>): configuration.
  \<^item> \<open>Store\<close> (\<^verbatim>\<open>cloud/internal/store\<close>): the database tables and their statements.
  \<^item> \<open>Fleet\<close> (\<^verbatim>\<open>cloud/internal/fleet/registry.go\<close>): cohort selection.
  \<^item> \<open>CloudOta\<close> (\<^verbatim>\<open>cloud/internal/ota/types.go\<close>, \<^verbatim>\<open>activities.go\<close>): specs, activities and their
    retries.
  \<^item> \<open>OtaWorkflow\<close> (\<^verbatim>\<open>mqttbridge.go\<close>, \<^verbatim>\<open>workflow_singlerobot.go\<close>,
    \<^verbatim>\<open>workflow_rollback.go\<close>): routing of acks to workflows, the per-robot update, the rollback.
  \<^item> \<open>Rollout\<close> (\<^verbatim>\<open>workflow_rollout.go\<close>): canary, batch, remainder and the failure budget;
    refinement of the decision \<open>decide\<close>; the children of a batch run one after the other.
  \<^item> \<open>Batch\<close>, \<open>RolloutConcurrent\<close>: the same workflow with the children of a batch as tasks, one
    step per attempt of an activity, and every order in which those steps can come; the rollout
    under a schedule agrees with the sequential one (\<open>rollout_interleavings_agree\<close>).  What a robot
    named twice does to a rollout.
  \<^item> \<open>Abort\<close>: the same three workflows with a context that \<^verbatim>\<open>POST .../abort\<close> cancels at some
    time, that of a child at the same time or later; without a cancellation they are the workflows
    before (\<open>uncancelled_context_agrees\<close>).
  \<^item> \<open>EndToEnd\<close>: the agent's executor and the cloud's workflows composed through the bridge.
  \<^item> \<open>Races\<close>: the same composition with concurrent goroutines on the robot and concurrent
    handlers of the bridge (\<open>bridgeTask\<close>, from \<^verbatim>\<open>mqttbridge.go\<close>).
  \<^item> \<open>Events\<close>: systems that run on events, as the locale \<open>event_system\<close> (runs, what every run
    keeps), and one such system inside another, as the locale \<open>embedding\<close>.
  \<^item> \<open>Distributed\<close>: the update of one robot as an event system of robot, broker, bridge, the
    server's signal queues, the update workflow and its rollback child, the workflows as machines
    that take one signal, timer or result at a time; the invariant \<open>flowInv\<close>, and the
    equivalence of the machine with \<open>OTASingleRobot\<close>.
  \<^item> \<open>Interruption\<close>: the same system, whose update workflow and rollback child may be cancelled
    in any state, each at its own time, while an attempt of an activity is under way; the runs of
    \<open>Distributed\<close> are among its runs, its cancellation agrees with \<open>OTASingleRobotCtx\<close>, and the
    invariants of all reachable states are proved here.
  \<^item> \<open>Ingest\<close> (\<^verbatim>\<open>cloud/cmd/telemetry-ingest/main.go\<close>), \<open>Collision\<close>
    (\<^verbatim>\<open>cloud/internal/collision\<close>), \<open>Api\<close> (\<^verbatim>\<open>cloud/internal/api\<close>).
  \<^item> \<open>Workers\<close> (\<^verbatim>\<open>cloud/cmd\<close>, \<^verbatim>\<open>Start\<close> of the two bridges, \<^verbatim>\<open>Pump.Run\<close>, the end of
    the agent's main): MQTT clients and their subscriptions over reconnections, start-up, exit codes.

  \<^bold>\<open>State and effects\<close>

  A struct is a record with the source's fields, state is passed explicitly and returned updated.
  Everything that is not in the repository enters as an argument of the operation that uses it: how
  an MQTT token ends, the failure of a statement, the server's clock, the signals of a workflow with
  their arrival times, the outcomes of the attempts of an activity, the container engine (with
  \<open>docker_laws\<close>), the MQTT client's defaults, sessions and acknowledgements (\<open>paho_defaults\<close>,
  \<open>session_laws\<close>, \<open>autoack_law\<close>).  Waiting
  loops run over the list of what happens to them, so no fuel is needed: a list that ends first
  stands for a loop still waiting, and the liveness properties (\<open>backlog_drains_in_order\<close>,
  \<open>single_ok_iff\<close>, \<open>completed_reaches_cohort\<close>) say which lists are enough.  The database tables are
  lists of rows; a transaction that fails leaves them as they were.

  \<^bold>\<open>What the lemmas show\<close>

  \<^item> Telemetry: the buffer is a bounded queue that drops its oldest samples; under every
    interleaving of the ingest and the publish loop a stored sample is in the buffer, on the wire or
    evicted, and nothing is evicted below the capacity; a backlog drains in order; topics round-trip;
    what the cloud stores, and what it drops.
  \<^item> Updates on the robot: the acks of a command by its outcome; what swap and rollback do to the
    containers, including the cases where they leave the robot worse off than before; for commands
    that overlap, which containers and images they can touch, that their acks rise, and how many
    steps they take.
  \<^item> Updates in the cloud: when a robot counts as updated, who is sent what, when a rollout goes on,
    how many robots a failing rollout reaches, and that the table holds the status returned; what an
    abort leaves behind.
  \<^item> End to end: the cloud's verdict against what happened on the robot, for one command at a time
    and for commands and acks that are handled at the same time; over all runs of the distributed
    system, aborted at any moment or not, an ok verdict means that the robot reported PULLED, SWAPPED
    and HEALTHY; an update that waits for an ack when it is aborted gets no rollback command, whatever
    the robot does; no state is stuck before the end.
  \<^item> Operation: what the subscribers receive after a reconnection, what a redelivered sample meets,
    how a program goes on when one of its parts fails.

  \<^bold>\<open>What is not modelled\<close>

  What happens to a child that the server ends with its parent, beyond the runs in which that child
  takes no further step; signals that the server refuses, outside \<open>Distributed\<close>; logging and the
  order of deferred closes; constructors and getters that only store or hand out a value; the
  generated protobuf code except the getters and the phase names that are used; the ROS bridge and the
  simulation, which are not Go programs.
  An activity without a limit of attempts may end in failure in the model, which adds behaviours.
  JSON is taken at the level of values, so a number written as \<^verbatim>\<open>1.0\<close> counts as an integer and the
  last of two equal keys as the member; a collision's time is taken to fit 64 bits.
  Velocities are rational where the source has \<^verbatim>\<open>float64\<close>.
\<close>

end
